(* ===== verification/Quarrel_Prelude.thy ===== *)
theory Quarrel_Prelude
  imports Main "HOL-Library.Word" "HOL-Library.AList" "HOL-Library.Multiset" "HOL-Library.Monad_Syntax"
begin

text \<open>
  Shared vocabulary of the development: names for the machine-integer types of the C++ code,
  the sentinel \<open>~0ull\<close>, the convention for undefined behaviour, and the lemmas on words,
  options and association lists that several components use.

  Convention. An operation that can run into an abort (a failing \<open>assert\<close>), a trap (an
  integer division by zero) or an out-of-bounds or dangling access returns an \<open>option\<close>, and
  \<open>None\<close> stands for that outcome. Error codes that the code returns as values are values here
  as well.
\<close>

type_synonym u8 = "8 word"
type_synonym u16 = "16 word"
type_synonym u32 = "32 word"
type_synonym u64 = "64 word"

text \<open>The sentinel \<open>~0ull\<close>.\<close>

abbreviation npos :: u64 where
  "npos \<equiv> - 1"

text \<open>
  \<open>codec_simps\<close>: sizes and byte layouts. \<open>wf_intros\<close>: well-formedness of messages,
  entries and managers is kept. \<open>view_simps\<close>: what a state shows after an operation.
\<close>

named_theorems codec_simps
named_theorems wf_intros
named_theorems view_simps

section \<open>Options and lists\<close>

lemma bind_Some_conv: "(Option.bind m f = Some y) = (\<exists>x. m = Some x \<and> f x = Some y)"
  by (cases m) auto

lemma Not_None_conv: "(x \<noteq> None) = (\<exists>y. x = Some y)"
  by (cases x) auto

lemma take_ge_butlast:
  "length xs = Suc n \<Longrightarrow> take n xs = butlast xs"
  by (simp add: butlast_conv_take)

lemma map_of_filter_other:
  "map_of (filter (\<lambda>p. fst p \<noteq> k) xs) k' = (if k' = k then None else map_of xs k')"
  by (induction xs) auto

lemma length_filter_distinct_key:
  "distinct (map fst xs) \<Longrightarrow> k \<in> fst ` set xs \<Longrightarrow>
   Suc (length (filter (\<lambda>p. fst p \<noteq> k) xs)) = length xs"
proof (induction xs)
  case (Cons a xs)
  show ?case
  proof (cases "fst a = k")
    case True
    with Cons.prems have "k \<notin> fst ` set xs" by simp
    then have "filter (\<lambda>p. fst p \<noteq> k) xs = xs"
      by (metis (mono_tags, lifting) filter_True image_eqI)
    with True show ?thesis by simp
  next
    case False
    with Cons.prems have "k \<in> fst ` set xs" by auto
    with Cons False show ?thesis by simp
  qed
qed simp

lemma filter_key_absent:
  "k \<notin> fst ` set xs \<Longrightarrow> filter (\<lambda>p. fst p \<noteq> k) xs = xs"
  by (auto simp: filter_id_conv)

lemma distinct_map_fst_filter:
  "distinct (map fst xs) \<Longrightarrow> distinct (map fst (filter P xs))"
  by (rule distinct_map_filter)

section \<open>Words\<close>

lemma unat_u64_less [simp]: "unat (w :: u64) < 18446744073709551616"
proof -
  have "unat w < 2 ^ LENGTH(64)" by (rule unsigned_less)
  then show ?thesis by simp
qed

lemma unat_u32_less [simp]: "unat (w :: u32) < 4294967296"
proof -
  have "unat w < 2 ^ LENGTH(32)" by (rule unsigned_less)
  then show ?thesis by simp
qed

lemma unat_add_noover:
  fixes a b :: "'a::len word"
  assumes "unat a + unat b < 2 ^ LENGTH('a)"
  shows "unat (a + b) = unat a + unat b"
  using assms by (simp add: unat_word_ariths)

lemma unat_Suc_noover:
  fixes a :: "'a::len word"
  assumes "a \<noteq> - 1"
  shows "unat (a + 1) = Suc (unat a)"
proof -
  have "1 + a \<noteq> 0"
    using assms by (metis add.commute add_eq_0_iff)
  from unatSuc [OF this] show ?thesis
    by (simp add: add.commute)
qed

lemma unat_npos [simp]: "unat npos = 18446744073709551615"
  by (simp add: unsigned_minus_1_eq_mask mask_eq_exp_minus_1)

lemma sint_small:
  fixes w :: u32
  assumes "unat w < 2147483648"
  shows "sint w = int (unat w)"
proof -
  have "uint w = int (unat w)" by simp
  then have "uint w < 2147483648" using assms by linarith
  moreover have "sint w = signed_take_bit 31 (uint w)" by (simp add: sint_uint)
  moreover have "0 \<le> uint w" by simp
  ultimately have "sint w = uint w" by (simp add: signed_take_bit_int_eq_self)
  then show ?thesis by simp
qed

end
