(* ===== verification/Ptype.thy ===== *)
theory Ptype
  imports Quarrel_Prelude
begin

text \<open>
  The wire and log types of core/ptype.h and the allocation and copy functions of
  core/ptype.cpp. A \<open>Proposal\<close> and a \<open>PaxosMsg\<close> are C structs with a trailing byte array
  ("struct hack"); \<open>p_data\<close> holds the value bytes that were really allocated behind the header,
  while the field \<open>p_size\<close> is what the code believes their number to be. Copying more bytes
  than are allocated on either side is undefined behaviour (\<open>None\<close>). \<open>calloc\<close> is taken to
  succeed, except where a caller checks its result.

  Naming. A field \<open>f_\<close> of \<open>Proposal\<close> is \<open>p_f\<close>, of \<open>PaxosMsg\<close> \<open>m_f\<close> (Isabelle
  identifiers do not end in an underscore); the other structures follow the same scheme.
\<close>

section \<open>Enumerations\<close>

datatype PaxosState =
    kPaxosState_INIT | kPaxosState_PREPARED | kPaxosState_PROMISED | kPaxosState_ACCEPTED
  | kPaxosState_CHOSEN | kPaxosState_ALREADY_CHOSEN | kPaxosState_PROMISED_FAILED
  | kPaxosState_ACCEPTED_FAILED | kPaxosState_COMMIT_FAILED | kPaxosState_INVALID_PROPOSAL
  | kPaxosState_LOCAL_LAG_BEHIND | kPaxosState_REMOTE_LAG_BEHIND | kPaxosState_FAST_ACCEPT_FAILED
  | kPaxosState_PREPARING | kPaxosState_PROMISING | kPaxosState_ACCEPTING | kPaxosState_CHOOSING

fun st :: "PaxosState \<Rightarrow> u32" where
  "st kPaxosState_INIT = 0"
| "st kPaxosState_PREPARED = 1"
| "st kPaxosState_PROMISED = 2"
| "st kPaxosState_ACCEPTED = 3"
| "st kPaxosState_CHOSEN = 4"
| "st kPaxosState_ALREADY_CHOSEN = 5"
| "st kPaxosState_PROMISED_FAILED = 6"
| "st kPaxosState_ACCEPTED_FAILED = 7"
| "st kPaxosState_COMMIT_FAILED = 8"
| "st kPaxosState_INVALID_PROPOSAL = 9"
| "st kPaxosState_LOCAL_LAG_BEHIND = 10"
| "st kPaxosState_REMOTE_LAG_BEHIND = 11"
| "st kPaxosState_FAST_ACCEPT_FAILED = 12"
| "st kPaxosState_PREPARING = 21"
| "st kPaxosState_PROMISING = 22"
| "st kPaxosState_ACCEPTING = 23"
| "st kPaxosState_CHOOSING = 24"

datatype PaxosMsgType =
    kMsgType_INVALID | kMsgType_PREPARE_REQ | kMsgType_PREPARE_RSP | kMsgType_ACCEPT_REQ
  | kMsgType_ACCEPT_RSP | kMsgType_CHOSEN_REQ | kMsgType_CHOSEN_RSP | kMsgType_CHORE_REQ
  | kMsgType_CHORE_CATCHUP | kMsgType_INVALID_REQ

fun mt :: "PaxosMsgType \<Rightarrow> u32" where
  "mt kMsgType_INVALID = 0"
| "mt kMsgType_PREPARE_REQ = 1"
| "mt kMsgType_PREPARE_RSP = 2"
| "mt kMsgType_ACCEPT_REQ = 3"
| "mt kMsgType_ACCEPT_RSP = 4"
| "mt kMsgType_CHOSEN_REQ = 5"
| "mt kMsgType_CHOSEN_RSP = 6"
| "mt kMsgType_CHORE_REQ = 101"
| "mt kMsgType_CHORE_CATCHUP = 102"
| "mt kMsgType_INVALID_REQ = 0xffffffff"

datatype PaxosErrCode =
    kErrCode_OK | kErrCode_FIRST_INTERNAL_ERR | kErrCode_OOM | kErrCode_TIMEOUT
  | kErrCode_PREPARE_NOT_QUORAUM | kErrCode_ACCEPT_NOT_QUORAUM | kErrCode_CONN_FAIL
  | kErrCode_PLOG_NOT_EXIST | kErrCode_PREPARE_PEER_VALUE | kErrCode_INVALID_PLOG_DATA
  | kErrCode_UNMARSHAL_PLOG_FAIL | kErrCode_WORKER_NOT_STARTED | kErrCode_WORKER_ALREADY_STARTED
  | kErrCode_PROPOSAL_NOT_EXIST | kErrCode_WRITE_PLOG_FAIL | kErrCode_INVALID_PROPOSAL_REQ
  | kErrCode_DUPLICATE_PROPOSAL_REQ | kErrCode_NEED_CATCHUP | kErrCode_ENTRY_NOT_EXIST
  | kErrCode_ENTRY_NOT_FOUND | kErrCode_ACCEPTOR_QUEUE_FULL | kErrCode_REMOTE_NEED_CATCHUP
  | kErrCode_WORKING_IN_PROPGRESS | kErrCode_PROPOSER_QUEUE_FULL | kErrCode_SETUP_TIMEOUT_FAIL
  | kErrCode_PEER_ACCEPT_FAIL | kErrCode_INVALID_ACCEPT_RSP | kErrCode_PEER_ACCEPT_REJECTED
  | kErrCode_PEER_ACCEPT_OTHER_VALUE | kErrCode_PREPARE_REJECTED | kErrCode_LAST_INTERNAL_ERR

fun err :: "PaxosErrCode \<Rightarrow> int" where
  "err kErrCode_OK = 0"
| "err kErrCode_FIRST_INTERNAL_ERR = -30000"
| "err kErrCode_OOM = -30001"
| "err kErrCode_TIMEOUT = -30002"
| "err kErrCode_PREPARE_NOT_QUORAUM = -30003"
| "err kErrCode_ACCEPT_NOT_QUORAUM = -30004"
| "err kErrCode_CONN_FAIL = -30005"
| "err kErrCode_PLOG_NOT_EXIST = -30006"
| "err kErrCode_PREPARE_PEER_VALUE = -30007"
| "err kErrCode_INVALID_PLOG_DATA = -30008"
| "err kErrCode_UNMARSHAL_PLOG_FAIL = -30009"
| "err kErrCode_WORKER_NOT_STARTED = -30010"
| "err kErrCode_WORKER_ALREADY_STARTED = -30011"
| "err kErrCode_PROPOSAL_NOT_EXIST = -30012"
| "err kErrCode_WRITE_PLOG_FAIL = -30013"
| "err kErrCode_INVALID_PROPOSAL_REQ = -30014"
| "err kErrCode_DUPLICATE_PROPOSAL_REQ = -30015"
| "err kErrCode_NEED_CATCHUP = -30016"
| "err kErrCode_ENTRY_NOT_EXIST = -30017"
| "err kErrCode_ENTRY_NOT_FOUND = -30018"
| "err kErrCode_ACCEPTOR_QUEUE_FULL = -30019"
| "err kErrCode_REMOTE_NEED_CATCHUP = -30020"
| "err kErrCode_WORKING_IN_PROPGRESS = -30021"
| "err kErrCode_PROPOSER_QUEUE_FULL = -30022"
| "err kErrCode_SETUP_TIMEOUT_FAIL = -30023"
| "err kErrCode_PEER_ACCEPT_FAIL = -30024"
| "err kErrCode_INVALID_ACCEPT_RSP = -30025"
| "err kErrCode_PEER_ACCEPT_REJECTED = -30026"
| "err kErrCode_PEER_ACCEPT_OTHER_VALUE = -30027"
| "err kErrCode_PREPARE_REJECTED = -30008"
| "err kErrCode_LAST_INTERNAL_ERR = -100000"

section \<open>Structures\<close>

record Proposal =
  p_pid :: u64
  p_term :: u64
  p_pinst :: u64
  p_pentry :: u64
  p_last_chosen :: u64
  p_last_chosen_from :: u16
  p_proposer :: u16
  p_size :: u32
  p_status :: u32
  p_opaque :: u64
  p_value_id :: u64
  p_data :: "u8 list"

text \<open>The trailing bytes of a \<open>PaxosMsg\<close> always hold a \<open>Proposal\<close>; it is \<open>m_body\<close> here.\<close>

record PaxosMsg =
  m_magic :: u32
  m_size :: u32
  m_type :: u32
  m_version :: u32
  m_from :: u32
  m_errcode :: int
  m_reqid :: u64
  m_body :: Proposal

definition ProposalHeaderSz :: nat where
  "ProposalHeaderSz = 8 + 8 + 8 + 8 + 8 + 2 + 2 + 4 + 4 + 8 + 8"

definition PaxosMsgHeaderSz :: nat where
  "PaxosMsgHeaderSz = 4 + 4 + 4 + 4 + 4 + 4 + 8"

lemmas header_sizes [codec_simps] = ProposalHeaderSz_def PaxosMsgHeaderSz_def

section \<open>Allocation and copies\<close>

text \<open>A block of zero bytes from \<open>calloc\<close>, seen as a \<open>Proposal\<close> with \<open>n\<close> value bytes.\<close>

definition calloc_Proposal :: "nat \<Rightarrow> Proposal" where
  "calloc_Proposal n =
     \<lparr>p_pid = 0, p_term = 0, p_pinst = 0, p_pentry = 0, p_last_chosen = 0, p_last_chosen_from = 0,
      p_proposer = 0, p_size = 0, p_status = 0, p_opaque = 0, p_value_id = 0, p_data = replicate n 0\<rparr>"

definition AllocProposal :: "u32 \<Rightarrow> Proposal" where
  "AllocProposal value_size = (calloc_Proposal (unat value_size))\<lparr>p_size := value_size\<rparr>"

definition AllocProposalMsg :: "u32 \<Rightarrow> PaxosMsg" where
  "AllocProposalMsg value_size =
     \<lparr>m_magic = 0xbadf00d,
      m_size = of_nat (ProposalHeaderSz + unat value_size),
      m_type = 0, m_version = 0, m_from = 0, m_errcode = 0, m_reqid = 0,
      m_body = (calloc_Proposal (unat value_size))\<lparr>p_size := value_size\<rparr>\<rparr>"

text \<open>\<open>memcpy(dst, src, ProposalHeaderSz + n)\<close>: the whole header and the first \<open>n\<close> value bytes.\<close>

definition memcpy_Proposal :: "Proposal \<Rightarrow> Proposal \<Rightarrow> nat \<Rightarrow> Proposal option" where
  "memcpy_Proposal dst src n =
     (if n \<le> length (p_data src) \<and> n \<le> length (p_data dst)
      then Some (src\<lparr>p_data := take n (p_data src) @ drop n (p_data dst)\<rparr>)
      else None)"

definition CloneProposal :: "Proposal \<Rightarrow> Proposal option" where
  "CloneProposal pm = memcpy_Proposal (AllocProposal (p_size pm)) pm (unat (p_size pm))"

definition CloneProposalMsg :: "PaxosMsg \<Rightarrow> PaxosMsg option" where
  "CloneProposalMsg pm =
     (let value_size = p_size (m_body pm); rp = AllocProposalMsg value_size
      in case memcpy_Proposal (m_body rp) (m_body pm) (unat value_size) of
           None \<Rightarrow> None
         | Some b \<Rightarrow> Some (pm\<lparr>m_body := b\<rparr>))"

text \<open>The copied fields: the larger term, and the source's opaque word; the count of changes.\<close>

definition CopyProposalMeta :: "Proposal \<Rightarrow> Proposal \<Rightarrow> Proposal \<times> int" where
  "CopyProposalMeta dst src =
     (let (d1, c1) = (if p_term src > p_term dst then (dst\<lparr>p_term := p_term src\<rparr>, 1) else (dst, 0));
          (d2, c2) = (if p_opaque src \<noteq> p_opaque d1 then (d1\<lparr>p_opaque := p_opaque src\<rparr>, c1 + 1)
                      else (d1, c1))
      in (d2, c2))"

definition GenDummyProposal :: Proposal where
  "GenDummyProposal = (calloc_Proposal 1)\<lparr>p_size := 1\<rparr>"

definition GetPLIdFromMsg :: "PaxosMsg \<Rightarrow> u64" where
  "GetPLIdFromMsg pm = p_pinst (m_body pm)"

section \<open>Well-formed proposals\<close>

text \<open>
  The announced size is the number of bytes behind the header, and fits a signed 32-bit integer
  (the acceptor keeps it in an \<open>int\<close>).
\<close>

definition wf_Proposal :: "Proposal \<Rightarrow> bool" where
  "wf_Proposal p \<longleftrightarrow> length (p_data p) = unat (p_size p) \<and> p_size p < 0x80000000"

definition wf_PaxosMsg :: "PaxosMsg \<Rightarrow> bool" where
  "wf_PaxosMsg m \<longleftrightarrow> wf_Proposal (m_body m)"

lemma wf_AllocProposal [simp, wf_intros]: "n < 0x80000000 \<Longrightarrow> wf_Proposal (AllocProposal n)"
  by (simp add: wf_Proposal_def AllocProposal_def calloc_Proposal_def)

lemma wf_AllocProposalMsg [simp, wf_intros]: "n < 0x80000000 \<Longrightarrow> wf_PaxosMsg (AllocProposalMsg n)"
  by (simp add: wf_PaxosMsg_def wf_Proposal_def AllocProposalMsg_def calloc_Proposal_def)

lemma wf_GenDummyProposal [simp, wf_intros]: "wf_Proposal GenDummyProposal"
  by (simp add: wf_Proposal_def GenDummyProposal_def calloc_Proposal_def)

lemma wf_Proposal_status [simp]: "wf_Proposal (p\<lparr>p_status := s\<rparr>) = wf_Proposal p"
  by (simp add: wf_Proposal_def)

lemma memcpy_Proposal_all:
  "wf_Proposal src \<Longrightarrow> length (p_data dst) = unat (p_size src) \<Longrightarrow>
   memcpy_Proposal dst src (unat (p_size src)) = Some src"
  by (simp add: memcpy_Proposal_def wf_Proposal_def)

lemma memcpy_Proposal_header:
  "p_data dst = [] \<Longrightarrow> memcpy_Proposal dst src 0 = Some (src\<lparr>p_data := []\<rparr>)"
  by (simp add: memcpy_Proposal_def)

lemma CloneProposal_wf [simp]: "wf_Proposal p \<Longrightarrow> CloneProposal p = Some p"
  by (simp add: CloneProposal_def memcpy_Proposal_all AllocProposal_def calloc_Proposal_def)

lemma CloneProposal_SomeD:
  "CloneProposal p = Some q \<Longrightarrow>
   length (p_data q) = unat (p_size q) \<and> p_size q = p_size p \<and> p_pid q = p_pid p \<and> p_value_id q = p_value_id p"
  by (auto simp: CloneProposal_def memcpy_Proposal_def wf_Proposal_def AllocProposal_def
      calloc_Proposal_def split: if_splits)

lemma CloneProposalMsg_wf [simp]: "wf_PaxosMsg m \<Longrightarrow> CloneProposalMsg m = Some m"
  by (simp add: CloneProposalMsg_def wf_PaxosMsg_def memcpy_Proposal_all AllocProposalMsg_def
      calloc_Proposal_def)

end
