(* ===== verification/Plog_Entry.thy ===== *)
theory Plog_Entry
  imports Ptype
begin

text \<open>
  The log entry of core/plog.h and its byte format in core/plog.cpp. An \<open>Entry\<close> holds the
  proposal an acceptor has accepted and the one it has promised. On disk it is an \<open>EntryRaw\<close>
  header (total size, version) followed by two proposals in the little-endian layout of the
  packed struct; a missing one is written as a dummy.
\<close>

section \<open>The class\<close>

record Entry =
  en_pinst :: u64
  en_entry :: u64
  en_accepted :: "Proposal option"
  en_promised :: "Proposal option"

definition Entry_new :: "u64 \<Rightarrow> u64 \<Rightarrow> Entry" where
  "Entry_new pinst entry =
     \<lparr>en_pinst = pinst, en_entry = entry, en_accepted = None, en_promised = None\<rparr>"

definition Entry_SetAccepted :: "Proposal option \<Rightarrow> Entry \<Rightarrow> Entry" where
  "Entry_SetAccepted p e = e\<lparr>en_accepted := p\<rparr>"

definition Entry_SetPromised :: "Proposal option \<Rightarrow> Entry \<Rightarrow> Entry" where
  "Entry_SetPromised p e = e\<lparr>en_promised := p\<rparr>"

definition Entry_Status :: "Entry \<Rightarrow> u64" where
  "Entry_Status e =
     (case en_accepted e of
        Some p \<Rightarrow> ucast (p_status p)
      | None \<Rightarrow> (case en_promised e of
                   Some p \<Rightarrow> ucast (p_status p)
                 | None \<Rightarrow> ucast (st kPaxosState_INVALID_PROPOSAL)))"

definition Entry_SetChosen :: "Entry \<Rightarrow> Entry \<times> int" where
  "Entry_SetChosen e =
     (case en_accepted e of
        None \<Rightarrow> (e, err kErrCode_PROPOSAL_NOT_EXIST)
      | Some p \<Rightarrow> (e\<lparr>en_accepted := Some (p\<lparr>p_status := st kPaxosState_CHOSEN\<rparr>)\<rparr>, err kErrCode_OK))"

definition wf_Entry :: "Entry \<Rightarrow> bool" where
  "wf_Entry e \<longleftrightarrow> pred_option wf_Proposal (en_accepted e) \<and> pred_option wf_Proposal (en_promised e)"

lemma wf_Entry_new [simp, wf_intros]: "wf_Entry (Entry_new pinst entry)"
  by (simp add: wf_Entry_def Entry_new_def)

lemma Entry_new_simps [simp]:
  "en_accepted (Entry_new pinst entry) = None" "en_promised (Entry_new pinst entry) = None"
  "en_pinst (Entry_new pinst entry) = pinst" "en_entry (Entry_new pinst entry) = entry"
  by (simp_all add: Entry_new_def)

section \<open>Little-endian integers\<close>

fun le_bytes :: "nat \<Rightarrow> nat \<Rightarrow> u8 list" where
  "le_bytes 0 n = []"
| "le_bytes (Suc k) n = of_nat n # le_bytes k (n div 256)"

fun le_nat :: "u8 list \<Rightarrow> nat" where
  "le_nat [] = 0"
| "le_nat (b # bs) = unat b + 256 * le_nat bs"

lemma length_le_bytes [simp]: "length (le_bytes k n) = k"
  by (induction k arbitrary: n) simp_all

lemma le_nat_le_bytes [simp]: "le_nat (le_bytes k n) = n mod 256 ^ k"
proof (induction k arbitrary: n)
  case (Suc k)
  have "unat (of_nat n :: u8) = n mod 256" by (simp add: unat_of_nat)
  with Suc show ?case by (simp add: mod_mult2_eq add.commute)
qed simp

text \<open>Reading \<open>k\<close> bytes off the front.\<close>

definition get_le :: "nat \<Rightarrow> u8 list \<Rightarrow> nat \<times> u8 list" where
  "get_le k bs = (le_nat (take k bs), drop k bs)"

lemma get_le_append [codec_simps]: "get_le k (le_bytes k n @ bs) = (n mod 256 ^ k, bs)"
  by (simp add: get_le_def)

section \<open>The byte format of a proposal\<close>

definition proposal_header_bytes :: "Proposal \<Rightarrow> u8 list" where
  "proposal_header_bytes p =
     le_bytes 8 (unat (p_pid p)) @ le_bytes 8 (unat (p_term p)) @ le_bytes 8 (unat (p_pinst p)) @
     le_bytes 8 (unat (p_pentry p)) @ le_bytes 8 (unat (p_last_chosen p)) @
     le_bytes 2 (unat (p_last_chosen_from p)) @ le_bytes 2 (unat (p_proposer p)) @
     le_bytes 4 (unat (p_size p)) @ le_bytes 4 (unat (p_status p)) @
     le_bytes 8 (unat (p_opaque p)) @ le_bytes 8 (unat (p_value_id p))"

text \<open>Bytes reinterpreted as a proposal; the bytes behind the header are its value bytes.\<close>

definition proposal_view :: "u8 list \<Rightarrow> Proposal option" where
  "proposal_view bs =
     (if length bs < ProposalHeaderSz then None
      else let (pid, b1) = get_le 8 bs; (trm, b2) = get_le 8 b1; (pinst, b3) = get_le 8 b2;
               (pentry, b4) = get_le 8 b3; (lc, b5) = get_le 8 b4; (lcf, b6) = get_le 2 b5;
               (prop, b7) = get_le 2 b6; (sz, b8) = get_le 4 b7; (sta, b9) = get_le 4 b8;
               (opq, b10) = get_le 8 b9; (vid, b11) = get_le 8 b10
           in Some \<lparr>p_pid = of_nat pid, p_term = of_nat trm, p_pinst = of_nat pinst,
                    p_pentry = of_nat pentry, p_last_chosen = of_nat lc,
                    p_last_chosen_from = of_nat lcf, p_proposer = of_nat prop,
                    p_size = of_nat sz, p_status = of_nat sta, p_opaque = of_nat opq,
                    p_value_id = of_nat vid, p_data = b11\<rparr>)"

text \<open>The field \<open>size_\<close> alone, at its offset: what the checks of \<open>UnserializeFrom\<close> read.\<close>

definition size_field :: "u8 list \<Rightarrow> u32 option" where
  "size_field bs = (if length bs < 48 then None else Some (of_nat (le_nat (take 4 (drop 44 bs)))))"

lemma length_proposal_header_bytes [simp]: "length (proposal_header_bytes p) = ProposalHeaderSz"
  by (simp add: proposal_header_bytes_def ProposalHeaderSz_def)

lemma unat_mod_self [simp]:
  "unat (a :: u64) mod 18446744073709551616 = unat a" "unat (b :: u32) mod 4294967296 = unat b"
  "unat (c :: u16) mod 65536 = unat c"
  using unsigned_less [of c, where ?'a = nat] by simp_all

lemma proposal_view_header:
  "proposal_view (proposal_header_bytes p @ bs) = Some (p\<lparr>p_data := bs\<rparr>)"
  by (simp add: proposal_view_def, simp add: proposal_header_bytes_def codec_simps del: le_bytes.simps)

section \<open>Serialisation\<close>

text \<open>\<open>sizeof(EntryRaw)\<close> of the packed struct: two 32-bit words and the one-byte array.\<close>

definition EntryHeadSize :: nat where
  "EntryHeadSize = 4 + 4 + 1"

text \<open>The bytes that \<open>memcpy(.., p, ProposalHeaderSz + n)\<close> reads from a proposal.\<close>

definition proposal_bytes :: "Proposal \<Rightarrow> nat \<Rightarrow> u8 list option" where
  "proposal_bytes p n =
     (if n \<le> length (p_data p) then Some (proposal_header_bytes p @ take n (p_data p)) else None)"

definition Entry_SerializeTo :: "Entry \<Rightarrow> (u8 list \<times> u32) option" where
  "Entry_SerializeTo e =
     (let n1 = (case en_accepted e of Some p \<Rightarrow> unat (p_size p) | None \<Rightarrow> 1);
          n2 = (case en_promised e of
                  Some p \<Rightarrow> if en_accepted e = None then unat (p_size p) else 1
                | None \<Rightarrow> 1);
          proposal_sz = ProposalHeaderSz + n1;
          promised_sz = ProposalHeaderSz + n2;
          total_sz = (of_nat (EntryHeadSize - 1 + proposal_sz + promised_sz) :: u32);
          p1 = (case en_accepted e of Some p \<Rightarrow> p | None \<Rightarrow> GenDummyProposal);
          p2 = (case en_promised e of
                  None \<Rightarrow> GenDummyProposal
                | Some p \<Rightarrow> if en_accepted e = None then p else GenDummyProposal)
      in if unat total_sz < EntryHeadSize - 1 + proposal_sz + promised_sz then None
         else do {
           b1 \<leftarrow> proposal_bytes p1 n1;
           b2 \<leftarrow> proposal_bytes p2 n2;
           Some (le_bytes 4 (unat total_sz) @ le_bytes 4 0x11 @ b1 @ b2, total_sz)
         })"

definition Entry_UnserializeFrom :: "u8 list \<Rightarrow> Entry \<Rightarrow> (Entry \<times> int) option" where
  "Entry_UnserializeFrom from e =
     (if length from < EntryHeadSize then Some (e, err kErrCode_UNMARSHAL_PLOG_FAIL)
      else if le_nat (take 4 from) \<noteq> length from then Some (e, err kErrCode_INVALID_PLOG_DATA)
      else let raw_data = drop 8 from in do {
        sz1 \<leftarrow> size_field raw_data;
        let raw_p2 = drop (ProposalHeaderSz + unat sz1) raw_data;
        sz2 \<leftarrow> size_field raw_p2;
        (if unat (sz1 + sz2) + 2 * ProposalHeaderSz \<noteq> length from - EntryHeadSize + 1
         then Some (e, err kErrCode_INVALID_PLOG_DATA)
         else do {
           p1 \<leftarrow> proposal_view raw_data;
           p2 \<leftarrow> proposal_view raw_p2;
           a \<leftarrow> CloneProposal p1;
           b \<leftarrow> CloneProposal p2;
           Some (e\<lparr>en_accepted := Some a, en_promised := Some b\<rparr>, err kErrCode_OK)
         })
      })"

lemma size_field_header:
  "size_field (proposal_header_bytes p @ bs) = Some (p_size p)"
  by (simp add: size_field_def proposal_header_bytes_def ProposalHeaderSz_def take_append drop_append
      del: le_bytes.simps)

lemma proposal_bytes_wf:
  "wf_Proposal p \<Longrightarrow> proposal_bytes p (unat (p_size p)) = Some (proposal_header_bytes p @ p_data p)"
  by (simp add: proposal_bytes_def wf_Proposal_def)

text \<open>The two proposals that are written, and what is read back.\<close>

definition stored_accepted :: "Entry \<Rightarrow> Proposal" where
  "stored_accepted e = (case en_accepted e of Some p \<Rightarrow> p | None \<Rightarrow> GenDummyProposal)"

definition stored_promised :: "Entry \<Rightarrow> Proposal" where
  "stored_promised e =
     (case (en_accepted e, en_promised e) of (None, Some p) \<Rightarrow> p | _ \<Rightarrow> GenDummyProposal)"

definition stored_size :: "Entry \<Rightarrow> nat" where
  "stored_size e =
     8 + 2 * ProposalHeaderSz + unat (p_size (stored_accepted e)) + unat (p_size (stored_promised e))"

lemma size_GenDummyProposal [simp]: "p_size GenDummyProposal = 1"
  by (simp add: GenDummyProposal_def)

lemma wf_stored [simp]:
  "wf_Entry e \<Longrightarrow> wf_Proposal (stored_accepted e)"
  "wf_Entry e \<Longrightarrow> wf_Proposal (stored_promised e)"
  by (auto simp: wf_Entry_def stored_accepted_def stored_promised_def split: option.splits)

lemma Entry_SerializeTo_stored:
  assumes "wf_Entry e" and "stored_size e < 2 ^ 32"
  shows "Entry_SerializeTo e =
    Some (le_bytes 4 (stored_size e) @ le_bytes 4 0x11 @
          (proposal_header_bytes (stored_accepted e) @ p_data (stored_accepted e)) @
          proposal_header_bytes (stored_promised e) @ p_data (stored_promised e),
          of_nat (stored_size e))"
proof -
  let ?p = "stored_accepted e" and ?q = "stored_promised e"
  have n1: "(case en_accepted e of Some p \<Rightarrow> unat (p_size p) | None \<Rightarrow> 1) = unat (p_size ?p)"
    by (simp add: stored_accepted_def split: option.splits)
  have n2: "(case en_promised e of
               Some p \<Rightarrow> if en_accepted e = None then unat (p_size p) else 1 | None \<Rightarrow> 1) =
            unat (p_size ?q)"
    by (simp add: stored_promised_def split: option.splits)
  have p1: "(case en_accepted e of Some p \<Rightarrow> p | None \<Rightarrow> GenDummyProposal) = ?p"
    by (simp add: stored_accepted_def)
  have p2: "(case en_promised e of None \<Rightarrow> GenDummyProposal
             | Some p \<Rightarrow> if en_accepted e = None then p else GenDummyProposal) = ?q"
    by (simp add: stored_promised_def split: option.splits)
  have total: "EntryHeadSize - 1 + (ProposalHeaderSz + unat (p_size ?p)) +
               (ProposalHeaderSz + unat (p_size ?q)) = stored_size e"
    by (simp add: stored_size_def EntryHeadSize_def)
  have fits: "unat (of_nat (stored_size e) :: u32) = stored_size e"
    using assms(2) by (simp add: unat_of_nat)
  show ?thesis
    unfolding Entry_SerializeTo_def Let_def n1 n2 p1 p2 total fits
    using assms(1) by (simp add: proposal_bytes_wf)
qed

lemma length_stored:
  assumes "wf_Entry e"
  shows "length (le_bytes 4 n @ le_bytes 4 0x11 @
          (proposal_header_bytes (stored_accepted e) @ p_data (stored_accepted e)) @
          proposal_header_bytes (stored_promised e) @ p_data (stored_promised e)) = stored_size e"
  using wf_stored [OF assms] by (simp add: stored_size_def wf_Proposal_def del: le_bytes.simps)

lemma CloneProposal_view:
  "wf_Proposal p \<Longrightarrow> CloneProposal (p\<lparr>p_data := p_data p @ bs\<rparr>) = Some p"
  by (simp add: CloneProposal_def memcpy_Proposal_def AllocProposal_def calloc_Proposal_def
      wf_Proposal_def)

lemma Entry_UnserializeFrom_stored:
  assumes "wf_Entry e" and "stored_size e < 2 ^ 32"
  shows "Entry_UnserializeFrom
     (le_bytes 4 (stored_size e) @ le_bytes 4 0x11 @
      (proposal_header_bytes (stored_accepted e) @ p_data (stored_accepted e)) @
      proposal_header_bytes (stored_promised e) @ p_data (stored_promised e)) e0 =
    Some (e0\<lparr>en_accepted := Some (stored_accepted e), en_promised := Some (stored_promised e)\<rparr>,
          err kErrCode_OK)"
proof -
  let ?p = "stored_accepted e" and ?q = "stored_promised e"
  let ?d1 = "(proposal_header_bytes ?p @ p_data ?p) @ proposal_header_bytes ?q @ p_data ?q"
  let ?d = "le_bytes 4 (stored_size e) @ le_bytes 4 0x11 @ ?d1"
  have wf: "wf_Proposal ?p" "wf_Proposal ?q" using assms(1) by simp_all
  have len: "length ?d = stored_size e" by (rule length_stored [OF assms(1)])
  have big: "\<not> length ?d < EntryHeadSize"
    unfolding len by (simp add: stored_size_def EntryHeadSize_def ProposalHeaderSz_def)
  have head: "le_nat (take 4 ?d) = length ?d"
    unfolding len using assms(2) by (simp del: le_bytes.simps)
  have data: "drop 8 ?d = ?d1" by (simp del: le_bytes.simps)
  have second: "drop (ProposalHeaderSz + unat (p_size ?p)) ?d1 =
                proposal_header_bytes ?q @ p_data ?q"
    using wf(1) by (simp add: wf_Proposal_def)
  have sum: "unat (p_size ?p + p_size ?q) + 2 * ProposalHeaderSz = length ?d - EntryHeadSize + 1"
  proof -
    have "unat (p_size ?p + p_size ?q) = unat (p_size ?p) + unat (p_size ?q)"
      using assms(2) by (intro unat_add_noover) (simp add: stored_size_def)
    then show ?thesis
      unfolding len by (simp add: stored_size_def EntryHeadSize_def ProposalHeaderSz_def)
  qed
  have v1: "proposal_view ?d1 = Some (?p\<lparr>p_data := p_data ?p @ proposal_header_bytes ?q @ p_data ?q\<rparr>)"
    using proposal_view_header [of ?p] by simp
  have v2: "proposal_view (proposal_header_bytes ?q @ p_data ?q) = Some ?q"
    using proposal_view_header [of ?q "p_data ?q"] by simp
  have s1: "size_field ?d1 = Some (p_size ?p)"
    using size_field_header [of ?p] by simp
  show ?thesis
    unfolding Entry_UnserializeFrom_def
    using big head sum wf second
    by (simp only: data s1 if_False Let_def size_field_header v1 v2 CloneProposal_view
        CloneProposal_wf) (simp add: s1 v1 v2 size_field_header CloneProposal_view)
qed

end
