(* ===== verification/Lru_Map.thy ===== *)
theory Lru_Map
  imports Quarrel_Prelude
begin

text \<open>
  util/lrumap.hpp: the bounded map that caches log entries and pending remote requests. The
  code keeps the pairs in a \<open>std::list\<close> in order of last use and, beside it, an
  \<open>unordered_map\<close> from keys to iterators into that list. List nodes carry their address here
  (\<open>ln_addr\<close>), an iterator is the address of a node, and \<open>lm_fresh\<close> is the next address the
  allocator hands out. \<open>LruMap_GetPtr\<close> also moves the node to the front; \<open>LruMap_WritePtr\<close>
  is the assignment through the pointer it returned.

  The invariant \<open>lru_inv\<close> ties the two structures together. Under it the map is just the list
  of pairs \<open>lru_list\<close> (the refinement lemmas), and the interface \<open>kv_cache\<close> states what the
  clients (the log and the connections) rely on.
\<close>

section \<open>The class\<close>

record ('k, 'v) list_node =
  ln_addr :: nat
  ln_key :: 'k
  ln_val :: 'v

record ('k, 'v) LruMap =
  lm_max_size :: nat
  lm_order :: "('k, 'v) list_node list"
  lm_kv :: "('k \<times> nat) list"
  lm_fresh :: nat

definition LruMap_new :: "nat \<Rightarrow> ('k, 'v) LruMap" where
  "LruMap_new max_size = \<lparr>lm_max_size = max_size, lm_order = [], lm_kv = [], lm_fresh = 0\<rparr>"

definition list_erase :: "nat \<Rightarrow> ('k, 'v) list_node list \<Rightarrow> ('k, 'v) list_node list" where
  "list_erase it xs = filter (\<lambda>n. ln_addr n \<noteq> it) xs"

definition list_splice_front :: "nat \<Rightarrow> ('k, 'v) list_node list \<Rightarrow> ('k, 'v) list_node list" where
  "list_splice_front it xs = filter (\<lambda>n. ln_addr n = it) xs @ list_erase it xs"

definition LruMap_Put :: "'k \<Rightarrow> 'v \<Rightarrow> ('k, 'v) LruMap \<Rightarrow> ('k, 'v) LruMap" where
  "LruMap_Put key value m =
     (let it = map_of (lm_kv m) key;
          node = \<lparr>ln_addr = lm_fresh m, ln_key = key, ln_val = value\<rparr>;
          ord1 = node # lm_order m;
          ord2 = (case it of None \<Rightarrow> ord1 | Some i \<Rightarrow> list_erase i ord1);
          kv1 = AList.update key (lm_fresh m) (lm_kv m);
          m1 = m\<lparr>lm_order := ord2, lm_kv := kv1, lm_fresh := Suc (lm_fresh m)\<rparr>
      in if length kv1 > lm_max_size m
         then m1\<lparr>lm_kv := AList.delete (ln_key (last ord2)) kv1, lm_order := butlast ord2\<rparr>
         else m1)"

definition LruMap_GetPtr :: "'k \<Rightarrow> ('k, 'v) LruMap \<Rightarrow> ('k, 'v) LruMap \<times> 'v option" where
  "LruMap_GetPtr key m =
     (case map_of (lm_kv m) key of
        None \<Rightarrow> (m, None)
      | Some it \<Rightarrow>
          (m\<lparr>lm_order := list_splice_front it (lm_order m)\<rparr>,
           map_option ln_val (find (\<lambda>n. ln_addr n = it) (lm_order m))))"

text \<open>\<open>Get\<close> throws \<open>std::range_error\<close> for a missing key: \<open>None\<close> here.\<close>

definition LruMap_Get :: "'k \<Rightarrow> ('k, 'v) LruMap \<Rightarrow> (('k, 'v) LruMap \<times> 'v) option" where
  "LruMap_Get key m =
     (case LruMap_GetPtr key m of (m', None) \<Rightarrow> None | (m', Some v) \<Rightarrow> Some (m', v))"

definition LruMap_WritePtr :: "'k \<Rightarrow> 'v \<Rightarrow> ('k, 'v) LruMap \<Rightarrow> ('k, 'v) LruMap" where
  "LruMap_WritePtr key value m =
     (case map_of (lm_kv m) key of
        None \<Rightarrow> m
      | Some it \<Rightarrow>
          m\<lparr>lm_order := map (\<lambda>n. if ln_addr n = it then n\<lparr>ln_val := value\<rparr> else n) (lm_order m)\<rparr>)"

definition LruMap_Del :: "'k \<Rightarrow> ('k, 'v) LruMap \<Rightarrow> ('k, 'v) LruMap \<times> bool" where
  "LruMap_Del key m =
     (case map_of (lm_kv m) key of
        None \<Rightarrow> (m, False)
      | Some it \<Rightarrow>
          (m\<lparr>lm_order := list_erase it (lm_order m), lm_kv := AList.delete key (lm_kv m)\<rparr>, True))"

definition LruMap_Clear :: "('k, 'v) LruMap \<Rightarrow> ('k, 'v) LruMap" where
  "LruMap_Clear m = m\<lparr>lm_kv := [], lm_order := []\<rparr>"

definition LruMap_Exists :: "'k \<Rightarrow> ('k, 'v) LruMap \<Rightarrow> bool" where
  "LruMap_Exists key m \<longleftrightarrow> map_of (lm_kv m) key \<noteq> None"

definition LruMap_Size :: "('k, 'v) LruMap \<Rightarrow> nat" where
  "LruMap_Size m = length (lm_kv m)"

definition LruMap_Capacity :: "('k, 'v) LruMap \<Rightarrow> nat" where
  "LruMap_Capacity m = lm_max_size m"

section \<open>Invariant and abstraction\<close>

definition node_pair :: "('k, 'v) list_node \<Rightarrow> 'k \<times> 'v" where
  "node_pair n = (ln_key n, ln_val n)"

definition lru_list :: "('k, 'v) LruMap \<Rightarrow> ('k \<times> 'v) list" where
  "lru_list m = map node_pair (lm_order m)"

definition lru_look :: "('k, 'v) LruMap \<Rightarrow> 'k \<Rightarrow> 'v option" where
  "lru_look m = map_of (lru_list m)"

definition lru_inv :: "('k, 'v) LruMap \<Rightarrow> bool" where
  "lru_inv m \<longleftrightarrow>
     distinct (map ln_addr (lm_order m)) \<and> distinct (map ln_key (lm_order m)) \<and>
     distinct (map fst (lm_kv m)) \<and>
     set (lm_kv m) = (\<lambda>n. (ln_key n, ln_addr n)) ` set (lm_order m) \<and>
     (\<forall>n \<in> set (lm_order m). ln_addr n < lm_fresh m) \<and>
     length (lm_order m) \<le> lm_max_size m"

lemma fst_node_pair [simp]: "fst (node_pair n) = ln_key n"
  and snd_node_pair [simp]: "snd (node_pair n) = ln_val n"
  by (simp_all add: node_pair_def)

lemma map_fst_lru_list [simp]: "map fst (lru_list m) = map ln_key (lm_order m)"
  by (simp add: lru_list_def)

lemma lru_inv_kv_iff:
  assumes "lru_inv m"
  shows "map_of (lm_kv m) k = Some i \<longleftrightarrow> (\<exists>n \<in> set (lm_order m). ln_key n = k \<and> ln_addr n = i)"
proof -
  have "map_of (lm_kv m) k = Some i \<longleftrightarrow> (k, i) \<in> set (lm_kv m)"
    using assms by (simp add: lru_inv_def)
  also have "\<dots> \<longleftrightarrow> (\<exists>n \<in> set (lm_order m). ln_key n = k \<and> ln_addr n = i)"
    using assms unfolding lru_inv_def by auto
  finally show ?thesis .
qed

lemma lru_inv_kv_None:
  assumes "lru_inv m"
  shows "map_of (lm_kv m) k = None \<longleftrightarrow> k \<notin> ln_key ` set (lm_order m)"
proof -
  have "fst ` set (lm_kv m) = ln_key ` set (lm_order m)"
    using assms by (auto simp: lru_inv_def image_image)
  then show ?thesis by (simp add: map_of_eq_None_iff)
qed

lemma lru_inv_length_kv: "lru_inv m \<Longrightarrow> length (lm_kv m) = length (lm_order m)"
proof -
  assume inv: "lru_inv m"
  have "length (lm_kv m) = card (set (lm_kv m))"
    using inv by (metis lru_inv_def distinct_card distinct_map)
  also have "\<dots> = card (set (lm_order m))"
  proof -
    have "inj_on (\<lambda>n. (ln_key n, ln_addr n)) (set (lm_order m))"
      using inv by (auto simp: lru_inv_def distinct_map inj_on_def)
    then show ?thesis using inv by (simp add: lru_inv_def card_image)
  qed
  also have "\<dots> = length (lm_order m)"
    using inv by (metis lru_inv_def distinct_card distinct_map)
  finally show ?thesis .
qed

text \<open>Under the invariant, an iterator found under a key designates the node with that key.\<close>

lemma addr_key_iff:
  assumes "lru_inv m" and "map_of (lm_kv m) k = Some i" and "n \<in> set (lm_order m)"
  shows "ln_addr n = i \<longleftrightarrow> ln_key n = k"
proof -
  obtain n' where n': "n' \<in> set (lm_order m)" "ln_key n' = k" "ln_addr n' = i"
    using assms(1,2) by (auto simp: lru_inv_kv_iff)
  have "inj_on ln_addr (set (lm_order m))" and "inj_on ln_key (set (lm_order m))"
    using assms(1) by (auto simp: lru_inv_def distinct_map)
  with n' assms(3) show ?thesis by (metis inj_onD)
qed

lemma list_erase_key:
  assumes "lru_inv m" and "map_of (lm_kv m) k = Some i"
  shows "list_erase i (lm_order m) = filter (\<lambda>n. ln_key n \<noteq> k) (lm_order m)"
  unfolding list_erase_def using addr_key_iff [OF assms] by (auto intro: filter_cong)

lemma map_node_pair_filter:
  "map node_pair (filter (\<lambda>n. ln_key n \<noteq> k) ns) = filter (\<lambda>p. fst p \<noteq> k) (map node_pair ns)"
  by (induction ns) auto

lemma filter_key_eq:
  assumes "lru_inv m" and "n \<in> set (lm_order m)"
  shows "filter (\<lambda>n'. ln_key n' = ln_key n) (lm_order m) = [n]"
proof -
  have d: "distinct (map ln_key (lm_order m))" using assms(1) by (simp add: lru_inv_def)
  from assms(2) obtain xs ys where o: "lm_order m = xs @ n # ys"
    by (auto dest: split_list)
  with d have "ln_key n \<notin> ln_key ` set xs" and "ln_key n \<notin> ln_key ` set ys" by auto
  then have "filter (\<lambda>n'. ln_key n' = ln_key n) xs = []" and "filter (\<lambda>n'. ln_key n' = ln_key n) ys = []"
    by (metis (mono_tags, lifting) filter_False image_eqI)+
  with o show ?thesis by simp
qed

lemma find_addr_key:
  assumes "lru_inv m" and "map_of (lm_kv m) k = Some i"
  shows "map_option ln_val (find (\<lambda>n. ln_addr n = i) (lm_order m)) = lru_look m k"
proof -
  have "find (\<lambda>n. ln_addr n = i) (lm_order m) = find (\<lambda>n. ln_key n = k) (lm_order m)"
    using addr_key_iff [OF assms] by (auto intro: find_cong)
  moreover have "map_option ln_val (find (\<lambda>n. ln_key n = k) ns) = map_of (map node_pair ns) k"
    for ns :: "('a, 'b) list_node list"
    by (induction ns) (auto simp: node_pair_def)
  ultimately show ?thesis by (simp add: lru_look_def lru_list_def)
qed

section \<open>Refinement: the map is its list of pairs\<close>

text \<open>The order list before the capacity check of \<open>Put\<close>.\<close>

definition put_order :: "'k \<Rightarrow> 'v \<Rightarrow> ('k, 'v) LruMap \<Rightarrow> ('k, 'v) list_node list" where
  "put_order k v m =
     \<lparr>ln_addr = lm_fresh m, ln_key = k, ln_val = v\<rparr> # filter (\<lambda>n. ln_key n \<noteq> k) (lm_order m)"

definition put_unbounded :: "'k \<Rightarrow> 'v \<Rightarrow> ('k, 'v) LruMap \<Rightarrow> ('k, 'v) LruMap" where
  "put_unbounded k v m =
     m\<lparr>lm_order := put_order k v m, lm_kv := AList.update k (lm_fresh m) (lm_kv m),
       lm_fresh := Suc (lm_fresh m)\<rparr>"

lemma LruMap_Put_alt:
  assumes "lru_inv m"
  shows "LruMap_Put k v m =
    (let m1 = put_unbounded k v m in
     if length (lm_kv m1) > lm_max_size m
     then m1\<lparr>lm_kv := AList.delete (ln_key (last (lm_order m1))) (lm_kv m1),
             lm_order := butlast (lm_order m1)\<rparr>
     else m1)"
proof (cases "map_of (lm_kv m) k")
  case None
  with assms have "k \<notin> ln_key ` set (lm_order m)" by (simp add: lru_inv_kv_None)
  then have "filter (\<lambda>n. ln_key n \<noteq> k) (lm_order m) = lm_order m"
    by (intro filter_True) auto
  with None show ?thesis
    by (simp add: LruMap_Put_def put_unbounded_def put_order_def Let_def)
next
  case (Some i)
  with assms have "i < lm_fresh m" by (auto simp: lru_inv_kv_iff lru_inv_def)
  then have "list_erase i (n # lm_order m) = n # list_erase i (lm_order m)"
    if "ln_addr n = lm_fresh m" for n
    using that by (simp add: list_erase_def)
  with Some show ?thesis
    by (simp add: LruMap_Put_def put_unbounded_def put_order_def Let_def list_erase_key [OF assms])
qed

text \<open>All of \<open>lru_inv\<close> but the bound on the length.\<close>

definition lru_linked :: "('k, 'v) LruMap \<Rightarrow> bool" where
  "lru_linked m \<longleftrightarrow> lru_inv (m\<lparr>lm_max_size := length (lm_order m)\<rparr>)"

lemma lru_inv_linked: "lru_inv m \<longleftrightarrow> lru_linked m \<and> length (lm_order m) \<le> lm_max_size m"
  by (auto simp: lru_linked_def lru_inv_def)

lemma lru_linked_max_size [simp]: "lru_linked (m\<lparr>lm_max_size := c\<rparr>) = lru_linked m"
  by (simp add: lru_linked_def)

lemma lru_linked_put_unbounded:
  assumes "lru_inv m"
  shows "lru_linked (put_unbounded k v m)"
proof -
  let ?ns = "filter (\<lambda>n. ln_key n \<noteq> k) (lm_order m)"
  have "set (AList.update k (lm_fresh m) (lm_kv m)) =
        insert (k, lm_fresh m) ((\<lambda>n. (ln_key n, ln_addr n)) ` set ?ns)"
  proof -
    have d: "distinct (map fst (lm_kv m))" using assms by (simp add: lru_inv_def)
    have "(a, b) \<in> set (AList.update k (lm_fresh m) (lm_kv m)) \<longleftrightarrow>
          (if a = k then b = lm_fresh m else (a, b) \<in> set (lm_kv m))" for a b
      using d by (subst map_of_eq_Some_iff [symmetric])
        (auto simp: distinct_update update_conv' dest: map_of_SomeD)
    then show ?thesis using assms by (auto simp: lru_inv_def split: if_splits)
  qed
  moreover have "distinct (map ln_addr ?ns)" "distinct (map ln_key ?ns)"
    using assms by (auto simp: lru_inv_def distinct_map_filter)
  moreover have "lm_fresh m \<notin> ln_addr ` set ?ns"
    using assms by (auto simp: lru_inv_def)
  ultimately show ?thesis using assms
    by (auto simp: lru_linked_def lru_inv_def put_unbounded_def put_order_def distinct_update)
qed

lemma lru_linked_drop_last:
  assumes "lru_linked m" and "lm_order m \<noteq> []"
  shows "lru_linked (m\<lparr>lm_kv := AList.delete (ln_key (last (lm_order m))) (lm_kv m),
                       lm_order := butlast (lm_order m)\<rparr>)"
proof -
  obtain ns n where o: "lm_order m = ns @ [n]"
    using assms(2) by (metis append_butlast_last_id)
  have "set (AList.delete (ln_key n) (lm_kv m)) = {p \<in> set (lm_kv m). fst p \<noteq> ln_key n}"
    by (auto simp: AList.delete_eq)
  with assms(1) o show ?thesis
    by (auto simp: lru_linked_def lru_inv_def distinct_delete) (metis imageI)
qed

lemma lru_list_put_unbounded:
  "lru_list (put_unbounded k v m) = (k, v) # filter (\<lambda>p. fst p \<noteq> k) (lru_list m)"
  by (simp add: lru_list_def put_unbounded_def put_order_def map_node_pair_filter node_pair_def)

lemma length_put_unbounded:
  "length (lm_order (put_unbounded k v m)) \<le> Suc (length (lm_order m))"
  by (simp add: put_unbounded_def put_order_def)

lemma length_kv_put_unbounded:
  "lru_inv m \<Longrightarrow> length (lm_kv (put_unbounded k v m)) = length (lm_order (put_unbounded k v m))"
  using lru_linked_put_unbounded [of m k v] unfolding lru_linked_def
  by (metis LruMap.ext_inject LruMap.surjective LruMap.update_convs(1) lru_inv_length_kv)

lemma lru_list_Put:
  assumes "lru_inv m"
  shows "lru_list (LruMap_Put k v m) =
    take (lm_max_size m) ((k, v) # filter (\<lambda>p. fst p \<noteq> k) (lru_list m))"
proof -
  let ?m = "put_unbounded k v m"
  have len: "length (lm_order ?m) \<le> Suc (lm_max_size m)"
    using length_put_unbounded [of k v m] assms by (simp add: lru_inv_def)
  show ?thesis
  proof (cases "length (lm_order ?m) > lm_max_size m")
    case True
    with len have "length (lru_list ?m) = Suc (lm_max_size m)" by (simp add: lru_list_def)
    then have "take (lm_max_size m) (lru_list ?m) = butlast (lru_list ?m)"
      by (rule take_ge_butlast)
    with True show ?thesis
      by (simp add: LruMap_Put_alt [OF assms] Let_def length_kv_put_unbounded [OF assms]
          lru_list_put_unbounded [symmetric]) (simp add: lru_list_def map_butlast)
  next
    case False
    then have "take (lm_max_size m) (lru_list ?m) = lru_list ?m" by (simp add: lru_list_def)
    with False show ?thesis
      by (simp add: LruMap_Put_alt [OF assms] Let_def length_kv_put_unbounded [OF assms]
          lru_list_put_unbounded [symmetric])
  qed
qed

lemma max_size_Put [simp]: "lm_max_size (LruMap_Put k v m) = lm_max_size m"
  by (simp add: LruMap_Put_def Let_def)

lemma lru_inv_Put [wf_intros]:
  assumes "lru_inv m"
  shows "lru_inv (LruMap_Put k v m)"
proof -
  let ?m = "put_unbounded k v m"
  have ne: "lm_order ?m \<noteq> []" by (simp add: put_unbounded_def put_order_def)
  note linked = lru_linked_put_unbounded [OF assms, of k v]
  have "lru_linked (LruMap_Put k v m)"
    using linked lru_linked_drop_last [OF linked ne]
    by (simp add: LruMap_Put_alt [OF assms] Let_def)
  moreover have "length (lm_order (LruMap_Put k v m)) \<le> lm_max_size m"
  proof -
    have "length (lru_list (LruMap_Put k v m)) \<le> lm_max_size m"
      by (simp only: lru_list_Put [OF assms] length_take)
    then show ?thesis by (simp add: lru_list_def)
  qed
  ultimately show ?thesis by (simp add: lru_inv_linked)
qed

lemma lru_look_distinct: "lru_inv m \<Longrightarrow> distinct (map fst (lru_list m))"
  by (simp add: lru_inv_def)

lemma lru_look_None: "lru_inv m \<Longrightarrow> lru_look m k = None \<longleftrightarrow> map_of (lm_kv m) k = None"
  using lru_inv_kv_None [of m k]
  by (simp add: lru_look_def lru_list_def map_of_eq_None_iff image_image)

lemma LruMap_GetPtr_value: "lru_inv m \<Longrightarrow> snd (LruMap_GetPtr k m) = lru_look m k"
  using lru_look_None [of m k]
  by (cases "map_of (lm_kv m) k") (simp_all add: LruMap_GetPtr_def find_addr_key)

lemma lru_list_GetPtr:
  assumes "lru_inv m"
  shows "lru_list (fst (LruMap_GetPtr k m)) =
    (case lru_look m k of
       None \<Rightarrow> lru_list m | Some v \<Rightarrow> (k, v) # filter (\<lambda>p. fst p \<noteq> k) (lru_list m))"
proof (cases "map_of (lm_kv m) k")
  case None
  with lru_look_None [OF assms, of k] show ?thesis by (simp add: LruMap_GetPtr_def)
next
  case (Some i)
  with assms obtain n where n: "n \<in> set (lm_order m)" "ln_key n = k" "ln_addr n = i"
    by (auto simp: lru_inv_kv_iff)
  have "filter (\<lambda>n. ln_addr n = i) (lm_order m) = filter (\<lambda>n'. ln_key n' = ln_key n) (lm_order m)"
    using addr_key_iff [OF assms Some] n(2) by (auto intro: filter_cong)
  then have "filter (\<lambda>n. ln_addr n = i) (lm_order m) = [n]"
    using filter_key_eq [OF assms n(1)] by simp
  moreover have "lru_look m k = Some (ln_val n)"
  proof -
    have "(k, ln_val n) \<in> set (lru_list m)"
      using n by (force simp: lru_list_def node_pair_def)
    with lru_look_distinct [OF assms] show ?thesis
      unfolding lru_look_def by (rule map_of_is_SomeI)
  qed
  ultimately show ?thesis using Some n
    by (simp add: LruMap_GetPtr_def lru_list_def list_splice_front_def list_erase_key [OF assms Some]
        map_node_pair_filter) (simp add: node_pair_def)
qed

lemma lru_inv_GetPtr [wf_intros]:
  assumes "lru_inv m"
  shows "lru_inv (fst (LruMap_GetPtr k m))"
proof (cases "map_of (lm_kv m) k")
  case (Some i)
  let ?o = "lm_order m"
  have perm: "distinct (map f (list_splice_front i ?o)) = distinct (map f ?o)"
    for f :: "('a, 'b) list_node \<Rightarrow> 'c"
  proof -
    have "mset (list_splice_front i ?o) = mset ?o"
      by (simp add: list_splice_front_def list_erase_def flip: multiset_partition)
    then have "mset (map f (list_splice_front i ?o)) = mset (map f ?o)" by simp
    then show ?thesis by (rule mset_eq_imp_distinct_iff)
  qed
  have "set (list_splice_front i ?o) = set ?o"
    by (auto simp: list_splice_front_def list_erase_def)
  moreover have "length (list_splice_front i ?o) = length ?o"
    by (simp add: list_splice_front_def list_erase_def sum_length_filter_compl)
  ultimately show ?thesis using assms Some
    by (simp add: LruMap_GetPtr_def lru_inv_def perm)
qed (use assms in \<open>simp add: LruMap_GetPtr_def\<close>)

lemma lru_list_WritePtr:
  assumes "lru_inv m"
  shows "lru_list (LruMap_WritePtr k v m) = map (\<lambda>(a, w). (a, if a = k then v else w)) (lru_list m)"
proof (cases "map_of (lm_kv m) k")
  case None
  with assms have "k \<notin> ln_key ` set (lm_order m)" by (simp add: lru_inv_kv_None)
  then show ?thesis using None
    by (auto simp: LruMap_WritePtr_def lru_list_def node_pair_def intro!: map_cong)
next
  case (Some i)
  then show ?thesis using addr_key_iff [OF assms Some]
    by (auto simp: LruMap_WritePtr_def lru_list_def node_pair_def intro!: map_cong)
qed

lemma lru_inv_WritePtr [wf_intros]:
  assumes "lru_inv m"
  shows "lru_inv (LruMap_WritePtr k v m)"
proof -
  let ?f = "\<lambda>i n. if ln_addr n = i then n\<lparr>ln_val := v\<rparr> else n"
  have "map ln_addr (map (?f i) ns) = map ln_addr ns" "map ln_key (map (?f i) ns) = map ln_key ns"
    "(\<lambda>n. (ln_key n, ln_addr n)) ` ?f i ` set ns = (\<lambda>n. (ln_key n, ln_addr n)) ` set ns"
    for i and ns :: "('a, 'b) list_node list"
    unfolding image_image by (auto intro!: image_cong)
  then show ?thesis using assms
    by (auto simp: LruMap_WritePtr_def lru_inv_def simp del: map_map split: option.splits)
qed

lemma max_size_other [simp]:
  "lm_max_size (fst (LruMap_GetPtr k m)) = lm_max_size m"
  "lm_max_size (LruMap_WritePtr k v m) = lm_max_size m"
  "lm_max_size (fst (LruMap_Del k m)) = lm_max_size m"
  "lm_max_size (LruMap_Clear m) = lm_max_size m"
  by (simp_all add: LruMap_GetPtr_def LruMap_WritePtr_def LruMap_Del_def LruMap_Clear_def
      split: option.splits)

lemma lru_inv_new [simp, wf_intros]: "lru_inv (LruMap_new c)"
  and lru_inv_Clear [simp, wf_intros]: "lru_inv (LruMap_Clear m)"
  by (simp_all add: LruMap_new_def LruMap_Clear_def lru_inv_def)

lemma lru_list_Del:
  assumes "lru_inv m"
  shows "lru_list (fst (LruMap_Del k m)) = filter (\<lambda>p. fst p \<noteq> k) (lru_list m)"
    and "snd (LruMap_Del k m) \<longleftrightarrow> lru_look m k \<noteq> None"
    and "lru_inv (fst (LruMap_Del k m))"
proof -
  show "lru_list (fst (LruMap_Del k m)) = filter (\<lambda>p. fst p \<noteq> k) (lru_list m)"
  proof (cases "map_of (lm_kv m) k")
    case None
    with assms have "k \<notin> fst ` set (lru_list m)"
      by (simp add: lru_inv_kv_None lru_list_def image_image)
    with None show ?thesis
      by (simp add: LruMap_Del_def) (metis filter_key_absent)
  next
    case (Some i)
    then show ?thesis
      by (simp add: LruMap_Del_def lru_list_def list_erase_key [OF assms] map_node_pair_filter)
  qed
  show "snd (LruMap_Del k m) \<longleftrightarrow> lru_look m k \<noteq> None"
    using assms by (auto simp: LruMap_Del_def lru_look_None split: option.splits)
  show "lru_inv (fst (LruMap_Del k m))"
  proof (cases "map_of (lm_kv m) k")
    case (Some i)
    have "length (filter P (lm_order m)) \<le> lm_max_size m" for P
      using assms by (meson length_filter_le le_trans lru_inv_def)
    with assms Some show ?thesis
      by (auto simp: LruMap_Del_def list_erase_key [OF assms] lru_inv_def distinct_map_filter
          distinct_delete AList.delete_eq)
  qed (use assms in \<open>simp add: LruMap_Del_def\<close>)
qed

lemma LruMap_Size_list: "lru_inv m \<Longrightarrow> LruMap_Size m = length (lru_list m)"
  by (simp add: LruMap_Size_def lru_inv_length_kv lru_list_def)

section \<open>The interface of a bounded cache\<close>

text \<open>
  What a client may rely on: a pointer lookup does not change the contents, an assignment
  through the pointer changes one value, an insertion with room adds one key, and an insertion
  without room may drop other keys but never changes their values.
\<close>

locale kv_cache =
  fixes look :: "'m \<Rightarrow> 'k \<Rightarrow> 'v option"
    and put :: "'k \<Rightarrow> 'v \<Rightarrow> 'm \<Rightarrow> 'm"
    and get :: "'k \<Rightarrow> 'm \<Rightarrow> 'm \<times> 'v option"
    and wr :: "'k \<Rightarrow> 'v \<Rightarrow> 'm \<Rightarrow> 'm"
    and csize :: "'m \<Rightarrow> nat"
    and capacity :: "'m \<Rightarrow> nat"
    and inv :: "'m \<Rightarrow> bool"
  assumes inv_put: "inv m \<Longrightarrow> inv (put k v m)"
    and inv_get: "inv m \<Longrightarrow> inv (fst (get k m))"
    and inv_wr: "inv m \<Longrightarrow> inv (wr k v m)"
    and get_look: "inv m \<Longrightarrow> snd (get k m) = look m k"
    and look_get: "inv m \<Longrightarrow> look (fst (get k m)) = look m"
    and look_wr: "inv m \<Longrightarrow> look m k = Some w \<Longrightarrow> look (wr k v m) = (look m)(k \<mapsto> v)"
    and look_put_same: "inv m \<Longrightarrow> 0 < capacity m \<Longrightarrow> look (put k v m) k = Some v"
    and look_put_room: "inv m \<Longrightarrow> look m k \<noteq> None \<or> csize m < capacity m \<Longrightarrow>
          look (put k v m) = (look m)(k \<mapsto> v)"
    and look_put_other: "inv m \<Longrightarrow> k' \<noteq> k \<Longrightarrow> look (put k v m) k' = Some w \<Longrightarrow> look m k' = Some w"
    and capacity_kept: "capacity (put k v m) = capacity m" "capacity (fst (get k m)) = capacity m"
          "capacity (wr k v m) = capacity m"
    and csize_kept: "inv m \<Longrightarrow> csize (fst (get k m)) = csize m" "inv m \<Longrightarrow> csize (wr k v m) = csize m"
    and csize_put: "inv m \<Longrightarrow> csize (put k v m) \<le> (if look m k = None then Suc (csize m) else csize m)"
begin

definition room :: "'k \<Rightarrow> 'm \<Rightarrow> bool" where
  "room k m \<longleftrightarrow> look m k \<noteq> None \<or> csize m < capacity m"

text \<open>The pattern of every client: take what is cached, else insert a fresh value.\<close>

definition fetch :: "'k \<Rightarrow> 'v \<Rightarrow> 'm \<Rightarrow> 'm" where
  "fetch k d m = (case get k m of (m', Some _) \<Rightarrow> m' | (m', None) \<Rightarrow> put k d m')"

lemma inv_fetch: "inv m \<Longrightarrow> inv (fetch k d m)"
  using inv_get [of m k] by (auto simp: fetch_def inv_put split: prod.splits option.splits)

lemma look_fetch:
  assumes "inv m" and "room k m"
  shows "look (fetch k d m) = (look m)(k \<mapsto> (case look m k of None \<Rightarrow> d | Some x \<Rightarrow> x))"
proof (cases "look m k")
  case None
  have "inv (fst (get k m))" using assms(1) by (rule inv_get)
  moreover have "csize (fst (get k m)) < capacity (fst (get k m))"
    using assms None by (simp add: room_def csize_kept capacity_kept)
  ultimately have "look (put k d (fst (get k m))) = (look m)(k \<mapsto> d)"
    using look_put_room look_get [OF assms(1)] by metis
  then show ?thesis using None get_look [OF assms(1), of k]
    by (auto simp: fetch_def split: prod.splits)
next
  case (Some x)
  then show ?thesis
    using get_look [OF assms(1), of k] look_get [OF assms(1), of k]
    by (auto simp: fetch_def split: prod.splits)
qed

lemma room_wr: "inv m \<Longrightarrow> look m k = Some w \<Longrightarrow> room k' (wr k v m) = room k' m"
  by (auto simp: room_def look_wr csize_kept capacity_kept)

lemma room_get: "inv m \<Longrightarrow> room k' (fst (get k m)) = room k' m"
  by (auto simp: room_def look_get csize_kept capacity_kept)

end

lemma lru_look_Put_eq:
  assumes "lru_inv m" and "lru_look m k \<noteq> None \<or> LruMap_Size m < LruMap_Capacity m"
  shows "lru_list (LruMap_Put k v m) = (k, v) # filter (\<lambda>p. fst p \<noteq> k) (lru_list m)"
proof -
  let ?f = "filter (\<lambda>p. fst p \<noteq> k) (lru_list m)"
  have "length ((k, v) # ?f) \<le> lm_max_size m"
  proof (cases "lru_look m k")
    case None
    with assms show ?thesis
      by (simp add: LruMap_Size_list LruMap_Capacity_def)
        (meson le_trans length_filter_le Suc_leI not_less_eq_eq)
  next
    case (Some w)
    then have "k \<in> fst ` set (lru_list m)"
      unfolding lru_look_def by (metis domI dom_map_of_conv_image_fst)
    then have "Suc (length ?f) = length (lru_list m)"
      using lru_look_distinct [OF assms(1)] by (rule length_filter_distinct_key [rotated])
    then show ?thesis using assms(1) by (simp add: lru_inv_def lru_list_def)
  qed
  then show ?thesis by (simp only: lru_list_Put [OF assms(1)] take_all)
qed

lemma map_of_GetPtr_list: "lru_inv m \<Longrightarrow> lru_look (fst (LruMap_GetPtr k m)) = lru_look m"
  by (rule ext, unfold lru_look_def [of "fst (LruMap_GetPtr k m)"], subst lru_list_GetPtr)
    (auto simp: map_of_filter_other lru_look_def split: option.splits)

lemma length_GetPtr_list: "lru_inv m \<Longrightarrow> length (lm_order (fst (LruMap_GetPtr k m))) = length (lm_order m)"
  by (auto simp: LruMap_GetPtr_def list_splice_front_def list_erase_def sum_length_filter_compl
      split: option.splits)

lemma map_of_take_Some: "distinct (map fst xs) \<Longrightarrow> map_of (take n xs) k = Some v \<Longrightarrow> map_of xs k = Some v"
  by (metis in_set_takeD map_of_SomeD map_of_is_SomeI)

lemma lru_look_Put_other:
  assumes "lru_inv m" and "k' \<noteq> k" and "lru_look (LruMap_Put k v m) k' = Some w"
  shows "lru_look m k' = Some w"
proof -
  let ?l = "(k, v) # filter (\<lambda>p. fst p \<noteq> k) (lru_list m)"
  have "distinct (map fst ?l)"
    using lru_look_distinct [OF assms(1)] by (auto simp: distinct_map_filter)
  moreover have "map_of (take (lm_max_size m) ?l) k' = Some w"
    using assms(3) by (simp only: lru_look_def lru_list_Put [OF assms(1)])
  ultimately have "map_of ?l k' = Some w" by (rule map_of_take_Some)
  then show ?thesis using assms(2) by (simp add: lru_look_def map_of_filter_other)
qed

lemma LruMap_Size_Put:
  assumes "lru_inv m"
  shows "LruMap_Size (LruMap_Put k v m) \<le>
    (if lru_look m k = None then Suc (LruMap_Size m) else LruMap_Size m)"
proof (cases "lru_look m k")
  case None
  have "length (lru_list (LruMap_Put k v m)) \<le> Suc (length (filter (\<lambda>p. fst p \<noteq> k) (lru_list m)))"
    unfolding lru_list_Put [OF assms] by (simp only: length_take length_Cons min.cobounded1)
  also have "\<dots> \<le> Suc (length (lru_list m))" by simp
  finally show ?thesis using None assms by (simp add: LruMap_Size_list lru_inv_Put)
next
  case (Some w)
  then have "k \<in> fst ` set (lru_list m)"
    unfolding lru_look_def by (metis domI dom_map_of_conv_image_fst)
  from length_filter_distinct_key [OF lru_look_distinct [OF assms] this] Some show ?thesis
    using assms lru_look_Put_eq [OF assms, of k v] by (simp add: LruMap_Size_list lru_inv_Put)
qed

interpretation lru: kv_cache lru_look LruMap_Put LruMap_GetPtr LruMap_WritePtr LruMap_Size
  LruMap_Capacity lru_inv
proof (unfold_locales, goal_cases)
  case (6 m k w v)
  have "map_of (map (\<lambda>(a, w). (a, if a = k then v else w)) xs) k' =
        (if k' = k \<and> map_of xs k \<noteq> None then Some v else map_of xs k')" for xs k'
    by (induction xs) auto
  with 6 show ?case by (auto simp: lru_look_def lru_list_WritePtr fun_eq_iff)
next
  case (7 m k v)
  then show ?case
    by (simp add: lru_look_def lru_list_Put LruMap_Capacity_def take_Cons')
next
  case (8 m k v)
  from lru_look_Put_eq [OF this, of v] show ?case
    by (auto simp: lru_look_def fun_eq_iff map_of_filter_other)
next
  case (13 m k)
  then show ?case by (simp add: LruMap_Size_list lru_inv_GetPtr lru_list_def length_GetPtr_list)
next
  case (14 m k v)
  then show ?case by (simp add: LruMap_Size_list lru_inv_WritePtr lru_list_WritePtr)
qed (auto simp: lru_inv_Put lru_inv_GetPtr lru_inv_WritePtr LruMap_GetPtr_value map_of_GetPtr_list
    LruMap_Capacity_def LruMap_Size_Put intro: lru_look_Put_other)

section \<open>Least recently used\<close>

datatype ('k, 'v) lru_op = OpPut 'k 'v | OpGet 'k

fun lru_op_key :: "('k, 'v) lru_op \<Rightarrow> 'k" where
  "lru_op_key (OpPut k v) = k"
| "lru_op_key (OpGet k) = k"

fun lru_run :: "('k, 'v) lru_op list \<Rightarrow> ('k, 'v) LruMap \<Rightarrow> ('k, 'v) LruMap" where
  "lru_run [] m = m"
| "lru_run (OpPut k v # ops) m = lru_run ops (LruMap_Put k v m)"
| "lru_run (OpGet k # ops) m = lru_run ops (fst (LruMap_GetPtr k m))"

text \<open>The key \<open>k\<close> is cached and only keys of \<open>S\<close> were used more recently.\<close>

definition recent :: "'k \<Rightarrow> 'k set \<Rightarrow> ('k, 'v) LruMap \<Rightarrow> bool" where
  "recent k S m \<longleftrightarrow> (\<exists>xs v ys. lru_list m = xs @ (k, v) # ys \<and> fst ` set xs \<subseteq> S)"

lemma recent_mono: "recent k S m \<Longrightarrow> S \<subseteq> T \<Longrightarrow> recent k T m"
  unfolding recent_def by blast

lemma recent_present: "recent k S m \<Longrightarrow> lru_look m k \<noteq> None"
  by (auto simp: recent_def lru_look_def map_of_eq_None_iff)

lemma recent_Put_same: "lru_inv m \<Longrightarrow> 0 < lm_max_size m \<Longrightarrow> recent k S (LruMap_Put k v m)"
  unfolding recent_def by (simp add: lru_list_Put take_Cons') (metis append_Nil empty_subsetI image_empty list.set(1))

lemma recent_Get_same:
  assumes "lru_inv m" and "recent k S m"
  shows "recent k T (fst (LruMap_GetPtr k m))"
proof -
  obtain v where "lru_look m k = Some v" using recent_present [OF assms(2)] by auto
  then have "lru_list (fst (LruMap_GetPtr k m)) = [] @ (k, v) # filter (\<lambda>p. fst p \<noteq> k) (lru_list m)"
    using lru_list_GetPtr [OF assms(1)] by simp
  then show ?thesis unfolding recent_def by fastforce
qed

text \<open>Using another key \<open>k'\<close> moves \<open>k\<close> back by at most one place.\<close>

lemma filter_other_key:
  "k \<noteq> k' \<Longrightarrow> filter (\<lambda>p. fst p \<noteq> k') (xs @ (k, v) # ys) =
     filter (\<lambda>p. fst p \<noteq> k') xs @ (k, v) # filter (\<lambda>p. fst p \<noteq> k') ys"
  by simp

lemma recent_Get_other:
  assumes "lru_inv m" and "recent k S m" and "k' \<noteq> k"
  shows "recent k (insert k' S) (fst (LruMap_GetPtr k' m))"
proof (cases "lru_look m k'")
  case None
  with lru_list_GetPtr [OF assms(1), of k'] have "lru_list (fst (LruMap_GetPtr k' m)) = lru_list m"
    by simp
  then have "recent k S (fst (LruMap_GetPtr k' m))" using assms(2) by (simp add: recent_def)
  then show ?thesis by (rule recent_mono) blast
next
  case (Some w)
  from assms(2) obtain xs v ys where l: "lru_list m = xs @ (k, v) # ys" and x: "fst ` set xs \<subseteq> S"
    unfolding recent_def by blast
  have "lru_list (fst (LruMap_GetPtr k' m)) =
        ((k', w) # filter (\<lambda>p. fst p \<noteq> k') xs) @ (k, v) # filter (\<lambda>p. fst p \<noteq> k') ys"
    using lru_list_GetPtr [OF assms(1), of k'] Some l assms(3) by simp
  moreover have "fst ` set ((k', w) # filter (\<lambda>p. fst p \<noteq> k') xs) \<subseteq> insert k' S" using x by auto
  ultimately show ?thesis unfolding recent_def by blast
qed

lemma recent_Put_other:
  assumes "lru_inv m" and "recent k S m" and "k' \<noteq> k" and "finite S"
    and "card (insert k' S) < lm_max_size m"
  shows "recent k (insert k' S) (LruMap_Put k' w m)"
proof -
  from assms(2) obtain xs v ys where l: "lru_list m = xs @ (k, v) # ys" and x: "fst ` set xs \<subseteq> S"
    unfolding recent_def by blast
  define pre where "pre = (k', w) # filter (\<lambda>p. fst p \<noteq> k') xs"
  have sub: "fst ` set pre \<subseteq> insert k' S" using x by (auto simp: pre_def)
  have "distinct (map fst xs)"
    using lru_look_distinct [OF assms(1)] l by (metis distinct_append map_append)
  then have "distinct (map fst pre)" by (auto simp: pre_def distinct_map_filter)
  then have "length pre = card (fst ` set pre)"
    by (metis distinct_card length_map list.set_map)
  also have "\<dots> \<le> card (insert k' S)" using sub assms(4) by (intro card_mono) auto
  finally have len: "length pre < lm_max_size m" using assms(5) by simp
  have "lru_list (LruMap_Put k' w m) =
        take (lm_max_size m) (pre @ (k, v) # filter (\<lambda>p. fst p \<noteq> k') ys)"
    using lru_list_Put [OF assms(1), of k' w] l assms(3) by (simp add: pre_def)
  also have "\<dots> = pre @ (k, v) #
      take (lm_max_size m - Suc (length pre)) (filter (\<lambda>p. fst p \<noteq> k') ys)"
    using len by (simp add: take_Cons')
  finally show ?thesis using sub unfolding recent_def by blast
qed

lemma recent_run:
  assumes "lru_inv m" and "recent k S m" and "finite S" and "k \<notin> S"
    and "card (S \<union> (lru_op_key ` set ops - {k})) < lm_max_size m"
  shows "lru_look (lru_run ops m) k \<noteq> None"
  using assms
proof (induction ops arbitrary: m S)
  case Nil
  then show ?case by (simp add: recent_present)
next
  case (Cons op ops)
  let ?k = "lru_op_key op"
  let ?K = "\<lambda>T. T \<union> (lru_op_key ` set ops - {k})"
  have pos: "0 < lm_max_size m" using Cons.prems(5) by simp
  have sub: "?K (if ?k = k then {} else insert ?k S) \<subseteq> S \<union> (lru_op_key ` set (op # ops) - {k})"
    by auto
  have c: "card (?K (if ?k = k then {} else insert ?k S)) < lm_max_size m"
    using card_mono [OF _ sub] Cons.prems(3,5) by simp
  have ck: "card (insert ?k S) < lm_max_size m" if "?k \<noteq> k"
  proof -
    have "insert ?k S \<subseteq> S \<union> (lru_op_key ` set (op # ops) - {k})" using that by auto
    from card_mono [OF _ this] Cons.prems(3,5) show ?thesis by simp
  qed
  show ?case
  proof (cases op)
    case (OpPut k' v)
    have "recent k (if k' = k then {} else insert k' S) (LruMap_Put k' v m)"
      using Cons.prems pos ck OpPut by (auto intro: recent_Put_same recent_Put_other)
    from Cons.IH [OF lru_inv_Put [OF Cons.prems(1)] this] c Cons.prems(3,4) OpPut
    show ?thesis by (cases "k' = k") auto
  next
    case (OpGet k')
    have "recent k (if k' = k then {} else insert k' S) (fst (LruMap_GetPtr k' m))"
      using Cons.prems OpGet by (auto intro: recent_Get_same recent_Get_other)
    from Cons.IH [OF lru_inv_GetPtr [OF Cons.prems(1)] this] c Cons.prems(3,4) OpGet
    show ?thesis by (cases "k' = k") auto
  qed
qed

end
