(* ===== verification/Config.thy ===== *)
theory Config
  imports Ptype
begin

text \<open>
  core/config.h: the configuration record with its default values. The storage path and the
  addresses are strings; \<open>InitConfigFromFile\<close> is a stub in the code and does nothing.
\<close>

record AddrInfo =
  ai_id :: u32
  ai_type :: int
  ai_addr :: string

text \<open>\<open>operator==\<close>; the pointer comparison in front of it only saves work.\<close>

definition AddrInfo_eq :: "AddrInfo \<Rightarrow> AddrInfo \<Rightarrow> bool" where
  "AddrInfo_eq l r \<longleftrightarrow> ai_id l = ai_id r \<and> ai_type l = ai_type r \<and> ai_addr l = ai_addr r"

definition PGT_Synod3 :: u32 where
  "PGT_Synod3 = 3"

definition PGT_Synod5 :: u32 where
  "PGT_Synod5 = 5"

record Configure =
  cf_timeout :: u32
  cf_pid_cookie :: u32
  cf_synod_id :: u32
  cf_total_acceptor :: u32
  cf_total_proposer :: u32
  cf_pg_type :: u32
  cf_acceptor_worker_count :: u32
  cf_proposer_worker_count :: u32
  cf_entry_cache_num :: u32
  cf_worker_msg_queue_sz :: u32
  cf_msg_version :: u32
  cf_storage_type :: u32
  cf_plog_inst_num :: u32
  cf_local_storage_path :: string
  cf_local :: AddrInfo
  cf_peer :: "AddrInfo list"

text \<open>
  The member initialisers. \<open>local_\<close> has none; its fields are whatever the caller passes.
\<close>

definition Configure_default :: "AddrInfo \<Rightarrow> Configure" where
  "Configure_default addr =
     \<lparr>cf_timeout = 20, cf_pid_cookie = 0, cf_synod_id = 0, cf_total_acceptor = 3,
      cf_total_proposer = 3, cf_pg_type = PGT_Synod3, cf_acceptor_worker_count = 5,
      cf_proposer_worker_count = 5, cf_entry_cache_num = 100000, cf_worker_msg_queue_sz = 10000,
      cf_msg_version = 0, cf_storage_type = 0, cf_plog_inst_num = 64,
      cf_local_storage_path = [], cf_local = addr, cf_peer = []\<rparr>"

definition InitConfigFromFile :: "string \<Rightarrow> Configure \<Rightarrow> Configure \<times> int" where
  "InitConfigFromFile path config = (config, 0)"

lemma AddrInfo_eq_iff [simp]: "AddrInfo_eq l r \<longleftrightarrow> l = r"
  by (cases l, cases r) (auto simp: AddrInfo_eq_def)

end
