(* ===== verification/Plog.thy ===== *)
theory Plog
  imports Plog_Entry Lru_Map Config
begin

text \<open>
  core/plog.h and core/plog.cpp: the manager of one log instance (\<open>EntryMng\<close>), which caches
  entries in a bounded map and writes them to a store, and the vector of managers (\<open>PlogMng\<close>).

  The store is behind pure virtual functions that the repository does not implement (a test
  double apart), and managers are made by a function the embedding program supplies. Both are
  parameters here: the fields of \<open>plog_env\<close>, over a store state \<open>'db\<close>. Reading does not
  change the store.

  Pointers. \<open>GetEntry\<close> returns a pointer to an entry owned by the cache. Such a pointer is
  followed with \<open>EntryMng_at\<close>, the cached entry of that key: \<open>None\<close>, undefined behaviour,
  once the cache has dropped it.
\<close>

section \<open>The store and the class\<close>

record PlogMetaInfo =
  mi_version :: u32
  mi_pinst :: u64
  mi_last_committed :: u64

record 'db EntryMng =
  em_db :: 'db
  em_pinst :: u64
  em_max_committed_entry :: u64
  em_max_continue_chosen_entry :: u64
  em_first_valid_entry :: u64
  em_max_in_used_entry :: u64
  em_last_chosen_entry :: u64
  em_first_unchosen_entry :: u64
  em_global_max_chosen_entry :: u64
  em_entries :: "(u64, Entry) LruMap"

record 'db plog_env =
  LoadEntry :: "'db \<Rightarrow> u64 \<Rightarrow> u64 \<Rightarrow> Entry \<Rightarrow> Entry \<times> int"
  SaveEntry :: "'db \<Rightarrow> u64 \<Rightarrow> u64 \<Rightarrow> Entry \<Rightarrow> 'db \<times> int"
  LoadPlogMetaInfo :: "'db \<Rightarrow> u64 \<Rightarrow> PlogMetaInfo \<times> int"
  BatchLoadEntry :: "'db \<Rightarrow> u64 \<Rightarrow> u64 \<Rightarrow> u64 \<Rightarrow> Entry list \<times> int"
  env_creator :: "Configure \<Rightarrow> u64 \<Rightarrow> 'db EntryMng option"

definition EntryMng_new :: "'db \<Rightarrow> Configure \<Rightarrow> u64 \<Rightarrow> 'db EntryMng" where
  "EntryMng_new db config pinst =
     \<lparr>em_db = db, em_pinst = pinst, em_max_committed_entry = 0, em_max_continue_chosen_entry = 0,
      em_first_valid_entry = npos, em_max_in_used_entry = npos, em_last_chosen_entry = npos,
      em_first_unchosen_entry = npos, em_global_max_chosen_entry = npos,
      em_entries = LruMap_new (unat (cf_entry_cache_num config))\<rparr>"

text \<open>Following, and writing through, a pointer to the cached entry \<open>k\<close>.\<close>

definition EntryMng_at :: "'db EntryMng \<Rightarrow> u64 \<Rightarrow> Entry option" where
  "EntryMng_at m k = lru_look (em_entries m) k"

definition EntryMng_write :: "u64 \<Rightarrow> Entry \<Rightarrow> 'db EntryMng \<Rightarrow> 'db EntryMng" where
  "EntryMng_write k e m = m\<lparr>em_entries := LruMap_WritePtr k e (em_entries m)\<rparr>"

section \<open>Operations of a manager\<close>

text \<open>The flag tells whether the returned pointer is non-null.\<close>

definition EntryMng_GetEntry :: "'db plog_env \<Rightarrow> u64 \<Rightarrow> 'db EntryMng \<Rightarrow> 'db EntryMng \<times> bool" where
  "EntryMng_GetEntry S entry m =
     (case LruMap_GetPtr entry (em_entries m) of
        (es, Some _) \<Rightarrow> (m\<lparr>em_entries := es\<rparr>, True)
      | (es, None) \<Rightarrow>
          (case LoadEntry S (em_db m) (em_pinst m) entry (Entry_new (em_pinst m) entry) of
             (ent, rc) \<Rightarrow>
               if rc \<noteq> err kErrCode_OK then (m\<lparr>em_entries := es\<rparr>, False)
               else (m\<lparr>em_entries := LruMap_Put entry ent es\<rparr>, True)))"

definition EntryMng_CreateEntry :: "'db plog_env \<Rightarrow> u64 \<Rightarrow> 'db EntryMng \<Rightarrow> 'db EntryMng option" where
  "EntryMng_CreateEntry S entry m =
     (case LruMap_GetPtr entry (em_entries m) of
        (es, Some _) \<Rightarrow> Some (m\<lparr>em_entries := es\<rparr>)
      | (es, None) \<Rightarrow>
          (let m1 = m\<lparr>em_entries := LruMap_Put entry (Entry_new (em_pinst m) entry) es\<rparr>
           in if em_max_in_used_entry m1 = npos \<or> entry > em_max_in_used_entry m1 then
                (let m2 = m1\<lparr>em_max_in_used_entry := entry\<rparr>
                 in do {
                      val \<leftarrow> EntryMng_at m2 entry;
                      Some (EntryMng_write entry (fst (LoadEntry S (em_db m2) (em_pinst m2) entry val)) m2)
                    })
              else Some m1))"

definition EntryMng_GetEntryAndCreateIfNotExist ::
    "'db plog_env \<Rightarrow> u64 \<Rightarrow> 'db EntryMng \<Rightarrow> 'db EntryMng option" where
  "EntryMng_GetEntryAndCreateIfNotExist S entry m =
     (case LruMap_GetPtr entry (em_entries m) of
        (es, None) \<Rightarrow> EntryMng_CreateEntry S entry (m\<lparr>em_entries := es\<rparr>)
      | (es, Some _) \<Rightarrow> Some (m\<lparr>em_entries := es\<rparr>))"

text \<open>\<open>SaveEntry(pinst_, entry, *ent)\<close> with the entry that the pointer shows.\<close>

definition EntryMng_save :: "'db plog_env \<Rightarrow> u64 \<Rightarrow> Entry \<Rightarrow> 'db EntryMng \<Rightarrow> 'db EntryMng \<times> int" where
  "EntryMng_save S entry e m =
     (case SaveEntry S (em_db m) (em_pinst m) entry e of (db', rc) \<Rightarrow> (m\<lparr>em_db := db'\<rparr>, rc))"

text \<open>The common frame of the setters: find the entry, change it through the pointer, save it.\<close>

definition EntryMng_modify ::
    "'db plog_env \<Rightarrow> u64 \<Rightarrow> int \<Rightarrow> (Entry \<Rightarrow> Entry) \<Rightarrow> 'db EntryMng \<Rightarrow> ('db EntryMng \<times> int) option" where
  "EntryMng_modify S entry not_found f m =
     (case EntryMng_GetEntry S entry m of
        (m1, False) \<Rightarrow> Some (m1, not_found)
      | (m1, True) \<Rightarrow> do {
          ent \<leftarrow> EntryMng_at m1 entry;
          Some (EntryMng_save S entry (f ent) (EntryMng_write entry (f ent) m1))
        })"

definition EntryMng_SetPromised ::
    "'db plog_env \<Rightarrow> Proposal \<Rightarrow> 'db EntryMng \<Rightarrow> ('db EntryMng \<times> int) option" where
  "EntryMng_SetPromised S p m = do {
     pc \<leftarrow> CloneProposal p;
     EntryMng_modify S (p_pentry p) (err kErrCode_ENTRY_NOT_EXIST) (Entry_SetPromised (Some pc)) m
   }"

definition EntryMng_ClearPromised ::
    "'db plog_env \<Rightarrow> u64 \<Rightarrow> u64 \<Rightarrow> 'db EntryMng \<Rightarrow> ('db EntryMng \<times> int) option" where
  "EntryMng_ClearPromised S pinst entry m =
     EntryMng_modify S entry (err kErrCode_PLOG_NOT_EXIST) (Entry_SetPromised None) m"

definition EntryMng_SetAccepted ::
    "'db plog_env \<Rightarrow> Proposal \<Rightarrow> 'db EntryMng \<Rightarrow> ('db EntryMng \<times> int) option" where
  "EntryMng_SetAccepted S p m = do {
     pc \<leftarrow> CloneProposal p;
     EntryMng_modify S (p_pentry p) (err kErrCode_ENTRY_NOT_EXIST) (Entry_SetAccepted (Some pc)) m
   }"

definition EntryMng_SetChosen :: "'db plog_env \<Rightarrow> u64 \<Rightarrow> 'db EntryMng \<Rightarrow> ('db EntryMng \<times> int) option" where
  "EntryMng_SetChosen S entry m =
     (case EntryMng_GetEntry S entry m of
        (m1, False) \<Rightarrow> Some (m1, err kErrCode_ENTRY_NOT_EXIST)
      | (m1, True) \<Rightarrow> do {
          ent \<leftarrow> EntryMng_at m1 entry;
          (case Entry_SetChosen ent of
             (ent', rc) \<Rightarrow>
               if rc \<noteq> err kErrCode_OK then Some (m1, rc)
               else case EntryMng_save S entry ent' (EntryMng_write entry ent' m1) of
                 (m2, ret) \<Rightarrow>
                   if ret = err kErrCode_OK then
                     (let m3 = (if em_last_chosen_entry m2 = npos \<or> em_last_chosen_entry m2 < entry
                                then m2\<lparr>em_last_chosen_entry := entry\<rparr> else m2);
                          m4 = (if em_global_max_chosen_entry m3 = npos \<or>
                                   em_global_max_chosen_entry m3 < entry
                                then m3\<lparr>em_global_max_chosen_entry := entry\<rparr> else m3)
                      in Some (m4, ret))
                   else Some (m2, ret))
        })"

definition EntryMng_Reset :: "'db EntryMng \<Rightarrow> 'db EntryMng" where
  "EntryMng_Reset m =
     m\<lparr>em_entries := LruMap_Clear (em_entries m), em_first_valid_entry := npos,
       em_last_chosen_entry := npos, em_max_in_used_entry := npos, em_first_unchosen_entry := npos,
       em_max_continue_chosen_entry := 0, em_global_max_chosen_entry := npos\<rparr>"

definition EntryMng_GetNextEntry :: "'db plog_env \<Rightarrow> bool \<Rightarrow> 'db EntryMng \<Rightarrow> ('db EntryMng \<times> u64) option" where
  "EntryMng_GetNextEntry S create m =
     (let ret = (if em_last_chosen_entry m \<noteq> npos then em_last_chosen_entry m + 1 else 0)
      in if create then map_option (\<lambda>m'. (m', ret)) (EntryMng_CreateEntry S ret m)
         else Some (m, ret))"

definition EntryMng_SetGlobalMaxChosenEntry :: "u64 \<Rightarrow> 'db EntryMng \<Rightarrow> 'db EntryMng" where
  "EntryMng_SetGlobalMaxChosenEntry entry m =
     (if em_global_max_chosen_entry m \<noteq> npos \<and> em_global_max_chosen_entry m \<ge> entry then m
      else m\<lparr>em_global_max_chosen_entry := entry\<rparr>)"

section \<open>Recovery\<close>

text \<open>One entry of a batch: the body of the inner loop of \<open>RecoverRange\<close>.\<close>

definition EntryMng_recover_entry :: "Entry \<Rightarrow> u64 \<times> 'db EntryMng \<Rightarrow> u64 \<times> 'db EntryMng" where
  "EntryMng_recover_entry ent s =
     (case s of (start_entry, m) \<Rightarrow>
        let i = en_entry ent;
            m1 = (if Entry_Status ent = ucast (st kPaxosState_CHOSEN)
                  then let a = (if i > em_last_chosen_entry m then m\<lparr>em_last_chosen_entry := i\<rparr> else m)
                       in if i = em_max_continue_chosen_entry a + 1
                          then a\<lparr>em_max_continue_chosen_entry := em_max_continue_chosen_entry a + 1\<rparr>
                          else a
                  else if i < em_first_unchosen_entry m then m\<lparr>em_first_unchosen_entry := i\<rparr>
                  else m);
            m2 = (if i < em_first_valid_entry m1 then m1\<lparr>em_first_valid_entry := i\<rparr> else m1);
            m3 = (if i > em_max_in_used_entry m2 then m2\<lparr>em_max_in_used_entry := i\<rparr> else m2);
            start' = (if i \<ge> start_entry then i + 1 else start_entry)
        in (start', m3\<lparr>em_entries := LruMap_Put i ent (em_entries m3)\<rparr>))"

text \<open>The outer \<open>while (1)\<close>; \<open>None\<close> when it never leaves.\<close>

partial_function (option) EntryMng_recover_loop ::
    "'db plog_env \<Rightarrow> u64 \<Rightarrow> u64 \<times> 'db EntryMng \<Rightarrow> 'db EntryMng option" where
  "EntryMng_recover_loop S end_entry s =
     (case s of (start_entry, m) \<Rightarrow>
        case BatchLoadEntry S (em_db m) (em_pinst m) start_entry end_entry of (batch, rc) \<Rightarrow>
          if rc \<noteq> err kErrCode_OK then Some m
          else if batch = [] then Some m
          else EntryMng_recover_loop S end_entry (fold EntryMng_recover_entry batch (start_entry, m)))"

text \<open>The \<open>bool\<close> that is returned is the constant \<open>kErrCode_OK\<close>, that is \<open>false\<close>.\<close>

definition EntryMng_RecoverRange ::
    "'db plog_env \<Rightarrow> u64 \<Rightarrow> u64 \<Rightarrow> 'db EntryMng \<Rightarrow> ('db EntryMng \<times> bool) option" where
  "EntryMng_RecoverRange S start_entry end_entry m = do {
     m' \<leftarrow> EntryMng_recover_loop S end_entry (start_entry, m);
     Some (if em_last_chosen_entry m' > em_global_max_chosen_entry m'
           then m'\<lparr>em_global_max_chosen_entry := em_last_chosen_entry m'\<rparr> else m',
           err kErrCode_OK \<noteq> 0)
   }"

definition EntryMng_LoadAllFromDisk :: "'db plog_env \<Rightarrow> 'db EntryMng \<Rightarrow> ('db EntryMng \<times> bool) option" where
  "EntryMng_LoadAllFromDisk S m =
     (case LoadPlogMetaInfo S (em_db m) (em_pinst m) of (meta, rc) \<Rightarrow>
        if rc \<noteq> err kErrCode_OK then Some (m, False)
        else do {
          (m', _) \<leftarrow> EntryMng_RecoverRange S 1 npos
            (m\<lparr>em_max_in_used_entry := 0, em_last_chosen_entry := 0, em_first_valid_entry := npos,
               em_first_unchosen_entry := npos, em_max_committed_entry := mi_last_committed meta,
               em_max_continue_chosen_entry := mi_last_committed meta,
               em_global_max_chosen_entry := 0\<rparr>);
          Some (m', True)
        })"

section \<open>The vector of managers\<close>

record 'db PlogMng =
  pm_config :: Configure
  pm_mngs :: "'db EntryMng option list"

definition PlogMng_InitPlog :: "'db plog_env \<Rightarrow> 'db PlogMng \<Rightarrow> 'db PlogMng \<times> int" where
  "PlogMng_InitPlog S pm =
     (pm\<lparr>pm_mngs := map (\<lambda>i. env_creator S (pm_config pm) (of_nat i))
                       [0..<unat (cf_plog_inst_num (pm_config pm))]\<rparr>, 0)"

definition PlogMng_slot :: "'db PlogMng \<Rightarrow> u64 \<Rightarrow> nat" where
  "PlogMng_slot pm pinst = unat pinst mod length (pm_mngs pm)"

text \<open>The manager behind the returned pointer; \<open>None\<close> for an empty vector (a remainder by
  zero) or when the creator itself gives a null pointer.\<close>

definition PlogMng_GetEntryMngAndCreateIfNotExist ::
    "'db plog_env \<Rightarrow> u64 \<Rightarrow> 'db PlogMng \<Rightarrow> ('db PlogMng \<times> 'db EntryMng) option" where
  "PlogMng_GetEntryMngAndCreateIfNotExist S pinst pm =
     (if pm_mngs pm = [] then None
      else let i = PlogMng_slot pm pinst
           in case pm_mngs pm ! i of
                Some m \<Rightarrow> Some (pm, m)
              | None \<Rightarrow> (case env_creator S (pm_config pm) (of_nat i) of
                   None \<Rightarrow> None
                 | Some m \<Rightarrow> Some (pm\<lparr>pm_mngs := (pm_mngs pm)[i := Some m]\<rparr>, m)))"

text \<open>A method of the manager called through that pointer.\<close>

definition PlogMng_call ::
    "'db plog_env \<Rightarrow> u64 \<Rightarrow> ('db EntryMng \<Rightarrow> ('db EntryMng \<times> 'a) option) \<Rightarrow> 'db PlogMng \<Rightarrow>
     ('db PlogMng \<times> 'a) option" where
  "PlogMng_call S pinst f pm = do {
     (pm1, mng) \<leftarrow> PlogMng_GetEntryMngAndCreateIfNotExist S pinst pm;
     (mng', r) \<leftarrow> f mng;
     Some (pm1\<lparr>pm_mngs := (pm_mngs pm1)[PlogMng_slot pm1 pinst := Some mng']\<rparr>, r)
   }"

definition PlogMng_GetEntryAndCreateIfNotExist ::
    "'db plog_env \<Rightarrow> u64 \<Rightarrow> u64 \<Rightarrow> 'db PlogMng \<Rightarrow> 'db PlogMng option" where
  "PlogMng_GetEntryAndCreateIfNotExist S pinst entry pm =
     map_option fst (PlogMng_call S pinst
       (\<lambda>m. map_option (\<lambda>m'. (m', ())) (EntryMng_GetEntryAndCreateIfNotExist S entry m)) pm)"

definition PlogMng_SetPromised ::
    "'db plog_env \<Rightarrow> Proposal \<Rightarrow> 'db PlogMng \<Rightarrow> ('db PlogMng \<times> int) option" where
  "PlogMng_SetPromised S p = PlogMng_call S (p_pinst p) (EntryMng_SetPromised S p)"

definition PlogMng_ClearPromised ::
    "'db plog_env \<Rightarrow> u64 \<Rightarrow> u64 \<Rightarrow> 'db PlogMng \<Rightarrow> ('db PlogMng \<times> int) option" where
  "PlogMng_ClearPromised S pinst entry = PlogMng_call S pinst (EntryMng_ClearPromised S pinst entry)"

definition PlogMng_SetAccepted ::
    "'db plog_env \<Rightarrow> Proposal \<Rightarrow> 'db PlogMng \<Rightarrow> ('db PlogMng \<times> int) option" where
  "PlogMng_SetAccepted S p = PlogMng_call S (p_pinst p) (EntryMng_SetAccepted S p)"

definition PlogMng_SetChosen ::
    "'db plog_env \<Rightarrow> u64 \<Rightarrow> u64 \<Rightarrow> 'db PlogMng \<Rightarrow> ('db PlogMng \<times> int) option" where
  "PlogMng_SetChosen S pinst entry = PlogMng_call S pinst (EntryMng_SetChosen S entry)"

definition PlogMng_GetNextEntry ::
    "'db plog_env \<Rightarrow> u64 \<Rightarrow> bool \<Rightarrow> 'db PlogMng \<Rightarrow> ('db PlogMng \<times> u64) option" where
  "PlogMng_GetNextEntry S pinst create = PlogMng_call S pinst (EntryMng_GetNextEntry S create)"

definition PlogMng_GetMaxChosenEntry ::
    "'db plog_env \<Rightarrow> u64 \<Rightarrow> 'db PlogMng \<Rightarrow> ('db PlogMng \<times> u64) option" where
  "PlogMng_GetMaxChosenEntry S pinst =
     PlogMng_call S pinst (\<lambda>m. Some (m, em_last_chosen_entry m))"

definition PlogMng_SetGlobalMaxChosenEntry ::
    "'db plog_env \<Rightarrow> u64 \<Rightarrow> u64 \<Rightarrow> 'db PlogMng \<Rightarrow> 'db PlogMng option" where
  "PlogMng_SetGlobalMaxChosenEntry S pinst entry pm =
     map_option fst (PlogMng_call S pinst
       (\<lambda>m. Some (EntryMng_SetGlobalMaxChosenEntry entry m, ())) pm)"

definition PlogMng_GetGlobalMaxChosenEntry ::
    "'db plog_env \<Rightarrow> u64 \<Rightarrow> 'db PlogMng \<Rightarrow> ('db PlogMng \<times> u64) option" where
  "PlogMng_GetGlobalMaxChosenEntry S pinst =
     PlogMng_call S pinst (\<lambda>m. Some (m, em_global_max_chosen_entry m))"

definition PlogMng_GetMaxCommittedEntry ::
    "'db plog_env \<Rightarrow> u64 \<Rightarrow> 'db PlogMng \<Rightarrow> ('db PlogMng \<times> u64) option" where
  "PlogMng_GetMaxCommittedEntry S pinst =
     PlogMng_call S pinst (\<lambda>m. Some (m, em_max_committed_entry m))"

text \<open>The \<open>assert\<close> is the middle case.\<close>

definition PlogMng_IsLocalChosenLagBehind ::
    "'db plog_env \<Rightarrow> u64 \<Rightarrow> 'db PlogMng \<Rightarrow> ('db PlogMng \<times> bool) option" where
  "PlogMng_IsLocalChosenLagBehind S pinst = PlogMng_call S pinst (\<lambda>mng.
     let max_in_used = em_max_in_used_entry mng;
         local_max_chosen = em_last_chosen_entry mng;
         global_max_chosen = em_global_max_chosen_entry mng
     in if max_in_used = npos \<and> local_max_chosen = npos then Some (mng, False)
        else if \<not> max_in_used \<ge> local_max_chosen then None
        else Some (mng, local_max_chosen < global_max_chosen))"

section \<open>Invariants\<close>

text \<open>
  The counters of a manager, apart from the store and the cache; the invariant of its cache;
  and what the code needs of the store: an entry stays well-formed when it is loaded.
\<close>

definition em_meta :: "'db EntryMng \<Rightarrow> u64 list" where
  "em_meta m = [em_pinst m, em_max_committed_entry m, em_max_continue_chosen_entry m,
     em_first_valid_entry m, em_max_in_used_entry m, em_last_chosen_entry m,
     em_first_unchosen_entry m, em_global_max_chosen_entry m]"

definition em_inv :: "'db EntryMng \<Rightarrow> bool" where
  "em_inv m \<longleftrightarrow> lru_inv (em_entries m) \<and> 0 < LruMap_Capacity (em_entries m) \<and>
     (\<forall>k e. EntryMng_at m k = Some e \<longrightarrow> wf_Entry e)"

definition env_ok :: "'db plog_env \<Rightarrow> bool" where
  "env_ok S \<longleftrightarrow> (\<forall>db pinst k e. wf_Entry e \<longrightarrow> wf_Entry (fst (LoadEntry S db pinst k e)))"

lemma em_inv_new [wf_intros]:
  "0 < cf_entry_cache_num config \<Longrightarrow> em_inv (EntryMng_new db config pinst)"
  by (simp add: em_inv_def EntryMng_new_def EntryMng_at_def lru_look_def lru_list_def LruMap_new_def
      LruMap_Capacity_def lru_inv_new [unfolded LruMap_new_def] word_gt_0 unat_gt_0)

lemma EntryMng_new_fields [simp]:
  "em_db (EntryMng_new db config pinst) = db" "em_pinst (EntryMng_new db config pinst) = pinst"
  "em_entries (EntryMng_new db config pinst) = LruMap_new (unat (cf_entry_cache_num config))"
  by (simp_all add: EntryMng_new_def)

lemma em_inv_cached: "em_inv m \<Longrightarrow> EntryMng_at m k = Some e \<Longrightarrow> wf_Entry e"
  by (simp add: em_inv_def)

lemma em_inv_get:
  assumes "em_inv m"
  shows "em_inv (m\<lparr>em_entries := fst (LruMap_GetPtr k (em_entries m))\<rparr>)"
    and "EntryMng_at (m\<lparr>em_entries := fst (LruMap_GetPtr k (em_entries m))\<rparr>) = EntryMng_at m"
    and "snd (LruMap_GetPtr k (em_entries m)) = EntryMng_at m k"
  using assms
  by (auto simp: em_inv_def EntryMng_at_def fun_eq_iff lru.look_get lru.capacity_kept lru.inv_get lru.get_look)

lemma em_inv_write:
  assumes "em_inv m" and "EntryMng_at m k = Some e" and "wf_Entry e'"
  shows "em_inv (EntryMng_write k e' m)"
    and "EntryMng_at (EntryMng_write k e' m) = (EntryMng_at m)(k \<mapsto> e')"
proof -
  have look: "lru_look (LruMap_WritePtr k e' (em_entries m)) = (lru_look (em_entries m))(k \<mapsto> e')"
    using assms by (intro lru.look_wr) (simp_all add: em_inv_def EntryMng_at_def)
  then show "EntryMng_at (EntryMng_write k e' m) = (EntryMng_at m)(k \<mapsto> e')"
    by (simp add: EntryMng_at_def EntryMng_write_def fun_eq_iff)
  with assms show "em_inv (EntryMng_write k e' m)"
    by (auto simp: em_inv_def EntryMng_write_def lru.inv_wr lru.capacity_kept)
qed

lemma em_inv_put:
  fixes m :: "'db EntryMng" and k :: u64
  assumes "em_inv m" and "wf_Entry e"
  defines "m' \<equiv> m\<lparr>em_entries := LruMap_Put k e (em_entries m)\<rparr>"
  shows "em_inv m'" and "EntryMng_at m' k = Some e"
    and "k' \<noteq> k \<Longrightarrow> EntryMng_at m' k' = Some x \<Longrightarrow> EntryMng_at m k' = Some x"
proof -
  note inv = assms(1) [unfolded em_inv_def]
  show same: "EntryMng_at m' k = Some e"
    using inv by (simp add: m'_def EntryMng_at_def lru.look_put_same)
  show other: "EntryMng_at m k' = Some x" if "k' \<noteq> k" "EntryMng_at m' k' = Some x" for k' x
    using inv that by (auto simp: m'_def EntryMng_at_def intro: lru.look_put_other)
  have "wf_Entry x" if "EntryMng_at m' k' = Some x" for k' x
    using that same assms(2) other [OF _ that] inv by (cases "k' = k") auto
  then show "em_inv m'"
    using inv by (simp add: em_inv_def m'_def lru.inv_put lru.capacity_kept)
qed

lemma EntryMng_write_fields [simp]:
  "em_meta (EntryMng_write k e m) = em_meta m" "em_db (EntryMng_write k e m) = em_db m"
  "em_pinst (EntryMng_write k e m) = em_pinst m"
  "em_max_in_used_entry (EntryMng_write k e m) = em_max_in_used_entry m"
  "em_last_chosen_entry (EntryMng_write k e m) = em_last_chosen_entry m"
  "em_global_max_chosen_entry (EntryMng_write k e m) = em_global_max_chosen_entry m"
  by (simp_all add: EntryMng_write_def em_meta_def)

lemma capacity_write [simp]:
  "LruMap_Capacity (em_entries (EntryMng_write k e m)) = LruMap_Capacity (em_entries m)"
  by (simp add: EntryMng_write_def lru.capacity_kept)

lemma em_meta_entries [simp]: "em_meta (m\<lparr>em_entries := es\<rparr>) = em_meta m"
  and em_meta_db [simp]: "em_meta (m\<lparr>em_db := db\<rparr>) = em_meta m"
  and em_inv_db [simp]: "em_inv (m\<lparr>em_db := db\<rparr>) = em_inv m"
  and EntryMng_at_db [simp]: "EntryMng_at (m\<lparr>em_db := db\<rparr>) = EntryMng_at m"
  by (simp_all add: em_meta_def em_inv_def EntryMng_at_def fun_eq_iff)

lemma em_meta_last_chosen: "em_meta m = em_meta m' \<Longrightarrow> em_last_chosen_entry m = em_last_chosen_entry m'"
  and em_meta_pinst: "em_meta m = em_meta m' \<Longrightarrow> em_pinst m = em_pinst m'"
  by (simp_all add: em_meta_def)

lemma em_counters_view [simp]:
  "EntryMng_at (m\<lparr>em_last_chosen_entry := x\<rparr>) = EntryMng_at m"
  "EntryMng_at (m\<lparr>em_global_max_chosen_entry := x\<rparr>) = EntryMng_at m"
  "EntryMng_at (m\<lparr>em_max_in_used_entry := x\<rparr>) = EntryMng_at m"
  "em_inv (m\<lparr>em_last_chosen_entry := x\<rparr>) = em_inv m"
  "em_inv (m\<lparr>em_global_max_chosen_entry := x\<rparr>) = em_inv m"
  "em_inv (m\<lparr>em_max_in_used_entry := x\<rparr>) = em_inv m"
  by (simp_all add: EntryMng_at_def em_inv_def fun_eq_iff)

section \<open>What the operations do\<close>

lemma EntryMng_GetEntry_cached:
  assumes "em_inv m" and "EntryMng_at m k = Some e"
  obtains m1 where "EntryMng_GetEntry S k m = (m1, True)" "em_inv m1" "EntryMng_at m1 = EntryMng_at m"
    "em_meta m1 = em_meta m" "em_db m1 = em_db m"
    "LruMap_Capacity (em_entries m1) = LruMap_Capacity (em_entries m)"
proof -
  obtain es where g: "LruMap_GetPtr k (em_entries m) = (es, Some e)"
    using em_inv_get(3) [OF assms(1), of k] assms(2) by (cases "LruMap_GetPtr k (em_entries m)") auto
  show thesis
    by (rule that [of "m\<lparr>em_entries := es\<rparr>"])
      (use em_inv_get(1,2) [OF assms(1), of k] g lru.capacity_kept(2) [of k "em_entries m"] in
        \<open>simp_all add: EntryMng_GetEntry_def\<close>)
qed

text \<open>A setter on a cached entry changes that entry alone, and saves the new contents.\<close>

lemma EntryMng_modify_cached:
  assumes "em_inv m" and "EntryMng_at m k = Some e" and "wf_Entry (f e)"
  obtains m' where
    "EntryMng_modify S k nf f m = Some (m', snd (SaveEntry S (em_db m) (em_pinst m) k (f e)))"
    "em_inv m'" "EntryMng_at m' = (EntryMng_at m)(k \<mapsto> f e)" "em_meta m' = em_meta m"
    "em_db m' = fst (SaveEntry S (em_db m) (em_pinst m) k (f e))"
    "LruMap_Capacity (em_entries m') = LruMap_Capacity (em_entries m)"
proof -
  from EntryMng_GetEntry_cached [OF assms(1,2), of S] obtain m1 where
    m1: "EntryMng_GetEntry S k m = (m1, True)" "em_inv m1" "EntryMng_at m1 = EntryMng_at m"
      "em_meta m1 = em_meta m" "em_db m1 = em_db m"
      "LruMap_Capacity (em_entries m1) = LruMap_Capacity (em_entries m)" .
  have at: "EntryMng_at m1 k = Some e" using m1 assms(2) by simp
  note w = em_inv_write [OF m1(2) at assms(3)]
  have pinst: "em_pinst m1 = em_pinst m" using m1(4) by (rule em_meta_pinst)
  let ?sv = "SaveEntry S (em_db m) (em_pinst m) k (f e)"
  show thesis
    by (rule that [of "(EntryMng_write k (f e) m1)\<lparr>em_db := fst ?sv\<rparr>"])
      (use m1 at w pinst in \<open>simp_all add: EntryMng_modify_def EntryMng_save_def split: prod.splits\<close>)
qed

lemma EntryMng_SetChosen_cached:
  fixes S :: "'db plog_env" and k :: u64
  assumes "em_inv m" and "EntryMng_at m k = Some e" and "en_accepted e = Some p"
  defines "e' \<equiv> e\<lparr>en_accepted := Some (p\<lparr>p_status := st kPaxosState_CHOSEN\<rparr>)\<rparr>"
  defines "rc \<equiv> snd (SaveEntry S (em_db m) (em_pinst m) k e')"
  obtains m' where
    "EntryMng_SetChosen S k m = Some (m', rc)" "em_inv m'" "EntryMng_at m' = (EntryMng_at m)(k \<mapsto> e')"
    "em_pinst m' = em_pinst m" "em_max_in_used_entry m' = em_max_in_used_entry m"
    "em_last_chosen_entry m' =
       (if rc = err kErrCode_OK \<and> (em_last_chosen_entry m = npos \<or> em_last_chosen_entry m < k)
        then k else em_last_chosen_entry m)"
    "em_db m' = fst (SaveEntry S (em_db m) (em_pinst m) k e')"
    "LruMap_Capacity (em_entries m') = LruMap_Capacity (em_entries m)"
proof -
  from EntryMng_GetEntry_cached [OF assms(1,2), of S] obtain m1 where
    m1: "EntryMng_GetEntry S k m = (m1, True)" "em_inv m1" "EntryMng_at m1 = EntryMng_at m"
      "em_meta m1 = em_meta m" "em_db m1 = em_db m"
      "LruMap_Capacity (em_entries m1) = LruMap_Capacity (em_entries m)" .
  have at: "EntryMng_at m1 k = Some e" using m1 assms(2) by simp
  have wf: "wf_Entry e'"
    using em_inv_cached [OF assms(1,2)] assms(3) by (simp add: wf_Entry_def e'_def)
  note w = em_inv_write [OF m1(2) at wf]
  have set: "Entry_SetChosen e = (e', err kErrCode_OK)"
    using assms(3) by (simp add: Entry_SetChosen_def e'_def)
  have meta: "em_pinst m1 = em_pinst m" "em_max_in_used_entry m1 = em_max_in_used_entry m"
    "em_last_chosen_entry m1 = em_last_chosen_entry m"
    using m1(4) by (simp_all add: em_meta_def)
  let ?sv = "SaveEntry S (em_db m) (em_pinst m) k e'"
  let ?m2 = "(EntryMng_write k e' m1)\<lparr>em_db := fst ?sv\<rparr>"
  let ?m3 = "if em_last_chosen_entry ?m2 = npos \<or> em_last_chosen_entry ?m2 < k
             then ?m2\<lparr>em_last_chosen_entry := k\<rparr> else ?m2"
  let ?m4 = "if em_global_max_chosen_entry ?m3 = npos \<or> em_global_max_chosen_entry ?m3 < k
             then ?m3\<lparr>em_global_max_chosen_entry := k\<rparr> else ?m3"
  have save: "EntryMng_save S k e' (EntryMng_write k e' m1) = (?m2, rc)"
    by (simp add: EntryMng_save_def rc_def m1 meta split: prod.splits)
  have "EntryMng_SetChosen S k m = Some (if rc = err kErrCode_OK then ?m4 else ?m2, rc)"
    unfolding EntryMng_SetChosen_def m1(1) by (simp add: at set save Let_def)
  then show thesis
    by (rule that) (use w m1 meta in \<open>simp_all\<close>)
qed

text \<open>
  An operation on entry \<open>k\<close> never invents another entry, and when the cache has room for
  \<open>k\<close> it drops none either.
\<close>

definition em_room :: "u64 \<Rightarrow> 'db EntryMng \<Rightarrow> bool" where
  "em_room k m \<longleftrightarrow> EntryMng_at m k \<noteq> None \<or>
     LruMap_Size (em_entries m) < LruMap_Capacity (em_entries m)"

definition em_keeps :: "u64 \<Rightarrow> 'db EntryMng \<Rightarrow> 'db EntryMng \<Rightarrow> bool" where
  "em_keeps k m m' \<longleftrightarrow> em_pinst m' = em_pinst m \<and>
     LruMap_Capacity (em_entries m') = LruMap_Capacity (em_entries m) \<and>
     (\<forall>k' x. k' \<noteq> k \<longrightarrow> EntryMng_at m' k' = Some x \<longrightarrow> EntryMng_at m k' = Some x) \<and>
     (em_room k m \<longrightarrow> (\<forall>k'. k' \<noteq> k \<longrightarrow> EntryMng_at m' k' = EntryMng_at m k'))"

lemma em_keeps_upd:
  "EntryMng_at m' = (EntryMng_at m)(k \<mapsto> e) \<Longrightarrow> em_pinst m' = em_pinst m \<Longrightarrow>
   LruMap_Capacity (em_entries m') = LruMap_Capacity (em_entries m) \<Longrightarrow> em_keeps k m m'"
  by (simp add: em_keeps_def)

lemma em_keeps_same:
  "EntryMng_at m' = EntryMng_at m \<Longrightarrow> em_pinst m' = em_pinst m \<Longrightarrow>
   LruMap_Capacity (em_entries m') = LruMap_Capacity (em_entries m) \<Longrightarrow> em_keeps k m m'"
  by (simp add: em_keeps_def)

lemma em_keeps_trans:
  "em_keeps k m m1 \<Longrightarrow> em_keeps k m1 m2 \<Longrightarrow> EntryMng_at m1 k \<noteq> None \<Longrightarrow> em_keeps k m m2"
  unfolding em_keeps_def em_room_def by metis

lemma em_keeps_put:
  assumes "em_inv m" and "wf_Entry e"
  shows "em_keeps k m (m\<lparr>em_entries := LruMap_Put k e (em_entries m)\<rparr>)" (is "em_keeps k m ?m")
proof -
  have "lru_look (LruMap_Put k e (em_entries m)) = (lru_look (em_entries m))(k \<mapsto> e)" if "em_room k m"
    using assms(1) that by (intro lru.look_put_room) (simp_all add: em_inv_def em_room_def EntryMng_at_def)
  then have room: "\<forall>k'. k' \<noteq> k \<longrightarrow> EntryMng_at ?m k' = EntryMng_at m k'" if "em_room k m"
    using that by (simp add: EntryMng_at_def)
  have "em_pinst ?m = em_pinst m" "LruMap_Capacity (em_entries ?m) = LruMap_Capacity (em_entries m)"
    by (simp_all add: lru.capacity_kept)
  with room em_inv_put(3) [OF assms, where k = k] show ?thesis
    unfolding em_keeps_def by blast
qed

lemma em_room_get:
  "em_inv m \<Longrightarrow> em_room k' (m\<lparr>em_entries := fst (LruMap_GetPtr k (em_entries m))\<rparr>) = em_room k' m"
  by (simp add: em_room_def em_inv_get(2) lru.capacity_kept lru.csize_kept em_inv_def)

lemma em_keeps_get:
  assumes "em_inv m" and "em_keeps k (m\<lparr>em_entries := fst (LruMap_GetPtr k (em_entries m))\<rparr>) m'"
  shows "em_keeps k m m'"
proof -
  let ?g = "m\<lparr>em_entries := fst (LruMap_GetPtr k (em_entries m))\<rparr>"
  have "em_pinst ?g = em_pinst m" "LruMap_Capacity (em_entries ?g) = LruMap_Capacity (em_entries m)"
    by (simp_all add: lru.capacity_kept)
  with assms show ?thesis
    unfolding em_keeps_def em_room_get [OF assms(1)] em_inv_get(2) [OF assms(1)] by metis
qed

text \<open>
  The entry that the handlers work on: the cached one, or a new one, which is loaded from the
  store only when its number lies above every number used so far.
\<close>

definition EntryMng_fresh :: "'db plog_env \<Rightarrow> u64 \<Rightarrow> 'db EntryMng \<Rightarrow> Entry" where
  "EntryMng_fresh S k m =
     (if em_max_in_used_entry m = npos \<or> k > em_max_in_used_entry m
      then fst (LoadEntry S (em_db m) (em_pinst m) k (Entry_new (em_pinst m) k))
      else Entry_new (em_pinst m) k)"

definition EntryMng_view :: "'db plog_env \<Rightarrow> u64 \<Rightarrow> 'db EntryMng \<Rightarrow> Entry" where
  "EntryMng_view S k m =
     (case EntryMng_at m k of Some e \<Rightarrow> e | None \<Rightarrow> EntryMng_fresh S k m)"

lemma wf_EntryMng_view: "env_ok S \<Longrightarrow> em_inv m \<Longrightarrow> wf_Entry (EntryMng_view S k m)"
  by (auto simp: EntryMng_view_def EntryMng_fresh_def env_ok_def em_inv_cached split: option.splits)

lemma EntryMng_CreateEntry_new:
  assumes "env_ok S" and "em_inv m" and "EntryMng_at m k = None"
  obtains m' where
    "EntryMng_CreateEntry S k m = Some m'" "em_inv m'" "EntryMng_at m' k = Some (EntryMng_fresh S k m)"
    "em_keeps k m m'" "em_db m' = em_db m" "em_pinst m' = em_pinst m"
    "em_last_chosen_entry m' = em_last_chosen_entry m"
    "em_global_max_chosen_entry m' = em_global_max_chosen_entry m"
proof -
  let ?e = "Entry_new (em_pinst m) k"
  let ?g = "m\<lparr>em_entries := fst (LruMap_GetPtr k (em_entries m))\<rparr>"
  let ?m1 = "?g\<lparr>em_entries := LruMap_Put k ?e (em_entries ?g)\<rparr>"
  let ?m2 = "?m1\<lparr>em_max_in_used_entry := k\<rparr>"
  let ?m3 = "EntryMng_write k (fst (LoadEntry S (em_db m) (em_pinst m) k ?e)) ?m2"
  note g = em_inv_get [OF assms(2), of k]
  note p = em_inv_put [OF g(1) wf_Entry_new [of "em_pinst m" k], where k = k]
  have i2: "em_inv ?m2" and a2: "EntryMng_at ?m2 k = Some ?e" using p(1,2) by simp_all
  have wf: "wf_Entry (fst (LoadEntry S (em_db m) (em_pinst m) k ?e))"
    using assms(1) by (simp add: env_ok_def)
  note w = em_inv_write [OF i2 a2 wf]
  have k1: "em_keeps k m ?m1"
    by (rule em_keeps_get [OF assms(2)]) (rule em_keeps_put [OF g(1) wf_Entry_new])
  have k2: "em_keeps k ?m1 ?m3"
    using w(2) by (intro em_keeps_upd) simp_all
  have k3: "em_keeps k m ?m3"
    using em_keeps_trans [OF k1 k2] p(2) by simp
  have none: "LruMap_GetPtr k (em_entries m) = (fst (LruMap_GetPtr k (em_entries m)), None)"
    using g(3) assms(3) by (metis prod.collapse)
  show thesis
  proof (cases "em_max_in_used_entry m = npos \<or> k > em_max_in_used_entry m")
    case True
    have "EntryMng_CreateEntry S k m = Some ?m3"
      using True a2 by (subst EntryMng_CreateEntry_def, subst none) (simp add: Let_def)
    then show thesis
      by (rule that) (use w k3 True in \<open>simp_all add: EntryMng_fresh_def\<close>)
  next
    case False
    have "EntryMng_CreateEntry S k m = Some ?m1"
      using False by (subst EntryMng_CreateEntry_def, subst none) (simp add: Let_def)
    then show thesis
      by (rule that) (use p(1,2) k1 False in \<open>simp_all add: EntryMng_fresh_def\<close>)
  qed
qed

lemma EntryMng_ensure:
  assumes "env_ok S" and "em_inv m"
  obtains m' where
    "EntryMng_GetEntryAndCreateIfNotExist S k m = Some m'" "em_inv m'"
    "EntryMng_at m' k = Some (EntryMng_view S k m)"
    "em_keeps k m m'" "em_db m' = em_db m" "em_pinst m' = em_pinst m"
    "em_last_chosen_entry m' = em_last_chosen_entry m"
    "em_global_max_chosen_entry m' = em_global_max_chosen_entry m"
proof -
  let ?g = "m\<lparr>em_entries := fst (LruMap_GetPtr k (em_entries m))\<rparr>"
  note g = em_inv_get [OF assms(2), of k]
  have eq: "LruMap_GetPtr k (em_entries m) = (fst (LruMap_GetPtr k (em_entries m)), EntryMng_at m k)"
    using g(3) by (metis prod.collapse)
  show thesis
  proof (cases "EntryMng_at m k")
    case None
    with g(2) have at: "EntryMng_at ?g k = None" by simp
    from EntryMng_CreateEntry_new [OF assms(1) g(1) at] obtain m' where
      m': "EntryMng_CreateEntry S k ?g = Some m'" "em_inv m'" "EntryMng_at m' k = Some (EntryMng_fresh S k ?g)"
        "em_keeps k ?g m'" "em_db m' = em_db ?g" "em_pinst m' = em_pinst ?g"
        "em_last_chosen_entry m' = em_last_chosen_entry ?g"
        "em_global_max_chosen_entry m' = em_global_max_chosen_entry ?g" by blast
    have "EntryMng_GetEntryAndCreateIfNotExist S k m = Some m'"
      by (subst EntryMng_GetEntryAndCreateIfNotExist_def, subst eq) (simp add: None m'(1))
    then show thesis
      by (rule that) (use m' em_keeps_get [OF assms(2) m'(4)] None in
          \<open>simp_all add: EntryMng_view_def EntryMng_fresh_def\<close>)
  next
    case (Some e)
    have "EntryMng_GetEntryAndCreateIfNotExist S k m = Some ?g"
      by (subst EntryMng_GetEntryAndCreateIfNotExist_def, subst eq) (simp add: Some)
    then show thesis
      by (rule that) (use g Some in
          \<open>auto simp: EntryMng_view_def lru.capacity_kept intro: em_keeps_same\<close>)
  qed
qed

section \<open>Recovery reads the whole log\<close>

text \<open>
  What a store with the stored log \<open>log\<close> promises for \<open>BatchLoadEntry\<close>: some non-empty
  part of what lies at or above the start, in ascending order, and nothing only if nothing is left.
\<close>

definition scans :: "'db plog_env \<Rightarrow> 'db \<Rightarrow> u64 \<Rightarrow> Entry list \<Rightarrow> bool" where
  "scans S db pinst log \<longleftrightarrow>
     sorted_wrt (<) (map en_entry log) \<and> npos \<notin> en_entry ` set log \<and>
     (\<forall>start. \<exists>n > 0. BatchLoadEntry S db pinst start npos =
        (take n (filter (\<lambda>e. start \<le> en_entry e) log), err kErrCode_OK))"

lemma EntryMng_recover_entry_env [simp]:
  "em_db (snd (EntryMng_recover_entry e s)) = em_db (snd s)"
  "em_pinst (snd (EntryMng_recover_entry e s)) = em_pinst (snd s)"
  by (simp_all add: EntryMng_recover_entry_def Let_def split: prod.splits)

lemma fold_recover_env [simp]:
  "em_db (snd (fold EntryMng_recover_entry xs s)) = em_db (snd s)"
  "em_pinst (snd (fold EntryMng_recover_entry xs s)) = em_pinst (snd s)"
  by (induction xs arbitrary: s) simp_all

lemma word_less_imp_Suc_le: "(a :: u64) < b \<Longrightarrow> a + 1 \<le> b"
proof -
  assume ab: "a < b"
  then have "a \<noteq> npos" by (metis word_order.extremum_strict)
  then have "unat (a + 1) = Suc (unat a)" by (rule unat_Suc_noover)
  with ab show ?thesis by (simp add: word_le_nat_alt word_less_nat_alt)
qed

lemma word_Suc_le_imp_less: "(a :: u64) \<noteq> npos \<Longrightarrow> a + 1 \<le> b \<Longrightarrow> a < b"
  using unat_Suc_noover [of a] by (simp add: word_le_nat_alt word_less_nat_alt)

lemma fold_recover_start:
  assumes "xs \<noteq> []" and "sorted_wrt (<) (map en_entry xs)" and "\<forall>e \<in> set xs. start \<le> en_entry e"
  shows "fst (fold EntryMng_recover_entry xs (start, m)) = en_entry (last xs) + 1"
  using assms
proof (induction xs arbitrary: start m)
  case (Cons x xs)
  have step: "fst (EntryMng_recover_entry x (start, m)) = en_entry x + 1"
    using Cons.prems(3) by (simp add: EntryMng_recover_entry_def Let_def)
  show ?case
  proof (cases "xs = []")
    case False
    have "\<forall>e \<in> set xs. en_entry x + 1 \<le> en_entry e"
      using Cons.prems(2) by (auto intro: word_less_imp_Suc_le)
    then show ?thesis
      using Cons.IH [of "en_entry x + 1" "snd (EntryMng_recover_entry x (start, m))"]
        Cons.prems(2) False step by (metis (no_types, lifting) fold_simps(2) last_ConsR list.simps(9)
          prod.collapse sorted_wrt.simps(2))
  qed (use step in simp)
qed simp

lemma filter_above_take:
  assumes "sorted_wrt (<) (map en_entry xs)" and "xs \<noteq> []" and "0 < n" and "npos \<notin> en_entry ` set xs"
  shows "filter (\<lambda>e. en_entry (last (take n xs)) + 1 \<le> en_entry e) xs = drop n xs"
proof -
  let ?l = "en_entry (last (take n xs))"
  have ne: "take n xs \<noteq> []" using assms(2,3) by simp
  have "?l \<noteq> npos" using assms(4) ne by (metis image_eqI in_set_takeD last_in_set)
  then have ge: "(?l + 1 \<le> a) = (?l < a)" for a
    using word_less_imp_Suc_le word_Suc_le_imp_less by blast
  have srt: "sorted_wrt (\<lambda>x y. en_entry x < en_entry y) (take n xs @ drop n xs)"
    using assms(1) by (simp add: sorted_wrt_map)
  then have hi: "\<forall>e \<in> set (drop n xs). ?l < en_entry e"
    using ne unfolding sorted_wrt_append by (meson last_in_set)
  have "\<not> ?l < en_entry e" if e: "e \<in> set (take n xs)" for e
  proof -
    obtain ys where ys: "take n xs = ys @ [last (take n xs)]" using ne by (metis append_butlast_last_id)
    have "sorted_wrt (\<lambda>x y. en_entry x < en_entry y) (take n xs)"
      using srt unfolding sorted_wrt_append by blast
    then have "\<forall>x \<in> set ys. en_entry x < ?l" by (subst (asm) ys) (simp add: sorted_wrt_append)
    moreover have "e \<in> set ys \<or> e = last (take n xs)" using e by (subst (asm) ys) auto
    ultimately show ?thesis by auto
  qed
  then have "filter (\<lambda>e. ?l + 1 \<le> en_entry e) (take n xs) = []"
    by (auto simp: ge filter_empty_conv)
  moreover have "filter (\<lambda>e. ?l + 1 \<le> en_entry e) (drop n xs) = drop n xs"
    using hi by (auto simp: ge filter_id_conv)
  ultimately show ?thesis
    by (metis append_self_conv2 append_take_drop_id filter_append)
qed

text \<open>The loop ends, and all batches together are one pass over the log from the start on.\<close>

lemma EntryMng_recover_loop_scans:
  assumes "scans S (em_db m) (em_pinst m) log"
  shows "EntryMng_recover_loop S npos (start, m) =
    Some (snd (fold EntryMng_recover_entry (filter (\<lambda>e. start \<le> en_entry e) log) (start, m)))"
  using assms
proof (induction "length (filter (\<lambda>e. start \<le> en_entry e) log)" arbitrary: start m rule: less_induct)
  case less
  let ?xs = "filter (\<lambda>e. start \<le> en_entry e) log"
  from less.prems obtain n where n: "0 < n" "BatchLoadEntry S (em_db m) (em_pinst m) start npos =
      (take n ?xs, err kErrCode_OK)" by (auto simp: scans_def)
  show ?case
  proof (cases "?xs = []")
    case True
    with n show ?thesis by (simp add: EntryMng_recover_loop.simps)
  next
    case False
    let ?s = "fold EntryMng_recover_entry (take n ?xs) (start, m)"
    have srt: "sorted_wrt (<) (map en_entry ?xs)" "npos \<notin> en_entry ` set ?xs"
      using less.prems by (auto simp: scans_def sorted_wrt_map sorted_wrt_filter)
    have start: "fst ?s = en_entry (last (take n ?xs)) + 1"
    proof (rule fold_recover_start)
      show "sorted_wrt (<) (map en_entry (take n ?xs))"
        using srt(1) by (simp add: sorted_wrt_map sorted_wrt_take)
    qed (use False n(1) in \<open>auto dest: in_set_takeD\<close>)
    have last_in: "last (take n ?xs) \<in> set ?xs"
      using False n(1) by (metis in_set_takeD last_in_set not_gr_zero take_eq_Nil2)
    have ge: "start \<le> en_entry (last (take n ?xs))"
      using last_in by simp
    have above: "start \<le> a" if "en_entry (last (take n ?xs)) + 1 \<le> a" for a
    proof -
      have "en_entry (last (take n ?xs)) \<noteq> npos"
        using srt(2) last_in by (metis image_eqI)
      from word_Suc_le_imp_less [OF this that] ge show ?thesis by order
    qed
    have rest: "filter (\<lambda>e. fst ?s \<le> en_entry e) log = drop n ?xs"
    proof -
      have "filter (\<lambda>e. fst ?s \<le> en_entry e) log = filter (\<lambda>e. fst ?s \<le> en_entry e) ?xs"
        unfolding start filter_filter by (rule filter_cong [OF refl]) (use above in blast)
      then show ?thesis using filter_above_take [OF srt(1) False n(1) srt(2)] start by simp
    qed
    have "EntryMng_recover_loop S npos (start, m) = EntryMng_recover_loop S npos (fst ?s, snd ?s)"
      by (subst EntryMng_recover_loop.simps) (use n False in \<open>simp\<close>)
    also have "\<dots> = Some (snd (fold EntryMng_recover_entry (drop n ?xs) (fst ?s, snd ?s)))"
      using less.hyps [of "fst ?s" "snd ?s"] less.prems rest n(1) False by simp
    also have "fold EntryMng_recover_entry (drop n ?xs) (fst ?s, snd ?s) =
               fold EntryMng_recover_entry ?xs (start, m)"
      by (metis append_take_drop_id comp_def fold_append prod.collapse)
    finally show ?thesis .
  qed
qed

section \<open>The state after recovery\<close>

definition entry_chosen :: "Entry \<Rightarrow> bool" where
  "entry_chosen e \<longleftrightarrow> Entry_Status e = ucast (st kPaxosState_CHOSEN)"

lemma recover_entry_fields:
  "em_last_chosen_entry (snd (EntryMng_recover_entry e (s, m))) =
     (if entry_chosen e then max (en_entry e) (em_last_chosen_entry m) else em_last_chosen_entry m)"
  "em_max_in_used_entry (snd (EntryMng_recover_entry e (s, m))) = max (en_entry e) (em_max_in_used_entry m)"
  "em_first_unchosen_entry (snd (EntryMng_recover_entry e (s, m))) =
     (if entry_chosen e then em_first_unchosen_entry m else min (en_entry e) (em_first_unchosen_entry m))"
  "em_first_valid_entry (snd (EntryMng_recover_entry e (s, m))) = min (en_entry e) (em_first_valid_entry m)"
  "em_entries (snd (EntryMng_recover_entry e (s, m))) = LruMap_Put (en_entry e) e (em_entries m)"
  "em_global_max_chosen_entry (snd (EntryMng_recover_entry e (s, m))) = em_global_max_chosen_entry m"
  "em_max_committed_entry (snd (EntryMng_recover_entry e (s, m))) = em_max_committed_entry m"
  by (auto simp: EntryMng_recover_entry_def entry_chosen_def Let_def max_def min_def)

lemma Max_insert_max: "finite A \<Longrightarrow> Max (insert (max a b) A) = Max (insert b (insert a A))"
  and Min_insert_min: "finite A \<Longrightarrow> Min (insert (min a b) A) = Min (insert b (insert a A))"
  for a b :: "'a::linorder"
  by (cases "A = {}"; simp add: ac_simps)+

lemma Collect_set_Cons:
  "{e \<in> set (x # xs). P e} = (if P x then insert x {e \<in> set xs. P e} else {e \<in> set xs. P e})"
  by auto

lemma fold_recover_fields:
  shows fold_recover_last: "em_last_chosen_entry (snd (fold EntryMng_recover_entry xs (s, m))) =
     Max (insert (em_last_chosen_entry m) (en_entry ` {e \<in> set xs. entry_chosen e}))"
  and fold_recover_used: "em_max_in_used_entry (snd (fold EntryMng_recover_entry xs (s, m))) =
     Max (insert (em_max_in_used_entry m) (en_entry ` set xs))"
  and fold_recover_unchosen: "em_first_unchosen_entry (snd (fold EntryMng_recover_entry xs (s, m))) =
     Min (insert (em_first_unchosen_entry m) (en_entry ` {e \<in> set xs. \<not> entry_chosen e}))"
  and fold_recover_global:
     "em_global_max_chosen_entry (snd (fold EntryMng_recover_entry xs (s, m))) = em_global_max_chosen_entry m"
proof -
  have "em_last_chosen_entry (snd (fold EntryMng_recover_entry xs p)) =
     Max (insert (em_last_chosen_entry (snd p)) (en_entry ` {e \<in> set xs. entry_chosen e}))" for p
    by (induction xs arbitrary: p)
      (auto simp: recover_entry_fields Collect_set_Cons Max_insert_max split: prod.splits simp del: set_simps(2))
  from this [of "(s, m)"] show "em_last_chosen_entry (snd (fold EntryMng_recover_entry xs (s, m))) =
     Max (insert (em_last_chosen_entry m) (en_entry ` {e \<in> set xs. entry_chosen e}))" by simp
  have "em_first_unchosen_entry (snd (fold EntryMng_recover_entry xs p)) =
     Min (insert (em_first_unchosen_entry (snd p)) (en_entry ` {e \<in> set xs. \<not> entry_chosen e}))" for p
    by (induction xs arbitrary: p)
      (auto simp: recover_entry_fields Collect_set_Cons Min_insert_min split: prod.splits simp del: set_simps(2))
  from this [of "(s, m)"] show "em_first_unchosen_entry (snd (fold EntryMng_recover_entry xs (s, m))) =
     Min (insert (em_first_unchosen_entry m) (en_entry ` {e \<in> set xs. \<not> entry_chosen e}))" by simp
  have "em_max_in_used_entry (snd (fold EntryMng_recover_entry xs p)) =
     Max (insert (em_max_in_used_entry (snd p)) (en_entry ` set xs))" for p
    by (induction xs arbitrary: p) (auto simp: recover_entry_fields Max_insert_max split: prod.splits)
  from this [of "(s, m)"] show "em_max_in_used_entry (snd (fold EntryMng_recover_entry xs (s, m))) =
     Max (insert (em_max_in_used_entry m) (en_entry ` set xs))" by simp
  have "em_global_max_chosen_entry (snd (fold EntryMng_recover_entry xs p)) =
     em_global_max_chosen_entry (snd p)" for p
    by (induction xs arbitrary: p) (auto simp: recover_entry_fields split: prod.splits)
  from this [of "(s, m)"] show
    "em_global_max_chosen_entry (snd (fold EntryMng_recover_entry xs (s, m))) = em_global_max_chosen_entry m"
    by simp
qed

lemma fold_recover_cache:
  assumes "lru_inv (em_entries m)" and "lru_list (em_entries m) = []" and "distinct (map en_entry xs)"
  shows "lru_list (em_entries (snd (fold EntryMng_recover_entry xs (s, m)))) =
    take (lm_max_size (em_entries m)) (rev (map (\<lambda>e. (en_entry e, e)) xs))"
    (is "lru_list (?es xs) = _") 
proof -
  have "lru_inv (?es xs) \<and> lm_max_size (?es xs) = lm_max_size (em_entries m) \<and>
    lru_list (?es xs) = take (lm_max_size (em_entries m)) (rev (map (\<lambda>e. (en_entry e, e)) xs))"
    using assms(3)
  proof (induction xs rule: rev_induct)
    case (snoc x xs)
    let ?c = "lm_max_size (em_entries m)" and ?r = "rev (map (\<lambda>e. (en_entry e, e)) xs)"
    have es: "?es (xs @ [x]) = LruMap_Put (en_entry x) x (?es xs)"
      by (simp, metis prod.collapse recover_entry_fields(5))
    have "filter (\<lambda>p. fst p \<noteq> en_entry x) (take ?c ?r) = take ?c ?r"
      using snoc.prems by (auto simp: filter_id_conv dest!: in_set_takeD)
    then show ?case
      unfolding es using snoc by (simp add: lru_inv_Put lru_list_Put take_Cons')
  qed (use assms in simp)
  then show ?thesis by simp
qed

lemma LoadAllFromDisk_scans:
  fixes log :: "Entry list"
  defines "log1 \<equiv> filter (\<lambda>e. 1 \<le> en_entry e) log"
  assumes "scans S db pinst log"
    and "LoadPlogMetaInfo S db pinst = (meta, err kErrCode_OK)"
  obtains m where "EntryMng_LoadAllFromDisk S (EntryMng_new db config pinst) = Some (m, True)"
    "em_last_chosen_entry m = Max (insert 0 (en_entry ` {e \<in> set log1. entry_chosen e}))"
    "em_max_in_used_entry m = Max (insert 0 (en_entry ` set log1))"
    "em_first_unchosen_entry m = Min (insert npos (en_entry ` {e \<in> set log1. \<not> entry_chosen e}))"
    "em_global_max_chosen_entry m = em_last_chosen_entry m"
    "lru_list (em_entries m) =
       take (unat (cf_entry_cache_num config)) (rev (map (\<lambda>e. (en_entry e, e)) log1))"
proof -
  let ?blank = "(EntryMng_new db config pinst)\<lparr>em_max_in_used_entry := 0, em_last_chosen_entry := 0,
     em_first_valid_entry := npos, em_first_unchosen_entry := npos,
     em_max_committed_entry := mi_last_committed meta,
     em_max_continue_chosen_entry := mi_last_committed meta, em_global_max_chosen_entry := 0\<rparr>"
  let ?folded = "snd (fold EntryMng_recover_entry log1 (1, ?blank))"
  let ?m = "if em_last_chosen_entry ?folded > em_global_max_chosen_entry ?folded
            then ?folded\<lparr>em_global_max_chosen_entry := em_last_chosen_entry ?folded\<rparr> else ?folded"
  have fields: "em_db ?blank = db" "em_pinst ?blank = pinst" "em_entries ?blank = LruMap_new (unat (cf_entry_cache_num config))"
    by simp_all
  have "EntryMng_recover_loop S npos (1, ?blank) = Some ?folded"
    using EntryMng_recover_loop_scans [of S ?blank log 1] assms(2) fields by (simp add: log1_def)
  then have "EntryMng_LoadAllFromDisk S (EntryMng_new db config pinst) = Some (?m, True)"
    by (simp add: EntryMng_LoadAllFromDisk_def EntryMng_RecoverRange_def assms(3))
  then show thesis
  proof (rule that)
    show "em_last_chosen_entry ?m = Max (insert 0 (en_entry ` {e \<in> set log1. entry_chosen e}))"
      using fold_recover_last [of log1 1 ?blank] by simp
    show "em_max_in_used_entry ?m = Max (insert 0 (en_entry ` set log1))"
      using fold_recover_used [of log1 1 ?blank] by simp
    show "em_first_unchosen_entry ?m = Min (insert npos (en_entry ` {e \<in> set log1. \<not> entry_chosen e}))"
      using fold_recover_unchosen [of log1 1 ?blank] by simp
    show "em_global_max_chosen_entry ?m = em_last_chosen_entry ?m"
      using fold_recover_global [of log1 1 ?blank] by (simp add: word_gt_0)
    have "distinct (map en_entry log)"
      using assms(2) strict_sorted_iff by (auto simp: scans_def)
    then have "distinct (map en_entry log1)"
      by (simp add: log1_def distinct_map_filter)
    then have "lru_list (em_entries ?folded) =
        take (lm_max_size (em_entries ?blank)) (rev (map (\<lambda>e. (en_entry e, e)) log1))"
      by (intro fold_recover_cache) (simp_all add: fields LruMap_new_def lru_list_def
          lru_inv_new [unfolded LruMap_new_def])
    then show "lru_list (em_entries ?m) =
        take (unat (cf_entry_cache_num config)) (rev (map (\<lambda>e. (en_entry e, e)) log1))"
      using fields(3) by (simp add: LruMap_new_def)
  qed
qed

section \<open>The vector of managers: views\<close>

definition pm_inv :: "'db PlogMng \<Rightarrow> bool" where
  "pm_inv pm \<longleftrightarrow> pm_mngs pm \<noteq> [] \<and> (\<forall>x \<in> set (pm_mngs pm). \<exists>m. x = Some m \<and> em_inv m)"

definition PlogMng_mng :: "'db PlogMng \<Rightarrow> u64 \<Rightarrow> 'db EntryMng" where
  "PlogMng_mng pm pinst = the (pm_mngs pm ! PlogMng_slot pm pinst)"

definition PlogMng_put :: "u64 \<Rightarrow> 'db EntryMng \<Rightarrow> 'db PlogMng \<Rightarrow> 'db PlogMng" where
  "PlogMng_put pinst m pm = pm\<lparr>pm_mngs := (pm_mngs pm)[PlogMng_slot pm pinst := Some m]\<rparr>"

lemma PlogMng_slot_less: "pm_inv pm \<Longrightarrow> PlogMng_slot pm pinst < length (pm_mngs pm)"
  by (simp add: pm_inv_def PlogMng_slot_def)

lemma pm_inv_mng:
  assumes "pm_inv pm"
  shows "pm_mngs pm ! PlogMng_slot pm pinst = Some (PlogMng_mng pm pinst)" and "em_inv (PlogMng_mng pm pinst)"
proof -
  have "pm_mngs pm ! PlogMng_slot pm pinst \<in> set (pm_mngs pm)"
    using PlogMng_slot_less [OF assms] by (rule nth_mem)
  with assms obtain m where "pm_mngs pm ! PlogMng_slot pm pinst = Some m" "em_inv m"
    by (auto simp: pm_inv_def)
  then show "pm_mngs pm ! PlogMng_slot pm pinst = Some (PlogMng_mng pm pinst)" "em_inv (PlogMng_mng pm pinst)"
    by (simp_all add: PlogMng_mng_def)
qed

lemma PlogMng_call_inv:
  assumes "pm_inv pm"
  shows "PlogMng_call S pinst f pm =
    map_option (\<lambda>(m', r). (PlogMng_put pinst m' pm, r)) (f (PlogMng_mng pm pinst))"
proof -
  have "PlogMng_GetEntryMngAndCreateIfNotExist S pinst pm = Some (pm, PlogMng_mng pm pinst)"
    using assms pm_inv_mng(1) [OF assms, of pinst]
    by (simp add: PlogMng_GetEntryMngAndCreateIfNotExist_def pm_inv_def)
  then show ?thesis
    by (simp add: PlogMng_call_def PlogMng_put_def map_option_case split: option.splits)
qed

lemma PlogMng_slot_put [simp]: "PlogMng_slot (PlogMng_put pinst m pm) = PlogMng_slot pm"
  by (simp add: PlogMng_slot_def PlogMng_put_def fun_eq_iff)

lemma pm_config_put [simp]: "pm_config (PlogMng_put pinst m pm) = pm_config pm"
  by (simp add: PlogMng_put_def)

lemma PlogMng_mng_put [simp]:
  "pm_inv pm \<Longrightarrow> PlogMng_mng (PlogMng_put pinst m pm) pinst' =
     (if PlogMng_slot pm pinst' = PlogMng_slot pm pinst then m else PlogMng_mng pm pinst')"
  using PlogMng_slot_less [of pm pinst]
  by (simp add: PlogMng_mng_def) (simp add: PlogMng_put_def nth_list_update)

lemma pm_inv_put [wf_intros]: "pm_inv pm \<Longrightarrow> em_inv m \<Longrightarrow> pm_inv (PlogMng_put pinst m pm)"
  using set_update_subset_insert [of "pm_mngs pm" "PlogMng_slot pm pinst" "Some m"]
  by (auto simp: pm_inv_def PlogMng_put_def)

text \<open>Overwriting twice, and writing back what is there.\<close>

lemma PlogMng_put_put [simp]: "PlogMng_put pinst m' (PlogMng_put pinst m pm) = PlogMng_put pinst m' pm"
  by (simp add: PlogMng_put_def PlogMng_slot_def)

lemma PlogMng_put_same [simp]:
  assumes "pm_inv pm"
  shows "PlogMng_put pinst (PlogMng_mng pm pinst) pm = pm"
proof -
  have "(pm_mngs pm)[PlogMng_slot pm pinst := Some (PlogMng_mng pm pinst)] = pm_mngs pm"
    by (simp flip: pm_inv_mng(1) [OF assms])
  then show ?thesis by (simp add: PlogMng_put_def)
qed

lemma PlogMng_GetMaxChosenEntry_inv [simp]:
  "pm_inv pm \<Longrightarrow> PlogMng_GetMaxChosenEntry S pinst pm =
     Some (pm, em_last_chosen_entry (PlogMng_mng pm pinst))"
  by (simp add: PlogMng_GetMaxChosenEntry_def PlogMng_call_inv)

lemma PlogMng_InitPlog_inv:
  assumes "0 < cf_plog_inst_num (pm_config pm)"
    and "\<And>i. \<exists>m. env_creator S (pm_config pm) i = Some m \<and> em_inv m"
  shows "pm_inv (fst (PlogMng_InitPlog S pm))"
    and "length (pm_mngs (fst (PlogMng_InitPlog S pm))) = unat (cf_plog_inst_num (pm_config pm))"
  using assms by (auto simp: PlogMng_InitPlog_def pm_inv_def word_gt_0 unat_gt_0)

end
