(* ===== verification/Lock_Free_Queue.thy ===== *)
theory Lock_Free_Queue
  imports Quarrel_Prelude
begin

text \<open>
  util/queue.h: the bounded ring buffer behind every worker. Head and tail are 64-bit counters
  that only grow; a slot is addressed by its counter modulo the size and carries a flag. The
  functions here are whole calls that no other thread interrupts, so every compare-and-swap
  succeeds at its first try. A call that would spin for ever (a blocking call with nothing to
  wait for, a slot whose flag nobody will change) or that divides by a zero size is \<open>None\<close>.

  \<open>lq_list\<close> is the queue's contents, oldest first. The lemmas show that the calls implement a
  bounded first-in first-out queue, the rebasing of the counters after a wrap of the head
  included, and state where they do not: with a wrapped head, \<open>Dequeue\<close> reports an empty queue.
\<close>

section \<open>The class\<close>

datatype queue_flag = FLAG_NULL | FLAG_SETTOOK | FLAG_SETED | FLAG_GETTOOK

datatype queue_rt = RT_OK | RT_FULL | RT_EMPTY | RT_ERR

record 'a qslot =
  qs_flag :: queue_flag
  qs_data :: "'a option"

record 'a LockFreeQueue =
  lq_init :: bool
  lq_head :: u64
  lq_tail :: u64
  lq_size :: u32
  lq_slots :: "'a qslot list"

definition LockFreeQueue_new :: "'a LockFreeQueue" where
  "LockFreeQueue_new = \<lparr>lq_init = False, lq_head = 0, lq_tail = 0, lq_size = 0, lq_slots = []\<rparr>"

text \<open>\<open>(size + 1)\<close> is computed in 32 bits before it scales the allocation.\<close>

definition LockFreeQueue_Init :: "u32 \<Rightarrow> 'a LockFreeQueue \<Rightarrow> 'a LockFreeQueue \<times> queue_rt" where
  "LockFreeQueue_Init sz q =
     (if lq_init q then (q, RT_OK)
      else (q\<lparr>lq_init := True, lq_head := 0, lq_tail := 0, lq_size := sz,
             lq_slots := replicate (unat (sz + 1)) \<lparr>qs_flag = FLAG_NULL, qs_data = None\<rparr>\<rparr>, RT_OK))"

text \<open>The second branch of the loop in \<open>Enqueue\<close>: the head has wrapped below the tail.\<close>

definition LockFreeQueue_rebase :: "'a LockFreeQueue \<Rightarrow> 'a LockFreeQueue option" where
  "LockFreeQueue_rebase q =
     (if lq_size q = 0 then None
      else let new_tail = lq_tail q mod ucast (lq_size q);
               new_head = 0xffffffffffffffff - lq_tail q + lq_head q + 1 + new_tail
           in Some (q\<lparr>lq_head := new_head, lq_tail := new_tail\<rparr>))"

text \<open>Taking a slot and filling it, after the head was advanced from \<open>old_head\<close>.\<close>

definition LockFreeQueue_fill :: "'a \<Rightarrow> u64 \<Rightarrow> 'a LockFreeQueue \<Rightarrow> 'a LockFreeQueue option" where
  "LockFreeQueue_fill val old_head q =
     (let pos = unat (old_head mod ucast (lq_size q))
      in if lq_size q = 0 \<or> length (lq_slots q) \<le> pos \<or> qs_flag (lq_slots q ! pos) \<noteq> FLAG_NULL
         then None
         else Some (q\<lparr>lq_slots := (lq_slots q)[pos := \<lparr>qs_flag = FLAG_SETED, qs_data = Some val\<rparr>]\<rparr>))"

definition LockFreeQueue_push :: "'a \<Rightarrow> bool \<Rightarrow> 'a LockFreeQueue \<Rightarrow> ('a LockFreeQueue \<times> queue_rt) option" where
  "LockFreeQueue_push val block q =
     (if ucast (lq_size q) > lq_head q - lq_tail q
      then map_option (\<lambda>q'. (q', RT_OK))
             (LockFreeQueue_fill val (lq_head q) (q\<lparr>lq_head := lq_head q + 1\<rparr>))
      else if block then None else Some (q, RT_FULL))"

definition LockFreeQueue_Enqueue :: "'a \<Rightarrow> bool \<Rightarrow> 'a LockFreeQueue \<Rightarrow> ('a LockFreeQueue \<times> queue_rt) option" where
  "LockFreeQueue_Enqueue val block q =
     (if \<not> lq_init q then Some (q, RT_ERR)
      else if lq_head q \<ge> lq_tail q then LockFreeQueue_push val block q
      else case LockFreeQueue_rebase q of
             None \<Rightarrow> None
           | Some q' \<Rightarrow> if lq_head q' \<ge> lq_tail q' then LockFreeQueue_push val block q' else None)"

definition LockFreeQueue_Dequeue ::
  "bool \<Rightarrow> 'a LockFreeQueue \<Rightarrow> ('a LockFreeQueue \<times> queue_rt \<times> 'a option) option" where
  "LockFreeQueue_Dequeue block q =
     (if \<not> lq_init q then Some (q, RT_ERR, None)
      else if lq_tail q < lq_head q then
        (let pos = unat (lq_tail q mod ucast (lq_size q))
         in if lq_size q = 0 \<or> length (lq_slots q) \<le> pos \<or> qs_flag (lq_slots q ! pos) \<noteq> FLAG_SETED
            then None
            else Some (q\<lparr>lq_tail := lq_tail q + 1,
                         lq_slots := (lq_slots q)[pos := \<lparr>qs_flag = FLAG_NULL, qs_data = None\<rparr>]\<rparr>,
                       RT_OK, qs_data (lq_slots q ! pos)))
      else if block then None else Some (q, RT_EMPTY, None))"

definition LockFreeQueue_Size :: "'a LockFreeQueue \<Rightarrow> u32" where
  "LockFreeQueue_Size q =
     (if lq_head q > lq_tail q then ucast (lq_head q - lq_tail q) else 0)"

section \<open>Abstraction and invariant\<close>

definition lq_count :: "'a LockFreeQueue \<Rightarrow> nat" where
  "lq_count q = unat (lq_head q - lq_tail q)"

definition lq_cap :: "'a LockFreeQueue \<Rightarrow> nat" where
  "lq_cap q = unat (lq_size q)"

text \<open>The slot of the \<open>i\<close>-th oldest element.\<close>

definition lq_pos :: "'a LockFreeQueue \<Rightarrow> nat \<Rightarrow> nat" where
  "lq_pos q i = (unat (lq_tail q) + i) mod lq_cap q"

definition lq_list :: "'a LockFreeQueue \<Rightarrow> 'a list" where
  "lq_list q = map (\<lambda>i. the (qs_data (lq_slots q ! lq_pos q i))) [0..<lq_count q]"

definition lq_inv :: "'a LockFreeQueue \<Rightarrow> bool" where
  "lq_inv q \<longleftrightarrow> lq_init q \<and> 0 < lq_cap q \<and> lq_cap q < 2 ^ 32 - 1 \<and>
     length (lq_slots q) = Suc (lq_cap q) \<and> lq_count q \<le> lq_cap q \<and>
     (\<forall>i < lq_count q. qs_flag (lq_slots q ! lq_pos q i) = FLAG_SETED \<and>
                       qs_data (lq_slots q ! lq_pos q i) \<noteq> None) \<and>
     (\<forall>j < lq_cap q. j \<notin> lq_pos q ` {0..<lq_count q} \<longrightarrow> qs_flag (lq_slots q ! j) = FLAG_NULL)"

text \<open>The head counter has not wrapped below the tail.\<close>

definition lq_ready :: "'a LockFreeQueue \<Rightarrow> bool" where
  "lq_ready q \<longleftrightarrow> lq_tail q \<le> lq_head q"

lemma length_lq_list [simp]: "length (lq_list q) = lq_count q"
  by (simp add: lq_list_def)

lemma unat_ucast_size [simp]: "unat (ucast (s :: u32) :: u64) = unat s"
proof -
  have "unat s < 2 ^ 64" by (rule less_trans [OF unat_u32_less]) simp
  then show ?thesis by (simp add: unsigned_ucast_eq take_bit_nat_eq_self)
qed

lemma lq_pos_less: "0 < lq_cap q \<Longrightarrow> lq_pos q i < lq_cap q"
  by (simp add: lq_pos_def)

lemma mod_add_inj:
  fixes n :: nat
  assumes "(t + i) mod n = (t + j) mod n" and "i < n" and "j < n"
  shows "i = j"
proof -
  have "i = j" if "i \<le> j" "(t + j) mod n = (t + i) mod n" "j < n" for i j
  proof -
    have "n dvd j - i" using that by (simp add: mod_eq_dvd_iff_nat)
    show ?thesis
    proof (rule ccontr)
      assume "i \<noteq> j"
      with that have "0 < j - i" "j - i < n" by auto
      then have "\<not> n dvd j - i" by (rule nat_dvd_not_less)
      with \<open>n dvd j - i\<close> show False by simp
    qed
  qed
  with assms show ?thesis by (metis nat_le_linear)
qed

lemma lq_pos_inj:
  "lq_pos q i = lq_pos q j \<Longrightarrow> i < lq_cap q \<Longrightarrow> j < lq_cap q \<Longrightarrow> i = j"
  unfolding lq_pos_def by (rule mod_add_inj)

lemma lq_inv_bounds:
  assumes "lq_inv q"
  shows "lq_count q < 2 ^ 32" and "lq_cap q < 2 ^ 32"
  using assms by (auto simp: lq_inv_def)

lemma ready_head:
  "lq_ready q \<Longrightarrow> unat (lq_head q) = unat (lq_tail q) + lq_count q"
  by (simp add: lq_ready_def lq_count_def unat_sub word_le_nat_alt)

lemma lq_full_iff:
  "lq_inv q \<Longrightarrow> ucast (lq_size q) > lq_head q - lq_tail q \<longleftrightarrow> lq_count q < lq_cap q"
  by (simp add: lq_count_def lq_cap_def word_less_nat_alt)

text \<open>Two queues with the same counter distance, size, slots and tail slot hold the same.\<close>

lemma lq_same_view:
  assumes "lq_count q' = lq_count q" "lq_size q' = lq_size q" "lq_slots q' = lq_slots q"
    "lq_init q' = lq_init q" "unat (lq_tail q') mod lq_cap q = unat (lq_tail q) mod lq_cap q"
  shows "lq_list q' = lq_list q" and "lq_inv q' = lq_inv q"
proof -
  have c: "lq_cap q' = lq_cap q" using assms(2) by (simp add: lq_cap_def)
  have "lq_pos q' = lq_pos q"
    unfolding lq_pos_def c using assms(5) by (metis mod_add_left_eq)
  with assms c show "lq_list q' = lq_list q" and "lq_inv q' = lq_inv q"
    by (simp_all add: lq_list_def lq_inv_def)
qed

lemma LockFreeQueue_rebase_view:
  assumes "lq_inv q"
  obtains q' where "LockFreeQueue_rebase q = Some q'" "lq_list q' = lq_list q" "lq_inv q'"
    "lq_ready q'" "lq_cap q' = lq_cap q"
proof -
  let ?t = "lq_tail q mod ucast (lq_size q)"
  define q' where "q' = q\<lparr>lq_head := 0xffffffffffffffff - lq_tail q + lq_head q + 1 + ?t, lq_tail := ?t\<rparr>"
  have nz: "lq_size q \<noteq> 0" using assms by (auto simp: lq_inv_def lq_cap_def)
  then have r: "LockFreeQueue_rebase q = Some q'"
    by (simp add: LockFreeQueue_rebase_def q'_def Let_def)
  have h: "lq_head q' = (lq_head q - lq_tail q) + ?t"
  proof -
    have m: "(0xffffffffffffffff :: u64) = - 1" by simp
    show ?thesis unfolding q'_def m by simp
  qed
  have t: "unat ?t = unat (lq_tail q) mod lq_cap q"
    by (simp add: unat_mod lq_cap_def)
  have tl: "unat ?t < 2 ^ 32"
    using lq_inv_bounds(2) [OF assms] assms t
    by (metis (no_types, lifting) less_trans lq_inv_def mod_less_divisor)
  have tq: "lq_tail q' = ?t" by (simp add: q'_def)
  have cnt: "lq_count q' = lq_count q" by (simp add: lq_count_def h tq)
  have "unat (lq_head q') = lq_count q + unat ?t"
    unfolding h lq_count_def
    by (rule unat_add_noover) (use tl lq_inv_bounds(1) [OF assms] in \<open>simp add: lq_count_def\<close>)
  then have "lq_ready q'" by (simp add: lq_ready_def q'_def word_le_nat_alt)
  moreover have "lq_list q' = lq_list q" "lq_inv q' = lq_inv q"
    by (rule lq_same_view; use cnt t in \<open>simp add: q'_def\<close>)+
  ultimately show thesis using that r assms by (simp add: q'_def lq_cap_def)
qed

lemma LockFreeQueue_push_room:
  assumes "lq_inv q" and "lq_ready q" and "lq_count q < lq_cap q"
  obtains q' where "LockFreeQueue_push v b q = Some (q', RT_OK)" "lq_list q' = lq_list q @ [v]"
    "lq_inv q'" "lq_cap q' = lq_cap q" "lq_head q' = lq_head q + 1" "lq_tail q' = lq_tail q"
proof -
  let ?p = "lq_pos q (lq_count q)"
  let ?s = "\<lparr>qs_flag = FLAG_SETED, qs_data = Some v\<rparr>"
  define q' where "q' = q\<lparr>lq_head := lq_head q + 1, lq_slots := (lq_slots q)[?p := ?s]\<rparr>"
  have cap: "0 < lq_cap q" using assms(1) by (simp add: lq_inv_def)
  then have nz: "lq_size q \<noteq> 0" by (auto simp: lq_cap_def)
  have pos: "unat (lq_head q mod ucast (lq_size q)) = ?p"
    using ready_head [OF assms(2)] by (simp add: unat_mod lq_pos_def lq_cap_def)
  have pl: "?p < lq_cap q" using cap by (rule lq_pos_less)
  have fresh: "?p \<notin> lq_pos q ` {0..<lq_count q}"
    using lq_pos_inj [of q] assms(3) by fastforce
  then have "qs_flag (lq_slots q ! ?p) = FLAG_NULL"
    using assms(1) pl by (simp add: lq_inv_def)
  moreover have "?p < length (lq_slots q)" using pl assms(1) by (simp add: lq_inv_def)
  ultimately have push: "LockFreeQueue_push v b q = Some (q', RT_OK)"
    using assms nz pos
    by (simp add: LockFreeQueue_push_def lq_full_iff LockFreeQueue_fill_def q'_def Let_def)
  have cnt: "lq_count q' = Suc (lq_count q)"
  proof -
    have "lq_head q' - lq_tail q' = (lq_head q - lq_tail q) + 1" by (simp add: q'_def)
    moreover have "lq_head q - lq_tail q \<noteq> - 1"
      using lq_inv_bounds(1) [OF assms(1)] by (auto simp: lq_count_def)
    ultimately show ?thesis by (simp add: lq_count_def unat_Suc_noover)
  qed
  have cp: "lq_cap q' = lq_cap q" and pp: "lq_pos q' = lq_pos q"
    by (simp_all add: q'_def lq_cap_def lq_pos_def fun_eq_iff)
  have same: "lq_slots q' ! lq_pos q i = lq_slots q ! lq_pos q i" if "i < lq_count q" for i
  proof -
    have "lq_pos q i \<noteq> ?p" using that lq_pos_inj [of q i "lq_count q"] assms(3) by force
    then show ?thesis by (simp add: q'_def)
  qed
  have new: "lq_slots q' ! ?p = ?s" using \<open>?p < length (lq_slots q)\<close> by (simp add: q'_def)
  have "lq_list q' = lq_list q @ [v]"
    using same new by (simp add: lq_list_def cnt pp)
  moreover have "lq_inv q'"
    unfolding lq_inv_def cp cnt pp
  proof (intro conjI allI impI)
    show "lq_init q'" "0 < lq_cap q" "lq_cap q < 2 ^ 32 - 1" "length (lq_slots q') = Suc (lq_cap q)"
      "Suc (lq_count q) \<le> lq_cap q"
      using assms by (simp_all add: lq_inv_def q'_def)
    fix i assume "i < Suc (lq_count q)"
    then show "qs_flag (lq_slots q' ! lq_pos q i) = FLAG_SETED" "qs_data (lq_slots q' ! lq_pos q i) \<noteq> None"
      using same new assms(1) by (auto simp: less_Suc_eq lq_inv_def)
  next
    fix j assume "j < lq_cap q" "j \<notin> lq_pos q ` {0..<Suc (lq_count q)}"
    then have "j \<noteq> ?p" "j \<notin> lq_pos q ` {0..<lq_count q}" by auto
    with \<open>j < lq_cap q\<close> show "qs_flag (lq_slots q' ! j) = FLAG_NULL"
      using assms(1) by (simp add: q'_def lq_inv_def)
  qed
  ultimately show thesis using that [OF push] cp by (simp add: q'_def)
qed

section \<open>The calls on the abstract queue\<close>

lemma LockFreeQueue_Enqueue_room:
  assumes "lq_inv q" and "lq_count q < lq_cap q"
  obtains q' where "LockFreeQueue_Enqueue v b q = Some (q', RT_OK)" "lq_list q' = lq_list q @ [v]"
    "lq_inv q'" "lq_cap q' = lq_cap q"
proof (cases "lq_ready q")
  case True
  from LockFreeQueue_push_room [OF assms(1) True assms(2), of v b] assms(1) True that show thesis
    by (auto simp: LockFreeQueue_Enqueue_def lq_ready_def lq_inv_def [of q])
next
  case False
  obtain r where r: "LockFreeQueue_rebase q = Some r" "lq_list r = lq_list q" "lq_inv r"
    "lq_ready r" "lq_cap r = lq_cap q"
    using LockFreeQueue_rebase_view [OF assms(1)] .
  from r(2) have "lq_count r = lq_count q" by (metis length_lq_list)
  with assms(2) r(5) have "lq_count r < lq_cap r" by simp
  from LockFreeQueue_push_room [OF r(3,4) this, of v b] r that False assms(1) show thesis
    by (auto simp: LockFreeQueue_Enqueue_def lq_ready_def lq_inv_def [of q])
qed

lemma LockFreeQueue_Enqueue_full:
  assumes "lq_inv q" and "lq_count q = lq_cap q"
  obtains q' where "LockFreeQueue_Enqueue v False q = Some (q', RT_FULL)" "lq_list q' = lq_list q"
    "lq_inv q'" "lq_cap q' = lq_cap q"
proof (cases "lq_ready q")
  case True
  with assms that [of q] show thesis
    by (auto simp: LockFreeQueue_Enqueue_def LockFreeQueue_push_def lq_full_iff lq_ready_def lq_inv_def [of q])
next
  case False
  obtain r where r: "LockFreeQueue_rebase q = Some r" "lq_list r = lq_list q" "lq_inv r"
    "lq_ready r" "lq_cap r = lq_cap q"
    using LockFreeQueue_rebase_view [OF assms(1)] .
  from r(2) have "lq_count r = lq_count q" by (metis length_lq_list)
  with assms(2) r(5) have "\<not> lq_count r < lq_cap r" by simp
  with r that [of r] False assms(1) show thesis
    by (auto simp: LockFreeQueue_Enqueue_def LockFreeQueue_push_def lq_full_iff lq_ready_def lq_inv_def [of q])
qed

lemma LockFreeQueue_Dequeue_some:
  assumes "lq_inv q" and "lq_tail q < lq_head q"
  obtains q' x where "LockFreeQueue_Dequeue b q = Some (q', RT_OK, Some x)"
    "lq_list q = x # lq_list q'" "lq_inv q'" "lq_cap q' = lq_cap q" "lq_ready q'"
proof -
  let ?p = "lq_pos q 0"
  define q' where "q' = q\<lparr>lq_tail := lq_tail q + 1,
    lq_slots := (lq_slots q)[?p := \<lparr>qs_flag = FLAG_NULL, qs_data = None\<rparr>]\<rparr>"
  have rdy: "lq_ready q" using assms(2) by (simp add: lq_ready_def)
  have hd: "unat (lq_head q) = unat (lq_tail q) + lq_count q" using rdy by (rule ready_head)
  with assms(2) have pos: "0 < lq_count q" by (simp add: word_less_nat_alt)
  have cap: "0 < lq_cap q" and le: "lq_count q \<le> lq_cap q" using assms(1) by (simp_all add: lq_inv_def)
  have "lq_tail q \<noteq> - 1"
    using assms(2) by (metis word_order.extremum_strict)
  then have tl: "unat (lq_tail q + 1) = Suc (unat (lq_tail q))" by (rule unat_Suc_noover)
  have cp: "lq_cap q' = lq_cap q" by (simp add: q'_def lq_cap_def)
  have pp: "lq_pos q' i = lq_pos q (Suc i)" for i
    by (simp add: q'_def lq_pos_def lq_cap_def tl)
  have cnt: "lq_count q = Suc (lq_count q')"
  proof -
    have "lq_tail q + 1 \<le> lq_head q" using tl hd pos by (simp add: word_le_nat_alt)
    then have "lq_count q' = unat (lq_head q) - unat (lq_tail q + 1)"
      by (simp add: lq_count_def q'_def unat_sub)
    then show ?thesis using hd tl pos by simp
  qed
  obtain x where x: "qs_flag (lq_slots q ! ?p) = FLAG_SETED" "qs_data (lq_slots q ! ?p) = Some x"
    using assms(1) pos by (auto simp: lq_inv_def)
  have pl: "?p < length (lq_slots q)" using lq_pos_less [OF cap, of 0] assms(1) by (simp add: lq_inv_def)
  have "unat (lq_tail q mod ucast (lq_size q)) = ?p" by (simp add: unat_mod lq_pos_def lq_cap_def)
  then have deq: "LockFreeQueue_Dequeue b q = Some (q', RT_OK, Some x)"
    using assms x pl cap
    by (auto simp: LockFreeQueue_Dequeue_def lq_inv_def [of q] Let_def q'_def lq_cap_def)
  have same: "lq_slots q' ! lq_pos q (Suc i) = lq_slots q ! lq_pos q (Suc i)" if "i < lq_count q'" for i
  proof -
    have "lq_pos q (Suc i) \<noteq> ?p" using that cnt le cap lq_pos_inj [of q "Suc i" 0] by force
    then show ?thesis by (simp add: q'_def)
  qed
  have "lq_list q = x # lq_list q'"
    unfolding lq_list_def cnt pp upt_conv_Cons [OF zero_less_Suc]
    using x(2) same by (simp add: map_Suc_upt [symmetric] del: upt_Suc map_Suc_upt)
  moreover have "lq_inv q'"
    unfolding lq_inv_def cp
  proof (intro conjI allI impI)
    show "lq_init q'" "0 < lq_cap q" "lq_cap q < 2 ^ 32 - 1" "length (lq_slots q') = Suc (lq_cap q)"
      "lq_count q' \<le> lq_cap q"
      using assms(1) cnt by (simp_all add: lq_inv_def q'_def)
    fix i assume i: "i < lq_count q'"
    with cnt have "Suc i < lq_count q" by simp
    with same [OF i] assms(1)
    show "qs_flag (lq_slots q' ! lq_pos q' i) = FLAG_SETED" "qs_data (lq_slots q' ! lq_pos q' i) \<noteq> None"
      by (simp_all add: lq_inv_def pp)
  next
    fix j assume j: "j < lq_cap q" "j \<notin> lq_pos q' ` {0..<lq_count q'}"
    show "qs_flag (lq_slots q' ! j) = FLAG_NULL"
    proof (cases "j = ?p")
      case True
      with pl show ?thesis by (simp add: q'_def)
    next
      case False
      have "j \<notin> lq_pos q ` {0..<lq_count q}"
      proof
        assume "j \<in> lq_pos q ` {0..<lq_count q}"
        then obtain i where i: "i < Suc (lq_count q')" "j = lq_pos q i" using cnt by auto
        with False obtain k where "i = Suc k" by (cases i) auto
        with i j(2) pp show False by auto
      qed
      with False j(1) assms(1) show ?thesis by (simp add: q'_def lq_inv_def)
    qed
  qed
  moreover have "lq_ready q'"
    using tl hd pos by (simp add: lq_ready_def q'_def word_le_nat_alt)
  ultimately show thesis using that deq cp by blast
qed

lemma LockFreeQueue_Dequeue_none:
  "lq_inv q \<Longrightarrow> \<not> lq_tail q < lq_head q \<Longrightarrow> LockFreeQueue_Dequeue False q = Some (q, RT_EMPTY, None)"
  by (simp add: LockFreeQueue_Dequeue_def lq_inv_def)

lemma lq_ready_empty: "lq_ready q \<Longrightarrow> \<not> lq_tail q < lq_head q \<Longrightarrow> lq_list q = []"
  by (auto simp: lq_ready_def lq_list_def lq_count_def)

lemma lq_inv_Init:
  assumes "0 < unat sz" and "unat sz < 2 ^ 32 - 1"
  shows "lq_inv (fst (LockFreeQueue_Init sz LockFreeQueue_new))"
    and "lq_list (fst (LockFreeQueue_Init sz LockFreeQueue_new)) = []"
    and "lq_cap (fst (LockFreeQueue_Init sz LockFreeQueue_new)) = unat sz"
proof -
  have "sz \<noteq> - 1" using assms(2) by (auto simp: unsigned_minus_1_eq_mask mask_eq_exp_minus_1)
  then have "unat (sz + 1) = Suc (unat sz)" by (rule unat_Suc_noover)
  with assms show "lq_inv (fst (LockFreeQueue_Init sz LockFreeQueue_new))"
    by (auto simp: LockFreeQueue_Init_def LockFreeQueue_new_def lq_inv_def lq_cap_def lq_count_def
        nth_replicate simp del: replicate_Suc)
  show "lq_list (fst (LockFreeQueue_Init sz LockFreeQueue_new)) = []"
    and "lq_cap (fst (LockFreeQueue_Init sz LockFreeQueue_new)) = unat sz"
    by (simp_all add: LockFreeQueue_Init_def LockFreeQueue_new_def lq_list_def lq_count_def lq_cap_def)
qed

section \<open>The interface of a bounded first-in first-out queue\<close>

locale bounded_fifo =
  fixes contents :: "'q \<Rightarrow> 'a list"
    and enq :: "'a \<Rightarrow> 'q \<Rightarrow> ('q \<times> bool) option"
    and deq :: "'q \<Rightarrow> ('q \<times> 'a option) option"
    and bound :: "'q \<Rightarrow> nat"
    and inv :: "'q \<Rightarrow> bool"
    and ready :: "'q \<Rightarrow> bool"
  assumes enq_room: "inv q \<Longrightarrow> length (contents q) < bound q \<Longrightarrow>
            \<exists>q'. enq x q = Some (q', True) \<and> contents q' = contents q @ [x] \<and> inv q' \<and> bound q' = bound q"
    and enq_full: "inv q \<Longrightarrow> length (contents q) = bound q \<Longrightarrow>
            \<exists>q'. enq x q = Some (q', False) \<and> contents q' = contents q \<and> inv q' \<and> bound q' = bound q"
    and deq_result: "inv q \<Longrightarrow> \<exists>q' r. deq q = Some (q', r) \<and> inv q' \<and> bound q' = bound q \<and>
            (case r of None \<Rightarrow> contents q' = contents q | Some x \<Rightarrow> contents q = x # contents q')"
    and deq_ready: "inv q \<Longrightarrow> ready q \<Longrightarrow> contents q \<noteq> [] \<Longrightarrow> \<exists>q' x. deq q = Some (q', Some x)"
    and within_bound: "inv q \<Longrightarrow> length (contents q) \<le> bound q"
begin

text \<open>An insertion appends or is refused; in both cases nothing already queued changes.\<close>

lemma enq_cases:
  assumes "inv q"
  obtains q' where "enq x q = Some (q', True)" "contents q' = contents q @ [x]" "inv q'" "bound q' = bound q"
  | q' where "enq x q = Some (q', False)" "contents q' = contents q" "inv q'" "bound q' = bound q"
    "length (contents q) = bound q"
  using enq_room [OF assms] enq_full [OF assms] within_bound [OF assms] that
  by (metis le_neq_implies_less)

lemma deq_cases:
  assumes "inv q"
  obtains q' where "deq q = Some (q', None)" "contents q' = contents q" "inv q'" "bound q' = bound q"
  | q' x where "deq q = Some (q', Some x)" "contents q = x # contents q'" "inv q'" "bound q' = bound q"
proof -
  obtain q' r where r: "deq q = Some (q', r)" "inv q'" "bound q' = bound q"
    "case r of None \<Rightarrow> contents q' = contents q | Some x \<Rightarrow> contents q = x # contents q'"
    using deq_result [OF assms] by blast
  then show thesis using that by (cases r) auto
qed

end

text \<open>The calls as the worker pool makes them: without blocking, the return code compared with OK.\<close>

definition lq_enq :: "'a \<Rightarrow> 'a LockFreeQueue \<Rightarrow> ('a LockFreeQueue \<times> bool) option" where
  "lq_enq x q = map_option (\<lambda>(q', rt). (q', rt = RT_OK)) (LockFreeQueue_Enqueue x False q)"

definition lq_deq :: "'a LockFreeQueue \<Rightarrow> ('a LockFreeQueue \<times> 'a option) option" where
  "lq_deq q = map_option (\<lambda>(q', rt, x). (q', x)) (LockFreeQueue_Dequeue False q)"

interpretation lfq: bounded_fifo lq_list lq_enq lq_deq lq_cap lq_inv lq_ready
proof (unfold_locales, goal_cases)
  case (1 q x)
  then have "lq_count q < lq_cap q" by simp
  from LockFreeQueue_Enqueue_room [OF 1(1) this, of x False] show ?case
    by (auto simp: lq_enq_def)
next
  case (2 q x)
  then have "lq_count q = lq_cap q" by simp
  from LockFreeQueue_Enqueue_full [OF 2(1) this, of x] obtain q' where
    "LockFreeQueue_Enqueue x False q = Some (q', RT_FULL)" "lq_list q' = lq_list q" "lq_inv q'"
    "lq_cap q' = lq_cap q" .
  then show ?case by (simp add: lq_enq_def)
next
  case (3 q)
  show ?case
  proof (cases "lq_tail q < lq_head q")
    case True
    from LockFreeQueue_Dequeue_some [OF 3 True, of False] obtain q' x where
      "LockFreeQueue_Dequeue False q = Some (q', RT_OK, Some x)" "lq_list q = x # lq_list q'"
      "lq_inv q'" "lq_cap q' = lq_cap q" .
    then show ?thesis by (simp add: lq_deq_def)
  next
    case False
    from LockFreeQueue_Dequeue_none [OF 3 False] 3 show ?thesis by (simp add: lq_deq_def)
  qed
next
  case (4 q)
  then have "lq_tail q < lq_head q" using lq_ready_empty by blast
  from LockFreeQueue_Dequeue_some [OF 4(1) this, of False] obtain q' x where
    "LockFreeQueue_Dequeue False q = Some (q', RT_OK, Some x)" .
  then show ?case by (simp add: lq_deq_def)
next
  case (5 q)
  then show ?case by (simp add: lq_inv_def)
qed

end
