(* ===== verification/Wait_Group.thy ===== *)
theory Wait_Group
  imports Quarrel_Prelude
begin

text \<open>
  util/waitgroup.hpp: a counter that a waiter blocks on. The condition variable is a list of
  wake-ups: how many calls of \<open>Notify\<close> happened while the waiter slept, and whether
  \<open>wait_for\<close> reported a timeout. A waiter that has used up the list is still asleep (\<open>None\<close>).
\<close>

record WaitGroup =
  wg_curr :: u32
  wg_count :: u32

definition WaitGroup_new :: "u32 \<Rightarrow> WaitGroup" where
  "WaitGroup_new cnt = \<lparr>wg_curr = 0, wg_count = cnt\<rparr>"

text \<open>The second component: whether \<open>notify_one\<close> is called.\<close>

definition WaitGroup_Notify :: "WaitGroup \<Rightarrow> WaitGroup \<times> bool" where
  "WaitGroup_Notify w = (w\<lparr>wg_curr := wg_curr w + 1\<rparr>, wg_curr w + 1 \<ge> wg_count w)"

fun WaitGroup_Notifies :: "nat \<Rightarrow> WaitGroup \<Rightarrow> WaitGroup" where
  "WaitGroup_Notifies 0 w = w"
| "WaitGroup_Notifies (Suc n) w = WaitGroup_Notifies n (fst (WaitGroup_Notify w))"

fun WaitGroup_WaitExt :: "(nat \<times> bool) list \<Rightarrow> WaitGroup \<Rightarrow> (WaitGroup \<times> bool) option" where
  "WaitGroup_WaitExt [] w =
     (if wg_count w > wg_curr w then None else Some (w\<lparr>wg_curr := 0\<rparr>, True))"
| "WaitGroup_WaitExt ((n, timeout) # ws) w =
     (if wg_count w > wg_curr w then
        (let w' = WaitGroup_Notifies n w
         in if wg_curr w' \<ge> wg_count w' then Some (w'\<lparr>wg_curr := 0\<rparr>, True)
            else if timeout then Some (w', False)
            else WaitGroup_WaitExt ws w')
      else Some (w\<lparr>wg_curr := 0\<rparr>, True))"

definition WaitGroup_TryWait :: "WaitGroup \<Rightarrow> WaitGroup \<times> bool" where
  "WaitGroup_TryWait w =
     (if wg_curr w \<ge> wg_count w then (w\<lparr>wg_curr := 0\<rparr>, True) else (w, False))"

definition WaitGroup_Reset :: "u32 \<Rightarrow> WaitGroup \<Rightarrow> WaitGroup" where
  "WaitGroup_Reset cnt w = w\<lparr>wg_curr := 0, wg_count := cnt\<rparr>"

lemma count_Notifies [simp]: "wg_count (WaitGroup_Notifies n w) = wg_count w"
  by (induction n w rule: WaitGroup_Notifies.induct) (simp_all add: WaitGroup_Notify_def)

lemma curr_Notifies: "wg_curr (WaitGroup_Notifies n w) = wg_curr w + of_nat n"
  by (induction n w rule: WaitGroup_Notifies.induct) (simp_all add: WaitGroup_Notify_def)

lemma unat_curr_Notifies:
  "unat (wg_curr w) + n < 2 ^ 32 \<Longrightarrow> unat (wg_curr (WaitGroup_Notifies n w)) = unat (wg_curr w) + n"
  by (simp add: curr_Notifies unat_word_ariths unat_of_nat)

end
