(* ===== verification/Worker_Pool.thy ===== *)
theory Worker_Pool
  imports Lock_Free_Queue Wait_Group
begin

text \<open>
  util/worker_pool.hpp: a vector of workers, each with its queue, a counter of pending items
  and a wait group. Work is routed by its id modulo the number of workers. The worker thread is
  the step \<open>WorkerPool_iter\<close>, one pass through the loop of \<open>workerProc\<close> up to the call of
  the handler (whose return value the loop ignores); \<open>WorkerPool_done\<close> is what follows it.
  Threads interleave at these steps.
\<close>

section \<open>The class\<close>

record 'd WorkerData =
  wd_wg :: WaitGroup
  wd_mq :: "'d LockFreeQueue"
  wd_pending :: u64

record 'd WorkerPool =
  wp_status :: int
  wp_workers :: "'d WorkerData list"

definition WorkerPool_new :: "'d WorkerPool" where
  "WorkerPool_new = \<lparr>wp_status = 0, wp_workers = []\<rparr>"

definition WorkerPool_StartWorker :: "nat \<Rightarrow> u32 \<Rightarrow> 'd WorkerPool \<Rightarrow> 'd WorkerPool" where
  "WorkerPool_StartWorker worker_count queue_sz p =
     (if wp_status p = 1 then p
      else p\<lparr>wp_status := 1,
             wp_workers := replicate worker_count
               \<lparr>wd_wg = WaitGroup_Reset 1 (WaitGroup_new 0),
                wd_mq = fst (LockFreeQueue_Init queue_sz LockFreeQueue_new),
                wd_pending = 0\<rparr>\<rparr>)"

definition WorkerPool_StopWorker :: "'d WorkerPool \<Rightarrow> 'd WorkerPool" where
  "WorkerPool_StopWorker p =
     (if wp_status p \<noteq> 1 then p
      else p\<lparr>wp_status := 2,
             wp_workers := map (\<lambda>w. w\<lparr>wd_wg := fst (WaitGroup_Notify (wd_wg w))\<rparr>) (wp_workers p)\<rparr>)"

text \<open>\<open>None\<close>: no worker at all (a remainder by zero), or a queue call that does not return.\<close>

definition WorkerPool_AddWork :: "u64 \<Rightarrow> 'd \<Rightarrow> 'd WorkerPool \<Rightarrow> ('d WorkerPool \<times> int) option" where
  "WorkerPool_AddWork wid data p =
     (if wp_status p \<noteq> 1 then Some (p, -1)
      else if wp_workers p = [] then None
      else let i = unat wid mod length (wp_workers p); w = wp_workers p ! i
           in case LockFreeQueue_Enqueue data False (wd_mq w) of
                None \<Rightarrow> None
              | Some (q', rt) \<Rightarrow>
                  if rt \<noteq> RT_OK
                  then Some (p\<lparr>wp_workers := (wp_workers p)[i := w\<lparr>wd_mq := q'\<rparr>]\<rparr>, -2)
                  else let w' = w\<lparr>wd_mq := q', wd_pending := wd_pending w + 1,
                                  wd_wg := (if wd_pending w = 0 then fst (WaitGroup_Notify (wd_wg w))
                                            else wd_wg w)\<rparr>
                       in Some (p\<lparr>wp_workers := (wp_workers p)[i := w']\<rparr>, 0))"

text \<open>One pass of worker \<open>i\<close>: the item it hands to the handler, if any.\<close>

definition WorkerPool_iter :: "nat \<Rightarrow> 'd WorkerPool \<Rightarrow> ('d WorkerPool \<times> 'd option) option" where
  "WorkerPool_iter i p =
     (if wp_status p \<noteq> 1 \<or> length (wp_workers p) \<le> i then Some (p, None)
      else let w = wp_workers p ! i
           in case LockFreeQueue_Dequeue False (wd_mq w) of
                None \<Rightarrow> None
              | Some (q', rt, x) \<Rightarrow> Some (p\<lparr>wp_workers := (wp_workers p)[i := w\<lparr>wd_mq := q'\<rparr>]\<rparr>, x))"

definition WorkerPool_done :: "nat \<Rightarrow> 'd WorkerPool \<Rightarrow> 'd WorkerPool" where
  "WorkerPool_done i p =
     p\<lparr>wp_workers := (wp_workers p)[i := (wp_workers p ! i)\<lparr>wd_pending := wd_pending (wp_workers p ! i) - 1\<rparr>]\<rparr>"

section \<open>Invariant and contents\<close>

definition wp_inv :: "'d WorkerPool \<Rightarrow> bool" where
  "wp_inv p \<longleftrightarrow> wp_workers p \<noteq> [] \<and> (\<forall>w \<in> set (wp_workers p). lq_inv (wd_mq w))"

definition wp_queue :: "'d WorkerPool \<Rightarrow> nat \<Rightarrow> 'd list" where
  "wp_queue p i = lq_list (wd_mq (wp_workers p ! i))"

text \<open>The worker that serves an id.\<close>

definition wp_route :: "'d WorkerPool \<Rightarrow> u64 \<Rightarrow> nat" where
  "wp_route p wid = unat wid mod length (wp_workers p)"

lemma wp_route_less: "wp_inv p \<Longrightarrow> wp_route p wid < length (wp_workers p)"
  by (simp add: wp_inv_def wp_route_def)

lemma wp_inv_worker: "wp_inv p \<Longrightarrow> i < length (wp_workers p) \<Longrightarrow> lq_inv (wd_mq (wp_workers p ! i))"
  by (simp add: wp_inv_def)

lemma wp_inv_update:
  "wp_inv p \<Longrightarrow> lq_inv (wd_mq w) \<Longrightarrow> wp_inv (p\<lparr>wp_workers := (wp_workers p)[i := w]\<rparr>)"
  using set_update_subset_insert by (fastforce simp: wp_inv_def)

lemma WorkerPool_StartWorker_inv:
  assumes "0 < n" and "0 < unat sz" and "unat sz < 2 ^ 32 - 1"
  shows "wp_inv (WorkerPool_StartWorker n sz WorkerPool_new)"
    and "i < n \<Longrightarrow> wp_queue (WorkerPool_StartWorker n sz WorkerPool_new) i = []"
  using assms lq_inv_Init [OF assms(2,3)]
  by (auto simp: WorkerPool_StartWorker_def WorkerPool_new_def wp_inv_def wp_queue_def)

text \<open>Adding work appends to the queue of the routed worker, or is refused and changes none.\<close>

lemma WorkerPool_AddWork_cases:
  assumes "wp_inv p" and "wp_status p = 1"
  obtains (queued) p' where "WorkerPool_AddWork wid d p = Some (p', 0)"
      "wp_queue p' = (wp_queue p)(wp_route p wid := wp_queue p (wp_route p wid) @ [d])"
      "wp_inv p'" "wp_status p' = 1" "length (wp_workers p') = length (wp_workers p)"
  | (refused) p' where "WorkerPool_AddWork wid d p = Some (p', -2)" "wp_queue p' = wp_queue p"
      "wp_inv p'" "wp_status p' = 1" "length (wp_workers p') = length (wp_workers p)"
      "length (wp_queue p (wp_route p wid)) = lq_cap (wd_mq (wp_workers p ! wp_route p wid))"
proof -
  let ?i = "wp_route p wid"
  let ?w = "wp_workers p ! ?i"
  have i: "?i < length (wp_workers p)" using assms(1) by (rule wp_route_less)
  have inv: "lq_inv (wd_mq ?w)" using assms(1) i by (rule wp_inv_worker)
  have ne: "wp_workers p \<noteq> []" using assms(1) by (simp add: wp_inv_def)
  show thesis
  proof (rule lfq.enq_cases [OF inv, of d])
    fix q' assume q: "lq_enq d (wd_mq ?w) = Some (q', True)" "lq_list q' = lq_list (wd_mq ?w) @ [d]" "lq_inv q'"
    then have e: "LockFreeQueue_Enqueue d False (wd_mq ?w) = Some (q', RT_OK)" by (auto simp: lq_enq_def)
    show thesis
      by (rule queued, simp add: WorkerPool_AddWork_def assms(2) ne e [unfolded wp_route_def] Let_def)
        (use q i assms in \<open>auto simp: wp_queue_def wp_route_def fun_eq_iff nth_list_update intro!: wp_inv_update\<close>)
  next
    fix q' assume q: "lq_enq d (wd_mq ?w) = Some (q', False)" "lq_list q' = lq_list (wd_mq ?w)" "lq_inv q'"
      "length (lq_list (wd_mq ?w)) = lq_cap (wd_mq ?w)"
    then obtain rt where e: "LockFreeQueue_Enqueue d False (wd_mq ?w) = Some (q', rt)" "rt \<noteq> RT_OK"
      by (auto simp: lq_enq_def)
    show thesis
      by (rule refused, simp add: WorkerPool_AddWork_def assms(2) ne e [unfolded wp_route_def] Let_def)
        (use q i assms in \<open>auto simp: wp_queue_def wp_route_def fun_eq_iff nth_list_update intro!: wp_inv_update\<close>)
  qed
qed

lemma WorkerPool_iter_cases:
  assumes "wp_inv p" and "wp_status p = 1" and "i < length (wp_workers p)"
  obtains (idle) p' where "WorkerPool_iter i p = Some (p', None)" "wp_queue p' = wp_queue p"
      "wp_inv p'" "wp_status p' = 1" "length (wp_workers p') = length (wp_workers p)"
  | (handle) p' x where "WorkerPool_iter i p = Some (p', Some x)" "wp_queue p i = x # wp_queue p' i"
      "\<forall>j. j \<noteq> i \<longrightarrow> wp_queue p' j = wp_queue p j" "wp_inv p'" "wp_status p' = 1"
      "length (wp_workers p') = length (wp_workers p)"
proof -
  let ?w = "wp_workers p ! i"
  have inv: "lq_inv (wd_mq ?w)" using assms(1,3) by (rule wp_inv_worker)
  show thesis
  proof (rule lfq.deq_cases [OF inv])
    fix q' assume q: "lq_deq (wd_mq ?w) = Some (q', None)" "lq_list q' = lq_list (wd_mq ?w)" "lq_inv q'"
    then obtain rt where e: "LockFreeQueue_Dequeue False (wd_mq ?w) = Some (q', rt, None)"
      by (auto simp: lq_deq_def)
    show thesis
      by (rule idle [of "p\<lparr>wp_workers := (wp_workers p)[i := ?w\<lparr>wd_mq := q'\<rparr>]\<rparr>"])
        (use q assms e in \<open>auto simp: wp_queue_def fun_eq_iff nth_list_update WorkerPool_iter_def
           intro!: wp_inv_update\<close>)
  next
    fix q' x assume q: "lq_deq (wd_mq ?w) = Some (q', Some x)" "lq_list (wd_mq ?w) = x # lq_list q'" "lq_inv q'"
    then obtain rt where e: "LockFreeQueue_Dequeue False (wd_mq ?w) = Some (q', rt, Some x)"
      by (auto simp: lq_deq_def)
    show thesis
      by (rule handle [of "p\<lparr>wp_workers := (wp_workers p)[i := ?w\<lparr>wd_mq := q'\<rparr>]\<rparr>"])
        (use q assms e in \<open>auto simp: wp_queue_def nth_list_update WorkerPool_iter_def
           intro!: wp_inv_update\<close>)
  qed
qed

section \<open>Runs of producers and workers\<close>

text \<open>
  A run interleaves calls of \<open>AddWork\<close> (from any thread) with passes of the workers. The log
  records, per worker, what was accepted and what was handed to the handler, oldest first.
\<close>

datatype 'd pool_event = EvAdd u64 'd | EvIter nat

record 'd pool_log =
  pl_accepted :: "nat \<Rightarrow> 'd list"
  pl_handled :: "nat \<Rightarrow> 'd list"

fun pool_step :: "'d pool_event \<Rightarrow> 'd WorkerPool \<times> 'd pool_log \<Rightarrow> ('d WorkerPool \<times> 'd pool_log) option" where
  "pool_step (EvAdd wid d) (p, l) =
     (case WorkerPool_AddWork wid d p of
        None \<Rightarrow> None
      | Some (p', rc) \<Rightarrow>
          Some (p', if rc = 0 then l\<lparr>pl_accepted := (pl_accepted l)
                     (wp_route p wid := pl_accepted l (wp_route p wid) @ [d])\<rparr> else l))"
| "pool_step (EvIter i) (p, l) =
     (case WorkerPool_iter i p of
        None \<Rightarrow> None
      | Some (p', None) \<Rightarrow> Some (p', l)
      | Some (p', Some x) \<Rightarrow>
          Some (WorkerPool_done i p', l\<lparr>pl_handled := (pl_handled l)(i := pl_handled l i @ [x])\<rparr>))"

fun pool_run :: "'d pool_event list \<Rightarrow> 'd WorkerPool \<times> 'd pool_log \<Rightarrow> ('d WorkerPool \<times> 'd pool_log) option" where
  "pool_run [] s = Some s"
| "pool_run (e # es) s = (case pool_step e s of None \<Rightarrow> None | Some s' \<Rightarrow> pool_run es s')"

definition pool_log_inv :: "'d WorkerPool \<times> 'd pool_log \<Rightarrow> bool" where
  "pool_log_inv s \<longleftrightarrow> (case s of (p, l) \<Rightarrow> wp_inv p \<and> wp_status p = 1 \<and>
     (\<forall>i < length (wp_workers p). pl_accepted l i = pl_handled l i @ wp_queue p i))"

lemma wp_done_view:
  assumes "i < length (wp_workers p)"
  shows "wp_queue (WorkerPool_done i p) = wp_queue p" "wp_status (WorkerPool_done i p) = wp_status p"
    "length (wp_workers (WorkerPool_done i p)) = length (wp_workers p)"
    "wp_inv p \<Longrightarrow> wp_inv (WorkerPool_done i p)"
proof -
  show "wp_queue (WorkerPool_done i p) = wp_queue p"
    using assms by (auto simp: WorkerPool_done_def wp_queue_def fun_eq_iff nth_list_update)
  show "wp_inv p \<Longrightarrow> wp_inv (WorkerPool_done i p)"
    using assms wp_inv_worker [of p i] unfolding WorkerPool_done_def by (intro wp_inv_update) auto
qed (simp_all add: WorkerPool_done_def)

lemma pool_step_inv:
  assumes "pool_log_inv s"
  shows "\<exists>s'. pool_step e s = Some s' \<and> pool_log_inv s' \<and>
    length (wp_workers (fst s')) = length (wp_workers (fst s))"
proof -
  obtain p l where s: "s = (p, l)" by (cases s)
  with assms have inv: "wp_inv p" "wp_status p = 1"
    and log: "\<forall>i < length (wp_workers p). pl_accepted l i = pl_handled l i @ wp_queue p i"
    by (simp_all add: pool_log_inv_def)
  show ?thesis
  proof (cases e)
    case (EvAdd wid d)
    show ?thesis
    proof (rule WorkerPool_AddWork_cases [OF inv, of wid d])
    qed (use EvAdd s log in \<open>simp_all add: pool_log_inv_def\<close>)
  next
    case (EvIter i)
    show ?thesis
    proof (cases "i < length (wp_workers p)")
      case True
      show ?thesis
      proof (rule WorkerPool_iter_cases [OF inv True])
        fix p' assume "WorkerPool_iter i p = Some (p', None)" "wp_queue p' = wp_queue p"
          "wp_inv p'" "wp_status p' = 1" "length (wp_workers p') = length (wp_workers p)"
        then show ?thesis using EvIter s log by (simp add: pool_log_inv_def)
      next
        fix p' x assume h: "WorkerPool_iter i p = Some (p', Some x)" "wp_queue p i = x # wp_queue p' i"
          "\<forall>j. j \<noteq> i \<longrightarrow> wp_queue p' j = wp_queue p j" "wp_inv p'" "wp_status p' = 1"
          "length (wp_workers p') = length (wp_workers p)"
        then show ?thesis using EvIter s log True by (auto simp: pool_log_inv_def wp_done_view)
      qed
    next
      case False
      then show ?thesis using EvIter s log inv by (simp add: pool_log_inv_def WorkerPool_iter_def)
    qed
  qed
qed

lemma pool_run_inv:
  "pool_log_inv s \<Longrightarrow> \<exists>s'. pool_run es s = Some s' \<and> pool_log_inv s' \<and>
    length (wp_workers (fst s')) = length (wp_workers (fst s))"
proof (induction es arbitrary: s)
  case (Cons e es)
  from pool_step_inv [OF Cons.prems, of e] obtain s1 where
    "pool_step e s = Some s1" "pool_log_inv s1" "length (wp_workers (fst s1)) = length (wp_workers (fst s))"
    by blast
  with Cons.IH [of s1] show ?case by auto
qed simp

end
