(* ===== verification/Acceptor.thy ===== *)
theory Acceptor
  imports Plog Worker_Pool
begin

text \<open>
  core/acceptor.h and core/acceptor.cpp: the acceptor. Requests are queued on a pool of worker
  threads by log instance; a worker takes one, runs the handler and calls the response callback.
  The handlers work on the log manager and, to trigger a catch-up, on the worker pool itself.

  A callback is a token \<open>'cb\<close>; \<open>None\<close> is the empty lambda of \<open>TriggerLocalCatchup\<close>.
  A handler returns the new state and the response. The references \<open>existed_pp\<close> and
  \<open>existed_promise\<close> of the code point into the entry, so their contents are read again after
  each call that may change it.
\<close>

section \<open>The class\<close>

record 'cb PaxosRequest =
  rq_cb :: "'cb option"
  rq_msg :: PaxosMsg

record ('db, 'cb) Acceptor =
  ac_wpool :: "'cb PaxosRequest WorkerPool"
  ac_pmn :: "'db PlogMng"
  ac_config :: Configure

text \<open>A call on the log manager.\<close>

definition ac_plog ::
    "('db PlogMng \<Rightarrow> ('db PlogMng \<times> 'a) option) \<Rightarrow> ('db, 'cb) Acceptor \<Rightarrow> (('db, 'cb) Acceptor \<times> 'a) option" where
  "ac_plog f ac = (case f (ac_pmn ac) of None \<Rightarrow> None | Some (pm, r) \<Rightarrow> Some (ac\<lparr>ac_pmn := pm\<rparr>, r))"

text \<open>Following, and writing through, a reference to the cached entry of an instance.\<close>

definition PlogMng_at :: "'db PlogMng \<Rightarrow> u64 \<Rightarrow> u64 \<Rightarrow> Entry option" where
  "PlogMng_at pm pinst k =
     (if pm_mngs pm = [] then None
      else case pm_mngs pm ! PlogMng_slot pm pinst of None \<Rightarrow> None | Some m \<Rightarrow> EntryMng_at m k)"

definition PlogMng_write :: "u64 \<Rightarrow> u64 \<Rightarrow> Entry \<Rightarrow> 'db PlogMng \<Rightarrow> 'db PlogMng" where
  "PlogMng_write pinst k e pm =
     pm\<lparr>pm_mngs := (pm_mngs pm)[PlogMng_slot pm pinst :=
                     map_option (EntryMng_write k e) (pm_mngs pm ! PlogMng_slot pm pinst)]\<rparr>"

text \<open>\<open>StartWorker\<close>: the two assertions, then the pool. The manager is always set here.\<close>

definition Acceptor_StartWorker :: "('db, 'cb) Acceptor \<Rightarrow> (('db, 'cb) Acceptor \<times> int) option" where
  "Acceptor_StartWorker ac =
     (if \<not> cf_acceptor_worker_count (ac_config ac) < cf_plog_inst_num (ac_config ac) then None
      else Some (ac\<lparr>ac_wpool := WorkerPool_StartWorker (unat (cf_acceptor_worker_count (ac_config ac)))
                     (cf_worker_msg_queue_sz (ac_config ac)) (ac_wpool ac)\<rparr>, err kErrCode_OK))"

definition Acceptor_StopWorker :: "('db, 'cb) Acceptor \<Rightarrow> ('db, 'cb) Acceptor \<times> int" where
  "Acceptor_StopWorker ac = (ac\<lparr>ac_wpool := WorkerPool_StopWorker (ac_wpool ac)\<rparr>, err kErrCode_OK)"

definition Acceptor_AddMsg ::
    "PaxosMsg \<Rightarrow> 'cb option \<Rightarrow> ('db, 'cb) Acceptor \<Rightarrow> (('db, 'cb) Acceptor \<times> int) option" where
  "Acceptor_AddMsg msg cb ac =
     (case WorkerPool_AddWork (p_pinst (m_body msg)) \<lparr>rq_cb = cb, rq_msg = msg\<rparr> (ac_wpool ac) of
        None \<Rightarrow> None
      | Some (wp, ret) \<Rightarrow>
          Some (ac\<lparr>ac_wpool := wp\<rparr>,
                if ret \<noteq> 0 then err kErrCode_ACCEPTOR_QUEUE_FULL else err kErrCode_OK))"

text \<open>
  The promise is the token of the callback. The lambda \<open>cb\<close> has been moved into \<open>AddMsg\<close>
  when the error path calls it again: its captured pointer is null by then, and \<open>set_value\<close>
  through it is undefined.
\<close>

definition Acceptor_AddMsgAsync ::
    "PaxosMsg \<Rightarrow> 'cb \<Rightarrow> ('db, 'cb) Acceptor \<Rightarrow> ('db, 'cb) Acceptor option" where
  "Acceptor_AddMsgAsync msg pms ac =
     (case Acceptor_AddMsg msg (Some pms) ac of
        None \<Rightarrow> None
      | Some (ac1, ret) \<Rightarrow> if ret \<noteq> 0 then None else Some ac1)"

definition Acceptor_doCatchupFromPeer ::
    "'db plog_env \<Rightarrow> Proposal \<Rightarrow> ('db, 'cb) Acceptor \<Rightarrow> ('db, 'cb) Acceptor option" where
  "Acceptor_doCatchupFromPeer S pp ac = do {
     let pinst = p_pinst pp;
     (ac1, local_chosen) \<leftarrow> ac_plog (PlogMng_GetMaxChosenEntry S pinst) ac;
     (ac2, commit_entry) \<leftarrow> ac_plog (PlogMng_GetMaxCommittedEntry S pinst) ac1;
     (ac3, global_chosen) \<leftarrow> ac_plog (PlogMng_GetGlobalMaxChosenEntry S pinst) ac2;
     Some ac3
   }"

definition Acceptor_TriggerLocalCatchup ::
    "u64 \<Rightarrow> u64 \<Rightarrow> ('db, 'cb) Acceptor \<Rightarrow> ('db, 'cb) Acceptor option" where
  "Acceptor_TriggerLocalCatchup pinst target_entry ac =
     (let req0 = AllocProposalMsg 0;
          req = req0\<lparr>m_type := mt kMsgType_CHORE_CATCHUP,
                      m_body := (m_body req0)\<lparr>p_pinst := pinst, p_pentry := target_entry\<rparr>\<rparr>
      in map_option fst (Acceptor_AddMsg req None ac))"

definition Acceptor_CheckLocalAndMayTriggerCatchup ::
    "'db plog_env \<Rightarrow> Proposal \<Rightarrow> ('db, 'cb) Acceptor \<Rightarrow> (('db, 'cb) Acceptor \<times> int) option" where
  "Acceptor_CheckLocalAndMayTriggerCatchup S pp ac = do {
     let pinst = p_pinst pp;
     let entry = p_pentry pp;
     let remote_last_chosen = p_last_chosen pp;
     (ac1, local_last_chosen) \<leftarrow> ac_plog (PlogMng_GetMaxChosenEntry S pinst) ac;
     (if local_last_chosen \<noteq> npos \<and> local_last_chosen \<ge> entry
      then Some (ac1, err kErrCode_REMOTE_NEED_CATCHUP)
      else if remote_last_chosen > local_last_chosen
      then do {
        (ac2, _) \<leftarrow> ac_plog (\<lambda>pm. map_option (\<lambda>pm'. (pm', ()))
                     (PlogMng_SetGlobalMaxChosenEntry S pinst remote_last_chosen pm)) ac1;
        ac3 \<leftarrow> Acceptor_TriggerLocalCatchup pinst (local_last_chosen + 1) ac2;
        Some (ac3, err kErrCode_OK)
      }
      else Some (ac1, err kErrCode_OK))
   }"

section \<open>Prepare\<close>

text \<open>
  The three branches of the handler once the entry is found. Each gives the new state, the
  number of value bytes and the proposal to answer with, the error code and the status. The
  last one is a new promise; a proposal id of 0 is a read probe and stores nothing.
\<close>

type_synonym ('db, 'cb) promise_result = "('db, 'cb) Acceptor \<times> u32 \<times> Proposal \<times> int \<times> u32"

definition Acceptor_new_promise ::
    "'db plog_env \<Rightarrow> Proposal \<Rightarrow> ('db, 'cb) Acceptor \<Rightarrow> ('db, 'cb) promise_result option" where
  "Acceptor_new_promise S pp ac = do {
     (ac1, ret, pp1) \<leftarrow>
       (if p_pid pp > 0
        then (let pp1 = pp\<lparr>p_status := st kPaxosState_PROMISED\<rparr>
              in map_option (\<lambda>(a, r). (a, r, pp1)) (ac_plog (PlogMng_SetPromised S pp1) ac))
        else Some (ac, err kErrCode_OK, pp));
     Some (if ret \<noteq> err kErrCode_OK
           then (ac1, 0, pp1, err kErrCode_WRITE_PLOG_FAIL, st kPaxosState_PROMISED_FAILED)
           else (ac1, p_size pp, pp1, 0, st kPaxosState_PROMISED))
   }"

definition Acceptor_promise ::
    "'db plog_env \<Rightarrow> Proposal \<Rightarrow> Entry \<Rightarrow> ('db, 'cb) Acceptor \<Rightarrow> ('db, 'cb) promise_result option" where
  "Acceptor_promise S pp ent ac =
     (case en_accepted ent of
        Some existed_pp \<Rightarrow> Some (ac, p_size existed_pp, existed_pp, 0, st kPaxosState_ACCEPTED)
      | None \<Rightarrow>
          (case en_promised ent of
             Some existed_promise \<Rightarrow>
               if p_pid existed_promise \<ge> p_pid pp
               then Some (ac, p_size existed_promise, existed_promise, 0, st kPaxosState_PROMISED)
               else Acceptor_new_promise S pp ac
           | None \<Rightarrow> Acceptor_new_promise S pp ac))"

text \<open>
  \<open>memcpy(rpp, from_pp, ProposalHeaderSz + vsize)\<close> with \<open>vsize\<close> a signed \<open>int\<close>: a
  negative one is a length beyond every buffer.
\<close>

definition Acceptor_handlePrepareReq ::
    "'db plog_env \<Rightarrow> Proposal \<Rightarrow> ('db, 'cb) Acceptor \<Rightarrow> (('db, 'cb) Acceptor \<times> PaxosMsg) option" where
  "Acceptor_handlePrepareReq S pp ac = do {
     let pinst = p_pinst pp;
     let entry = p_pentry pp;
     (ac1, ret) \<leftarrow> Acceptor_CheckLocalAndMayTriggerCatchup S pp ac;
     (ac2, vsize, from_pp, errcode, status) \<leftarrow>
       (if ret \<noteq> 0 then
          (if ret = err kErrCode_NEED_CATCHUP then Some (ac1, 0, pp, ret, st kPaxosState_LOCAL_LAG_BEHIND)
           else if ret = err kErrCode_REMOTE_NEED_CATCHUP
           then Some (ac1, 0, pp, ret, st kPaxosState_REMOTE_LAG_BEHIND)
           else None)
        else do {
          (a, _) \<leftarrow> ac_plog (\<lambda>pm. map_option (\<lambda>pm'. (pm', ()))
                     (PlogMng_GetEntryAndCreateIfNotExist S pinst entry pm)) ac1;
          ent \<leftarrow> PlogMng_at (ac_pmn a) pinst entry;
          Acceptor_promise S pp ent a
        });
     let rsp = (AllocProposalMsg vsize)\<lparr>m_errcode := errcode, m_type := mt kMsgType_PREPARE_RSP\<rparr>;
     rpp \<leftarrow> (if vsize \<ge> 0x80000000 then None else memcpy_Proposal (m_body rsp) from_pp (unat vsize));
     (ac3, last_chosen) \<leftarrow> ac_plog (PlogMng_GetMaxChosenEntry S pinst) ac2;
     Some (ac3, rsp\<lparr>m_body := rpp\<lparr>p_status := status, p_last_chosen := last_chosen,
                                    p_last_chosen_from := - 1\<rparr>\<rparr>)
   }"

section \<open>Accept\<close>

text \<open>The request stored as the accepted proposal; the flag tells whether it was saved.\<close>

definition Acceptor_store ::
    "'db plog_env \<Rightarrow> Proposal \<Rightarrow> ('db, 'cb) Acceptor \<Rightarrow> (('db, 'cb) Acceptor \<times> bool) option" where
  "Acceptor_store S pp ac = do {
     (ac1, ret) \<leftarrow> ac_plog (PlogMng_SetAccepted S (pp\<lparr>p_status := st kPaxosState_ACCEPTED\<rparr>)) ac;
     Some (ac1, ret = err kErrCode_OK)
   }"

text \<open>
  The decision, given the entry: the new state, \<open>accepted\<close>, the proposal that
  \<open>accepted_pp\<close> points to, and the error code.
\<close>

definition Acceptor_accept ::
    "'db plog_env \<Rightarrow> Proposal \<Rightarrow> Entry \<Rightarrow> ('db, 'cb) Acceptor \<Rightarrow>
     (('db, 'cb) Acceptor \<times> bool \<times> Proposal \<times> int) option" where
  "Acceptor_accept S pp ent ac =
     (case en_accepted ent of
        Some existed_pp \<Rightarrow>
          (let status = p_status existed_pp
           in if status \<noteq> st kPaxosState_CHOSEN \<and> status \<noteq> st kPaxosState_ACCEPTED
              then Some (ac, False, pp, err kErrCode_INVALID_PLOG_DATA)
              else if p_pid existed_pp = p_pid pp \<and> p_value_id existed_pp = p_value_id pp
              then Some (ac, True, existed_pp, err kErrCode_DUPLICATE_PROPOSAL_REQ)
              else if p_pid existed_pp < p_pid pp then
                (if status \<noteq> st kPaxosState_CHOSEN then do {
                   (ac1, saved) \<leftarrow> Acceptor_store S pp ac;
                   (if saved then Some (ac1, True, pp\<lparr>p_status := st kPaxosState_ACCEPTED\<rparr>, 0)
                    else do {
                      ent' \<leftarrow> PlogMng_at (ac_pmn ac1) (p_pinst pp) (p_pentry pp);
                      now \<leftarrow> en_accepted ent';
                      Some (ac1, False, now, err kErrCode_WRITE_PLOG_FAIL)
                    })
                 }
                 else Some (ac, False, existed_pp, err kErrCode_INVALID_PROPOSAL_REQ))
              else Some (ac, False, existed_pp, err kErrCode_INVALID_PROPOSAL_REQ))
      | None \<Rightarrow>
          (case en_promised ent of
             Some existed_promise \<Rightarrow>
               if p_pid existed_promise \<le> p_pid pp then do {
                 (ac1, saved) \<leftarrow> Acceptor_store S pp ac;
                 Some (if saved then (ac1, True, pp\<lparr>p_status := st kPaxosState_ACCEPTED\<rparr>, 0)
                       else (ac1, False, pp\<lparr>p_status := st kPaxosState_PROMISED\<rparr>,
                             err kErrCode_WRITE_PLOG_FAIL))
               }
               else Some (ac, False, pp, 0)
           | None \<Rightarrow> do {
               (ac1, saved) \<leftarrow> Acceptor_store S pp ac;
               Some (if saved then (ac1, True, pp\<lparr>p_status := st kPaxosState_ACCEPTED\<rparr>, 0)
                     else (ac1, False, pp\<lparr>p_status := st kPaxosState_FAST_ACCEPT_FAILED\<rparr>,
                           err kErrCode_WRITE_PLOG_FAIL))
             }))"

definition Acceptor_handleAcceptReq ::
    "'db plog_env \<Rightarrow> Proposal \<Rightarrow> ('db, 'cb) Acceptor \<Rightarrow> (('db, 'cb) Acceptor \<times> PaxosMsg) option" where
  "Acceptor_handleAcceptReq S pp ac = do {
     let pinst = p_pinst pp;
     let entry = p_pentry pp;
     let rsp = (AllocProposalMsg 0)\<lparr>m_type := mt kMsgType_ACCEPT_RSP\<rparr>;
     (ac1, ret) \<leftarrow> Acceptor_CheckLocalAndMayTriggerCatchup S pp ac;
     (if ret \<noteq> 0 then do {
        (ac2, last_chosen) \<leftarrow> ac_plog (PlogMng_GetMaxChosenEntry S pinst) ac1;
        Some (ac2, rsp\<lparr>m_errcode := ret,
                       m_body := (m_body rsp)\<lparr>p_status := st kPaxosState_LOCAL_LAG_BEHIND,
                                   p_last_chosen_from := - 1, p_last_chosen := last_chosen\<rparr>\<rparr>)
      }
      else do {
        (ac2, _) \<leftarrow> ac_plog (\<lambda>pm. map_option (\<lambda>pm'. (pm', ()))
                    (PlogMng_GetEntryAndCreateIfNotExist S pinst entry pm)) ac1;
        ent \<leftarrow> PlogMng_at (ac_pmn ac2) pinst entry;
        (ac3, accepted, accepted_pp, errcode) \<leftarrow> Acceptor_accept S pp ent ac2;
        rpp \<leftarrow> memcpy_Proposal (m_body rsp) accepted_pp 0;
        (ac4, last_chosen) \<leftarrow> ac_plog (PlogMng_GetMaxChosenEntry S pinst) ac3;
        (ac5, status) \<leftarrow>
          (if accepted then do {
             (a, _) \<leftarrow> ac_plog (PlogMng_ClearPromised S pinst entry) ac4;
             Some (a, st kPaxosState_ACCEPTED)
           }
           else Some (ac4, st kPaxosState_ACCEPTED_FAILED));
        Some (ac5, rsp\<lparr>m_errcode := errcode,
                       m_body := rpp\<lparr>p_size := 0, p_last_chosen_from := - 1,
                                   p_last_chosen := last_chosen, p_status := status\<rparr>\<rparr>)
      })
   }"

section \<open>Chosen\<close>

definition Acceptor_set_status ::
    "u64 \<Rightarrow> u64 \<Rightarrow> u32 \<Rightarrow> ('db, 'cb) Acceptor \<Rightarrow> ('db, 'cb) Acceptor option" where
  "Acceptor_set_status pinst entry status ac = do {
     ent \<leftarrow> PlogMng_at (ac_pmn ac) pinst entry;
     existed_pp \<leftarrow> en_accepted ent;
     Some (ac\<lparr>ac_pmn := PlogMng_write pinst entry
               (ent\<lparr>en_accepted := Some (existed_pp\<lparr>p_status := status\<rparr>)\<rparr>) (ac_pmn ac)\<rparr>)
   }"

definition Acceptor_handleChosenReq ::
    "'db plog_env \<Rightarrow> Proposal \<Rightarrow> ('db, 'cb) Acceptor \<Rightarrow> (('db, 'cb) Acceptor \<times> PaxosMsg) option" where
  "Acceptor_handleChosenReq S pp ac = do {
     let pinst = p_pinst pp;
     let entry = p_pentry pp;
     (ac1, _) \<leftarrow> ac_plog (\<lambda>pm. map_option (\<lambda>pm'. (pm', ()))
                 (PlogMng_GetEntryAndCreateIfNotExist S pinst entry pm)) ac;
     ent \<leftarrow> PlogMng_at (ac_pmn ac1) pinst entry;
     let ret = AllocProposalMsg 0;
     rpp0 \<leftarrow> memcpy_Proposal (m_body ret) pp 0;
     let rpp = rpp0\<lparr>p_size := 0, p_status := st kPaxosState_CHOSEN\<rparr>;
     (case en_accepted ent of
        None \<Rightarrow> Some (ac1, ret\<lparr>m_errcode := err kErrCode_INVALID_PROPOSAL_REQ,
                              m_body := rpp\<lparr>p_status := st kPaxosState_INVALID_PROPOSAL\<rparr>\<rparr>)
      | Some existed_pp \<Rightarrow>
          if p_pid pp \<noteq> p_pid existed_pp \<or> p_value_id pp \<noteq> p_value_id existed_pp
          then Some (ac1, ret\<lparr>m_errcode := err kErrCode_INVALID_PROPOSAL_REQ,
                              m_body := rpp\<lparr>p_status := st kPaxosState_INVALID_PROPOSAL\<rparr>\<rparr>)
          else if p_status existed_pp = st kPaxosState_CHOSEN
          then Some (ac1, ret\<lparr>m_body := rpp\<lparr>p_status := st kPaxosState_ALREADY_CHOSEN\<rparr>\<rparr>)
          else do {
            ac2 \<leftarrow> Acceptor_set_status pinst entry (st kPaxosState_CHOSEN) ac1;
            (ac3, rc) \<leftarrow> ac_plog (PlogMng_SetChosen S pinst entry) ac2;
            (ac4, last_chosen) \<leftarrow> ac_plog (PlogMng_GetMaxChosenEntry S pinst) ac3;
            let rpp' = rpp\<lparr>p_last_chosen_from := - 1, p_last_chosen := last_chosen\<rparr>;
            (if rc \<noteq> err kErrCode_OK then do {
               ac5 \<leftarrow> Acceptor_set_status pinst entry (st kPaxosState_ACCEPTED) ac4;
               Some (ac5, ret\<lparr>m_errcode := err kErrCode_WRITE_PLOG_FAIL,
                              m_body := rpp'\<lparr>p_status := st kPaxosState_COMMIT_FAILED\<rparr>\<rparr>)
             }
             else Some (ac4, ret\<lparr>m_body := rpp'\<rparr>))
          })
   }"

section \<open>Dispatch\<close>

text \<open>
  The response to a request of unknown type is a bare header with size 0; its body, which the
  code does not allocate, is an empty one here.
\<close>

definition Acceptor_dispatch ::
    "'db plog_env \<Rightarrow> PaxosMsg \<Rightarrow> ('db, 'cb) Acceptor \<Rightarrow> (('db, 'cb) Acceptor \<times> PaxosMsg option) option" where
  "Acceptor_dispatch S msg ac =
     (let pp = m_body msg; mtype = m_type msg
      in if mtype = mt kMsgType_PREPARE_REQ
         then map_option (\<lambda>(a, r). (a, Some (r\<lparr>m_type := mt kMsgType_PREPARE_RSP\<rparr>)))
                (Acceptor_handlePrepareReq S pp ac)
         else if mtype = mt kMsgType_ACCEPT_REQ
         then map_option (\<lambda>(a, r). (a, Some (r\<lparr>m_type := mt kMsgType_ACCEPT_RSP\<rparr>)))
                (Acceptor_handleAcceptReq S pp ac)
         else if mtype = mt kMsgType_CHOSEN_REQ
         then map_option (\<lambda>(a, r). (a, Some (r\<lparr>m_type := mt kMsgType_CHOSEN_RSP\<rparr>)))
                (Acceptor_handleChosenReq S pp ac)
         else if mtype = mt kMsgType_CHORE_CATCHUP
         then map_option (\<lambda>a. (a, None)) (Acceptor_doCatchupFromPeer S pp ac)
         else Some (ac, Some (msg\<lparr>m_size := 0, m_type := mt kMsgType_INVALID_REQ,
                                  m_body := calloc_Proposal 0\<rparr>)))"

text \<open>The header fields that every response gets.\<close>

definition Acceptor_stamp :: "('db, 'cb) Acceptor \<Rightarrow> PaxosMsg \<Rightarrow> PaxosMsg \<Rightarrow> PaxosMsg" where
  "Acceptor_stamp ac msg rsp =
     rsp\<lparr>m_from := ai_id (cf_local (ac_config ac)), m_version := m_version msg,
         m_magic := m_magic msg, m_reqid := m_reqid msg\<rparr>"

text \<open>\<open>doHandleMsg\<close>: the callback that is called, and the message it gets.\<close>

definition Acceptor_doHandleMsg ::
    "'db plog_env \<Rightarrow> 'cb PaxosRequest \<Rightarrow> ('db, 'cb) Acceptor \<Rightarrow>
     (('db, 'cb) Acceptor \<times> ('cb option \<times> PaxosMsg) option) option" where
  "Acceptor_doHandleMsg S req ac = do {
     let msg = rq_msg req;
     (ac1, rsp) \<leftarrow> Acceptor_dispatch S msg ac;
     (case rsp of
        None \<Rightarrow> Some (ac1, None)
      | Some r \<Rightarrow> Some (ac1, Some (rq_cb req, Acceptor_stamp ac1 msg r)))
   }"

text \<open>One pass of worker \<open>i\<close> with the acceptor's handler.\<close>

definition Acceptor_worker ::
    "'db plog_env \<Rightarrow> nat \<Rightarrow> ('db, 'cb) Acceptor \<Rightarrow>
     (('db, 'cb) Acceptor \<times> ('cb option \<times> PaxosMsg) option) option" where
  "Acceptor_worker S i ac = do {
     (wp, req) \<leftarrow> WorkerPool_iter i (ac_wpool ac);
     (case req of
        None \<Rightarrow> Some (ac\<lparr>ac_wpool := wp\<rparr>, None)
      | Some r \<Rightarrow> do {
          (ac1, out) \<leftarrow> Acceptor_doHandleMsg S r (ac\<lparr>ac_wpool := wp\<rparr>);
          Some (ac1\<lparr>ac_wpool := WorkerPool_done i (ac_wpool ac1)\<rparr>, out)
        })
   }"

end
