(* ===== verification/Acceptor_Spec.thy ===== *)
theory Acceptor_Spec
  imports Acceptor
begin

text \<open>
  What the handlers of the acceptor do to one log entry, as functions on entries, and the
  lemmas that the handlers of \<open>Acceptor\<close> implement them: every handler returns, changes the
  addressed entry as the function says, and no other. A handler's state after the request is
  written \<open>ac_upd i m wp ac\<close>: the acceptor \<open>ac\<close> with manager \<open>m\<close> for instance \<open>i\<close> and
  worker pool \<open>wp\<close>.
\<close>

section \<open>The specification\<close>

definition prepare_entry :: "Proposal \<Rightarrow> Entry \<Rightarrow> Entry" where
  "prepare_entry pp e =
     (if en_accepted e \<noteq> None \<or> p_pid pp = 0 \<or>
         (\<exists>r. en_promised e = Some r \<and> p_pid r \<ge> p_pid pp) then e
      else e\<lparr>en_promised := Some (pp\<lparr>p_status := st kPaxosState_PROMISED\<rparr>)\<rparr>)"

text \<open>Whether a prepare request reaches the branch that stores a promise.\<close>

definition prepare_stores :: "Proposal \<Rightarrow> Entry \<Rightarrow> bool" where
  "prepare_stores pp e \<longleftrightarrow> en_accepted e = None \<and> p_pid pp > 0 \<and>
     (\<forall>r. en_promised e = Some r \<longrightarrow> p_pid r < p_pid pp)"

definition prepare_answer :: "bool \<Rightarrow> Proposal \<Rightarrow> Entry \<Rightarrow> Proposal \<times> int \<times> u32" where
  "prepare_answer saved pp e =
     (case en_accepted e of
        Some q \<Rightarrow> (q, 0, st kPaxosState_ACCEPTED)
      | None \<Rightarrow>
          (case en_promised e of
             Some r \<Rightarrow> if p_pid r \<ge> p_pid pp then (r, 0, st kPaxosState_PROMISED)
                       else if saved then (pp, 0, st kPaxosState_PROMISED)
                       else (pp\<lparr>p_data := []\<rparr>, err kErrCode_WRITE_PLOG_FAIL, st kPaxosState_PROMISED_FAILED)
           | None \<Rightarrow> if saved \<or> p_pid pp = 0 then (pp, 0, st kPaxosState_PROMISED)
                     else (pp\<lparr>p_data := []\<rparr>, err kErrCode_WRITE_PLOG_FAIL, st kPaxosState_PROMISED_FAILED)))"

definition prepare_reply :: "bool \<Rightarrow> u64 \<Rightarrow> Proposal \<Rightarrow> Entry \<Rightarrow> PaxosMsg" where
  "prepare_reply saved last_chosen pp e =
     (case prepare_answer saved pp e of (p, errcode, status) \<Rightarrow>
        (AllocProposalMsg (of_nat (length (p_data p))))\<lparr>m_errcode := errcode,
           m_type := mt kMsgType_PREPARE_RSP,
           m_body := p\<lparr>p_status := status, p_last_chosen := last_chosen, p_last_chosen_from := - 1\<rparr>\<rparr>)"

text \<open>Whether an accept request is stored, and the entry that is then handed to the store.\<close>

definition accept_stores :: "Proposal \<Rightarrow> Entry \<Rightarrow> bool" where
  "accept_stores pp e \<longleftrightarrow>
     (case en_accepted e of
        Some q \<Rightarrow> p_status q = st kPaxosState_ACCEPTED \<and> p_pid q < p_pid pp
      | None \<Rightarrow> (\<forall>r. en_promised e = Some r \<longrightarrow> p_pid r \<le> p_pid pp))"

definition accept_duplicate :: "Proposal \<Rightarrow> Entry \<Rightarrow> bool" where
  "accept_duplicate pp e \<longleftrightarrow>
     (\<exists>q. en_accepted e = Some q \<and>
        (p_status q = st kPaxosState_ACCEPTED \<or> p_status q = st kPaxosState_CHOSEN) \<and>
        p_pid q = p_pid pp \<and> p_value_id q = p_value_id pp)"

definition as_accepted :: "Proposal \<Rightarrow> Entry \<Rightarrow> Entry" where
  "as_accepted pp e = e\<lparr>en_accepted := Some (pp\<lparr>p_status := st kPaxosState_ACCEPTED\<rparr>)\<rparr>"

definition accept_entry :: "bool \<Rightarrow> Proposal \<Rightarrow> Entry \<Rightarrow> Entry" where
  "accept_entry saved pp e =
     (if accept_duplicate pp e then e\<lparr>en_promised := None\<rparr>
      else if accept_stores pp e then
        (if saved then (as_accepted pp e)\<lparr>en_promised := None\<rparr> else as_accepted pp e)
      else e)"

definition accept_ok :: "bool \<Rightarrow> Proposal \<Rightarrow> Entry \<Rightarrow> bool" where
  "accept_ok saved pp e \<longleftrightarrow> accept_duplicate pp e \<or> (accept_stores pp e \<and> saved)"

definition accept_errcode :: "bool \<Rightarrow> Proposal \<Rightarrow> Entry \<Rightarrow> int" where
  "accept_errcode saved pp e =
     (if accept_duplicate pp e then err kErrCode_DUPLICATE_PROPOSAL_REQ
      else if accept_stores pp e then (if saved then 0 else err kErrCode_WRITE_PLOG_FAIL)
      else case en_accepted e of
             Some q \<Rightarrow> if p_status q = st kPaxosState_ACCEPTED \<or> p_status q = st kPaxosState_CHOSEN
                       then err kErrCode_INVALID_PROPOSAL_REQ else err kErrCode_INVALID_PLOG_DATA
           | None \<Rightarrow> 0)"

text \<open>The proposal whose header the response to an accept request carries.\<close>

definition accept_answer :: "bool \<Rightarrow> Proposal \<Rightarrow> Entry \<Rightarrow> Proposal" where
  "accept_answer saved pp e =
     (if accept_duplicate pp e then the (en_accepted e)
      else if accept_stores pp e then pp
      else case en_accepted e of
             Some q \<Rightarrow> if p_status q = st kPaxosState_ACCEPTED \<or> p_status q = st kPaxosState_CHOSEN
                       then q else pp
           | None \<Rightarrow> pp)"

definition accept_reply :: "bool \<Rightarrow> u64 \<Rightarrow> Proposal \<Rightarrow> Entry \<Rightarrow> PaxosMsg" where
  "accept_reply saved last_chosen pp e =
     (AllocProposalMsg 0)\<lparr>m_type := mt kMsgType_ACCEPT_RSP, m_errcode := accept_errcode saved pp e,
        m_body := (accept_answer saved pp e)\<lparr>p_data := [], p_size := 0, p_last_chosen_from := - 1,
           p_last_chosen := last_chosen,
           p_status := (if accept_ok saved pp e then st kPaxosState_ACCEPTED
                        else st kPaxosState_ACCEPTED_FAILED)\<rparr>\<rparr>"

text \<open>A chosen request takes effect when it names the accepted proposal, not yet chosen.\<close>

definition chosen_applies :: "Proposal \<Rightarrow> Entry \<Rightarrow> bool" where
  "chosen_applies pp e \<longleftrightarrow>
     (\<exists>q. en_accepted e = Some q \<and> p_pid q = p_pid pp \<and> p_value_id q = p_value_id pp \<and>
        p_status q \<noteq> st kPaxosState_CHOSEN)"

definition with_status :: "u32 \<Rightarrow> Entry \<Rightarrow> Entry" where
  "with_status s e = e\<lparr>en_accepted := map_option (\<lambda>q. q\<lparr>p_status := s\<rparr>) (en_accepted e)\<rparr>"

definition chosen_entry :: "bool \<Rightarrow> Proposal \<Rightarrow> Entry \<Rightarrow> Entry" where
  "chosen_entry saved pp e =
     (if chosen_applies pp e
      then with_status (if saved then st kPaxosState_CHOSEN else st kPaxosState_ACCEPTED) e
      else e)"

text \<open>The same without quantifiers, for evaluation.\<close>

lemma spec_code [code]:
  "prepare_entry pp e =
     (if en_accepted e \<noteq> None \<or> p_pid pp = 0 \<or>
         (case en_promised e of Some r \<Rightarrow> p_pid r \<ge> p_pid pp | None \<Rightarrow> False) then e
      else e\<lparr>en_promised := Some (pp\<lparr>p_status := st kPaxosState_PROMISED\<rparr>)\<rparr>)"
  "accept_stores pp e =
     (case en_accepted e of
        Some q \<Rightarrow> p_status q = st kPaxosState_ACCEPTED \<and> p_pid q < p_pid pp
      | None \<Rightarrow> pred_option (\<lambda>r. p_pid r \<le> p_pid pp) (en_promised e))"
  "accept_duplicate pp e =
     (case en_accepted e of
        Some q \<Rightarrow> (p_status q = st kPaxosState_ACCEPTED \<or> p_status q = st kPaxosState_CHOSEN) \<and>
          p_pid q = p_pid pp \<and> p_value_id q = p_value_id pp
      | None \<Rightarrow> False)"
  "chosen_applies pp e =
     (case en_accepted e of
        Some q \<Rightarrow> p_pid q = p_pid pp \<and> p_value_id q = p_value_id pp \<and>
          p_status q \<noteq> st kPaxosState_CHOSEN
      | None \<Rightarrow> False)"
  by (auto simp: prepare_entry_def accept_stores_def accept_duplicate_def chosen_applies_def pred_option_def
      split: option.splits)

section \<open>States of one instance\<close>

definition ac_inv :: "'db plog_env \<Rightarrow> ('db, 'cb) Acceptor \<Rightarrow> bool" where
  "ac_inv S ac \<longleftrightarrow> env_ok S \<and> pm_inv (ac_pmn ac) \<and> wp_inv (ac_wpool ac)"

definition ac_mng :: "('db, 'cb) Acceptor \<Rightarrow> u64 \<Rightarrow> 'db EntryMng" where
  "ac_mng ac i = PlogMng_mng (ac_pmn ac) i"

definition ac_upd ::
    "u64 \<Rightarrow> 'db EntryMng \<Rightarrow> 'cb PaxosRequest WorkerPool \<Rightarrow> ('db, 'cb) Acceptor \<Rightarrow> ('db, 'cb) Acceptor" where
  "ac_upd i m wp ac = ac\<lparr>ac_pmn := PlogMng_put i m (ac_pmn ac), ac_wpool := wp\<rparr>"

lemma ac_upd_self: "ac_inv S ac \<Longrightarrow> ac_upd i (ac_mng ac i) (ac_wpool ac) ac = ac"
  by (simp add: ac_upd_def ac_mng_def ac_inv_def)

lemma ac_inv_mng: "ac_inv S ac \<Longrightarrow> em_inv (ac_mng ac i)"
  by (simp add: ac_inv_def ac_mng_def pm_inv_mng)

lemma ac_inv_upd [wf_intros]: "ac_inv S ac \<Longrightarrow> em_inv m \<Longrightarrow> wp_inv wp \<Longrightarrow> ac_inv S (ac_upd i m wp ac)"
  by (simp add: ac_inv_def ac_upd_def pm_inv_put)

lemma ac_mng_upd:
  "ac_inv S ac \<Longrightarrow> ac_mng (ac_upd i m wp ac) j =
     (if PlogMng_slot (ac_pmn ac) j = PlogMng_slot (ac_pmn ac) i then m else ac_mng ac j)"
  by (simp add: ac_inv_def ac_upd_def ac_mng_def)

lemma ac_upd_fields [simp]:
  "ac_config (ac_upd i m wp ac) = ac_config ac" "ac_wpool (ac_upd i m wp ac) = wp"
  "ac_upd i m' wp' (ac_upd i m wp ac) = ac_upd i m' wp' ac"
  by (simp_all add: ac_upd_def)

text \<open>A call on the manager of the instance, and what it means for the operations used.\<close>

lemma ac_plog_call:
  assumes "ac_inv S ac" and "em_inv m"
  shows "ac_plog (PlogMng_call S i f) (ac_upd i m wp ac) =
    map_option (\<lambda>(m', r). (ac_upd i m' wp ac, r)) (f m)"
proof -
  have "pm_inv (PlogMng_put i m (ac_pmn ac))" using assms by (simp add: ac_inv_def pm_inv_put)
  then show ?thesis using assms
    by (simp add: ac_plog_def ac_upd_def PlogMng_call_inv ac_inv_def split: option.splits)
qed

lemma ac_plog_ops:
  assumes "ac_inv S ac" and "em_inv m"
  shows ac_plog_last: "ac_plog (PlogMng_GetMaxChosenEntry S i) (ac_upd i m wp ac) =
      Some (ac_upd i m wp ac, em_last_chosen_entry m)"
    and ac_plog_ensure: "ac_plog (\<lambda>pm. map_option (\<lambda>pm'. (pm', ()))
        (PlogMng_GetEntryAndCreateIfNotExist S i k pm)) (ac_upd i m wp ac) =
      map_option (\<lambda>m'. (ac_upd i m' wp ac, ())) (EntryMng_GetEntryAndCreateIfNotExist S k m)"
    and ac_plog_global: "ac_plog (\<lambda>pm. map_option (\<lambda>pm'. (pm', ()))
        (PlogMng_SetGlobalMaxChosenEntry S i k pm)) (ac_upd i m wp ac) =
      Some (ac_upd i (EntryMng_SetGlobalMaxChosenEntry k m) wp ac, ())"
    and ac_plog_at: "PlogMng_at (ac_pmn (ac_upd i m wp ac)) i k = EntryMng_at m k"
    and ac_plog_write: "PlogMng_write i k e (ac_pmn (ac_upd i m wp ac)) =
      PlogMng_put i (EntryMng_write k e m) (ac_pmn ac)"
proof -
  have inv: "pm_inv (PlogMng_put i m (ac_pmn ac))" using assms by (simp add: ac_inv_def pm_inv_put)
  have pm: "pm_inv (ac_pmn ac)" using assms(1) by (simp add: ac_inv_def)
  have slot: "pm_mngs (PlogMng_put i m (ac_pmn ac)) ! PlogMng_slot (ac_pmn ac) i = Some m"
    using PlogMng_slot_less [OF pm, of i] by (simp add: PlogMng_put_def)
  show "ac_plog (PlogMng_GetMaxChosenEntry S i) (ac_upd i m wp ac) =
      Some (ac_upd i m wp ac, em_last_chosen_entry m)"
    unfolding PlogMng_GetMaxChosenEntry_def by (simp add: ac_plog_call [OF assms])
  have unit: "ac_plog (\<lambda>pm. map_option (\<lambda>pm'. (pm', ())) (map_option fst (PlogMng_call S i g pm))) a =
      map_option (\<lambda>(x, _). (x, ())) (ac_plog (PlogMng_call S i g) a)"
    for g :: "'a EntryMng \<Rightarrow> ('a EntryMng \<times> unit) option" and a :: "('a, 'b) Acceptor"
    by (auto simp: ac_plog_def split: option.splits)
  show "ac_plog (\<lambda>pm. map_option (\<lambda>pm'. (pm', ()))
        (PlogMng_GetEntryAndCreateIfNotExist S i k pm)) (ac_upd i m wp ac) =
      map_option (\<lambda>m'. (ac_upd i m' wp ac, ())) (EntryMng_GetEntryAndCreateIfNotExist S k m)"
    unfolding PlogMng_GetEntryAndCreateIfNotExist_def unit ac_plog_call [OF assms]
    by (cases "EntryMng_GetEntryAndCreateIfNotExist S k m") simp_all
  show "ac_plog (\<lambda>pm. map_option (\<lambda>pm'. (pm', ()))
        (PlogMng_SetGlobalMaxChosenEntry S i k pm)) (ac_upd i m wp ac) =
      Some (ac_upd i (EntryMng_SetGlobalMaxChosenEntry k m) wp ac, ())"
    unfolding PlogMng_SetGlobalMaxChosenEntry_def unit ac_plog_call [OF assms] by simp
  have "pm_mngs (PlogMng_put i m (ac_pmn ac)) \<noteq> []" using inv by (simp add: pm_inv_def)
  then show "PlogMng_at (ac_pmn (ac_upd i m wp ac)) i k = EntryMng_at m k"
    using slot by (simp add: PlogMng_at_def ac_upd_def)
  show "PlogMng_write i k e (ac_pmn (ac_upd i m wp ac)) =
      PlogMng_put i (EntryMng_write k e m) (ac_pmn ac)"
    using slot by (simp add: PlogMng_write_def ac_upd_def)
      (simp add: PlogMng_put_def)
qed

section \<open>The lag check\<close>

definition ac_lags :: "('db, 'cb) Acceptor \<Rightarrow> Proposal \<Rightarrow> bool" where
  "ac_lags ac pp \<longleftrightarrow> em_last_chosen_entry (ac_mng ac (p_pinst pp)) \<noteq> npos \<and>
     em_last_chosen_entry (ac_mng ac (p_pinst pp)) \<ge> p_pentry pp"

lemma WorkerPool_AddWork_inv:
  assumes "wp_inv p"
  obtains p' r where "WorkerPool_AddWork wid d p = Some (p', r)" "wp_inv p'"
proof (cases "wp_status p = 1")
  case True
  show thesis by (rule WorkerPool_AddWork_cases [OF assms True, of wid d]) (auto intro: that)
next
  case False
  with assms that show thesis by (simp add: WorkerPool_AddWork_def)
qed

lemma em_global_view [simp]:
  "EntryMng_view S k (m\<lparr>em_global_max_chosen_entry := g\<rparr>) = EntryMng_view S k m"
  by (simp add: EntryMng_view_def EntryMng_fresh_def split: option.splits)

lemma em_keeps_global: "em_keeps k (m\<lparr>em_global_max_chosen_entry := g\<rparr>) m' = em_keeps k m m'"
  by (simp add: em_keeps_def em_room_def)

lemma Check_lags:
  assumes "ac_inv S ac" and "ac_lags ac pp"
  shows "Acceptor_CheckLocalAndMayTriggerCatchup S pp ac = Some (ac, err kErrCode_REMOTE_NEED_CATCHUP)"
  using assms ac_plog_last [OF assms(1) ac_inv_mng [OF assms(1), of "p_pinst pp"], of "p_pinst pp" "ac_wpool ac"]
  by (simp add: Acceptor_CheckLocalAndMayTriggerCatchup_def ac_upd_self ac_lags_def)

lemma Check_ok:
  assumes "ac_inv S ac" and "\<not> ac_lags ac pp"
  obtains g wp where
    "Acceptor_CheckLocalAndMayTriggerCatchup S pp ac =
       Some (ac_upd (p_pinst pp) ((ac_mng ac (p_pinst pp))\<lparr>em_global_max_chosen_entry := g\<rparr>) wp ac, 0)"
    "wp_inv wp"
proof -
  let ?i = "p_pinst pp"
  let ?m = "ac_mng ac ?i"
  have em: "em_inv ?m" using assms(1) by (rule ac_inv_mng)
  have wp: "wp_inv (ac_wpool ac)" using assms(1) by (simp add: ac_inv_def)
  have last: "ac_plog (PlogMng_GetMaxChosenEntry S ?i) ac = Some (ac, em_last_chosen_entry ?m)"
    using ac_plog_last [OF assms(1) em, of ?i "ac_wpool ac"] ac_upd_self [OF assms(1)] by simp
  show thesis
  proof (cases "p_last_chosen pp > em_last_chosen_entry ?m")
    case False
    with assms(2) last show thesis
      using that [of "em_global_max_chosen_entry ?m" "ac_wpool ac"] ac_upd_self [OF assms(1), of ?i] wp
      by (auto simp: Acceptor_CheckLocalAndMayTriggerCatchup_def ac_lags_def)
  next
    case True
    obtain g where g: "EntryMng_SetGlobalMaxChosenEntry (p_last_chosen pp) ?m =
        ?m\<lparr>em_global_max_chosen_entry := g\<rparr>"
      by (metis EntryMng.surjective EntryMng.update_convs(9) EntryMng_SetGlobalMaxChosenEntry_def)
    let ?ac = "ac_upd ?i (?m\<lparr>em_global_max_chosen_entry := g\<rparr>) (ac_wpool ac) ac"
    have glob: "ac_plog (\<lambda>pm. map_option (\<lambda>pm'. (pm', ()))
        (PlogMng_SetGlobalMaxChosenEntry S ?i (p_last_chosen pp) pm)) ac = Some (?ac, ())"
      using ac_plog_global [OF assms(1) em, of ?i "p_last_chosen pp" "ac_wpool ac"]
        ac_upd_self [OF assms(1)] g by simp
    obtain wp' where trig: "Acceptor_TriggerLocalCatchup ?i (em_last_chosen_entry ?m + 1) ?ac =
        Some (ac_upd ?i (?m\<lparr>em_global_max_chosen_entry := g\<rparr>) wp' ac)" "wp_inv wp'"
    proof -
      let ?req = "(AllocProposalMsg 0)\<lparr>m_type := mt kMsgType_CHORE_CATCHUP,
         m_body := (m_body (AllocProposalMsg 0))\<lparr>p_pinst := ?i, p_pentry := em_last_chosen_entry ?m + 1\<rparr>\<rparr>"
      obtain p' r where "WorkerPool_AddWork ?i \<lparr>rq_cb = None, rq_msg = ?req\<rparr> (ac_wpool ac) = Some (p', r)"
        "wp_inv p'" by (rule WorkerPool_AddWork_inv [OF wp])
      then show thesis
        by (intro that [of p']) (simp_all add: Acceptor_TriggerLocalCatchup_def Acceptor_AddMsg_def
            ac_upd_def Let_def)
    qed
    from True assms(2) last glob trig show thesis
      by (intro that [of g wp']) (auto simp: Acceptor_CheckLocalAndMayTriggerCatchup_def ac_lags_def Let_def)
  qed
qed

section \<open>The prepare handler\<close>

definition saved_as :: "'db plog_env \<Rightarrow> 'db EntryMng \<Rightarrow> u64 \<Rightarrow> Entry \<Rightarrow> bool" where
  "saved_as S m k e \<longleftrightarrow> snd (SaveEntry S (em_db m) (em_pinst m) k e) = err kErrCode_OK"

lemma wf_prepare_answer:
  assumes "wf_Entry e" and "wf_Proposal pp"
  shows "of_nat (length (p_data (fst (prepare_answer saved pp e)))) < (0x80000000 :: u32)"
  using assms
  by (auto simp: prepare_answer_def wf_Entry_def wf_Proposal_def split: option.splits)

lemma ac_plog_SetPromised:
  assumes "ac_inv S ac" and "em_inv m" and "wf_Proposal p" and "EntryMng_at m (p_pentry p) = Some e"
  obtains m' where "ac_plog (PlogMng_SetPromised S p) (ac_upd (p_pinst p) m wp ac) =
      Some (ac_upd (p_pinst p) m' wp ac,
            snd (SaveEntry S (em_db m) (em_pinst m) (p_pentry p) (e\<lparr>en_promised := Some p\<rparr>)))"
    "em_inv m'" "EntryMng_at m' = (EntryMng_at m)(p_pentry p \<mapsto> e\<lparr>en_promised := Some p\<rparr>)"
    "em_keeps (p_pentry p) m m'" "em_meta m' = em_meta m"
proof -
  have wf: "wf_Entry (Entry_SetPromised (Some p) e)"
    using em_inv_cached [OF assms(2,4)] assms(3) by (simp add: wf_Entry_def Entry_SetPromised_def)
  from EntryMng_modify_cached [where f = "Entry_SetPromised (Some p)", OF assms(2,4) wf] obtain m' where
    m': "EntryMng_modify S (p_pentry p) (err kErrCode_ENTRY_NOT_EXIST) (Entry_SetPromised (Some p)) m =
          Some (m', snd (SaveEntry S (em_db m) (em_pinst m) (p_pentry p) (Entry_SetPromised (Some p) e)))"
      "em_inv m'" "EntryMng_at m' = (EntryMng_at m)(p_pentry p \<mapsto> Entry_SetPromised (Some p) e)"
      "em_meta m' = em_meta m" "LruMap_Capacity (em_entries m') = LruMap_Capacity (em_entries m)" by blast
  have "em_keeps (p_pentry p) m m'"
    using m' by (intro em_keeps_upd) (auto intro: em_meta_pinst)
  then show thesis
    using m' assms(3) by (intro that [of m'])
      (simp_all add: PlogMng_SetPromised_def ac_plog_call [OF assms(1,2)] EntryMng_SetPromised_def
        Entry_SetPromised_def)
qed

text \<open>
  The branches: the proposal that is answered with is the specified one, up to its status and
  to value bytes beyond the announced ones.
\<close>

lemma Acceptor_promise_impl:
  assumes "ac_inv S ac" and "em_inv m" and "wf_Proposal pp" and "EntryMng_at m (p_pentry pp) = Some e"
  obtains m' vsize p errcode status q where
    "Acceptor_promise S pp e (ac_upd (p_pinst pp) m wp ac) =
       Some (ac_upd (p_pinst pp) m' wp ac, vsize, p, errcode, status)"
    "prepare_answer (saved_as S m (p_pentry pp) (prepare_entry pp e)) pp e = (q, errcode, status)"
    "vsize < 0x80000000" "length (p_data q) = unat vsize" "unat vsize \<le> length (p_data p)"
    "q\<lparr>p_status := 0\<rparr> = p\<lparr>p_data := take (unat vsize) (p_data p), p_status := 0\<rparr>"
    "em_inv m'" "EntryMng_at m' (p_pentry pp) = Some (prepare_entry pp e)"
    "em_keeps (p_pentry pp) m m'" "em_meta m' = em_meta m"
proof -
  let ?pp = "pp\<lparr>p_status := st kPaxosState_PROMISED\<rparr>"
  have wfe: "wf_Entry e" using assms(2,4) by (rule em_inv_cached)
  have keep: "em_keeps (p_pentry pp) m m" by (simp add: em_keeps_def)
  consider (stores) "prepare_stores pp e" | (acc) q where "en_accepted e = Some q"
    | (prom) r where "en_accepted e = None" "en_promised e = Some r" "p_pid r \<ge> p_pid pp"
    | (probe) "en_accepted e = None" "en_promised e = None" "p_pid pp = 0"
    by (cases "en_accepted e"; cases "en_promised e")
      (auto simp: prepare_stores_def word_gt_0, metis linorder_not_le word_not_simps(1))
  then show thesis
  proof cases
    case stores
    have new: "Acceptor_promise S pp e a = Acceptor_new_promise S pp a" for a :: "('a, 'b) Acceptor"
      using stores by (auto simp: Acceptor_promise_def prepare_stores_def split: option.splits)
    have e': "prepare_entry pp e = e\<lparr>en_promised := Some ?pp\<rparr>"
      using stores by (auto simp: prepare_entry_def prepare_stores_def)
    have wf: "wf_Proposal ?pp" and at: "EntryMng_at m (p_pentry ?pp) = Some e" using assms(3,4) by simp_all
    obtain m' where m0: "ac_plog (PlogMng_SetPromised S ?pp) (ac_upd (p_pinst ?pp) m wp ac) =
        Some (ac_upd (p_pinst ?pp) m' wp ac,
              snd (SaveEntry S (em_db m) (em_pinst m) (p_pentry ?pp) (e\<lparr>en_promised := Some ?pp\<rparr>)))"
      "em_inv m'" "EntryMng_at m' = (EntryMng_at m)(p_pentry ?pp \<mapsto> e\<lparr>en_promised := Some ?pp\<rparr>)"
      "em_keeps (p_pentry ?pp) m m'" "em_meta m' = em_meta m"
      by (rule ac_plog_SetPromised [OF assms(1,2) wf at])
    have m': "ac_plog (PlogMng_SetPromised S ?pp) (ac_upd (p_pinst pp) m wp ac) =
        Some (ac_upd (p_pinst pp) m' wp ac, snd (SaveEntry S (em_db m) (em_pinst m) (p_pentry pp) (prepare_entry pp e)))"
      "em_inv m'" "EntryMng_at m' (p_pentry pp) = Some (prepare_entry pp e)"
      "em_keeps (p_pentry pp) m m'" "em_meta m' = em_meta m"
      using m0 by (simp_all add: e')
    show thesis
    proof (cases "saved_as S m (p_pentry pp) (prepare_entry pp e)")
      case True
      then show thesis
        using stores m' assms(3)
        by (intro that [of m' "p_size pp" ?pp 0 "st kPaxosState_PROMISED" pp])
          (auto simp: new Acceptor_new_promise_def prepare_stores_def prepare_answer_def saved_as_def
            wf_Proposal_def split: option.splits)
    next
      case False
      then show thesis
        using stores m' assms(3)
        by (intro that [of m' 0 ?pp "err kErrCode_WRITE_PLOG_FAIL" "st kPaxosState_PROMISED_FAILED" "pp\<lparr>p_data := []\<rparr>"])
          (auto simp: new Acceptor_new_promise_def prepare_stores_def prepare_answer_def saved_as_def
            split: option.splits)
    qed
  next
    case (acc q)
    then have "prepare_entry pp e = e" "wf_Proposal q" using wfe by (auto simp: prepare_entry_def wf_Entry_def)
    then show thesis
      using acc keep assms by (intro that [of m "p_size q" q 0 "st kPaxosState_ACCEPTED" q])
        (auto simp: Acceptor_promise_def prepare_answer_def wf_Proposal_def)
  next
    case (prom r)
    then have "prepare_entry pp e = e" "wf_Proposal r" using wfe by (auto simp: prepare_entry_def wf_Entry_def)
    then show thesis
      using prom keep assms by (intro that [of m "p_size r" r 0 "st kPaxosState_PROMISED" r])
        (auto simp: Acceptor_promise_def prepare_answer_def wf_Proposal_def)
  next
    case probe
    then have "prepare_entry pp e = e" by (auto simp: prepare_entry_def)
    then show thesis
      using probe keep assms by (intro that [of m "p_size pp" pp 0 "st kPaxosState_PROMISED" pp])
        (auto simp: Acceptor_promise_def Acceptor_new_promise_def prepare_answer_def wf_Proposal_def)
  qed
qed

lemma ensure_view:
  assumes "ac_inv S ac" and "\<not> ac_lags ac pp"
  obtains m' wp ac1 where
    "Acceptor_CheckLocalAndMayTriggerCatchup S pp ac = Some (ac1, 0)"
    "ac_plog (\<lambda>pm. map_option (\<lambda>pm'. (pm', ()))
       (PlogMng_GetEntryAndCreateIfNotExist S (p_pinst pp) (p_pentry pp) pm)) ac1 =
     Some (ac_upd (p_pinst pp) m' wp ac, ())"
    "wp_inv wp" "em_inv m'"
    "EntryMng_at m' (p_pentry pp) = Some (EntryMng_view S (p_pentry pp) (ac_mng ac (p_pinst pp)))"
    "em_keeps (p_pentry pp) (ac_mng ac (p_pinst pp)) m'"
    "em_db m' = em_db (ac_mng ac (p_pinst pp))" "em_pinst m' = em_pinst (ac_mng ac (p_pinst pp))"
    "em_last_chosen_entry m' = em_last_chosen_entry (ac_mng ac (p_pinst pp))"
proof -
  let ?i = "p_pinst pp" and ?k = "p_pentry pp"
  let ?m = "ac_mng ac ?i"
  obtain g wp where chk: "Acceptor_CheckLocalAndMayTriggerCatchup S pp ac =
       Some (ac_upd ?i (?m\<lparr>em_global_max_chosen_entry := g\<rparr>) wp ac, 0)" and wp: "wp_inv wp"
    by (rule Check_ok [OF assms])
  have S: "env_ok S" using assms(1) by (simp add: ac_inv_def)
  have em: "em_inv (?m\<lparr>em_global_max_chosen_entry := g\<rparr>)" using ac_inv_mng [OF assms(1)] by simp
  obtain m' where m': "EntryMng_GetEntryAndCreateIfNotExist S ?k (?m\<lparr>em_global_max_chosen_entry := g\<rparr>) = Some m'"
    "em_inv m'" "EntryMng_at m' ?k = Some (EntryMng_view S ?k (?m\<lparr>em_global_max_chosen_entry := g\<rparr>))"
    "em_keeps ?k (?m\<lparr>em_global_max_chosen_entry := g\<rparr>) m'"
    "em_db m' = em_db (?m\<lparr>em_global_max_chosen_entry := g\<rparr>)"
    "em_pinst m' = em_pinst (?m\<lparr>em_global_max_chosen_entry := g\<rparr>)"
    "em_last_chosen_entry m' = em_last_chosen_entry (?m\<lparr>em_global_max_chosen_entry := g\<rparr>)"
    by (rule EntryMng_ensure [OF S em])
  show thesis
    by (rule that [OF chk _ wp m'(2)])
      (use m' in \<open>simp_all add: ac_plog_ensure [OF assms(1) em] em_keeps_global\<close>)
qed

lemma handlePrepareReq_impl:
  assumes "ac_inv S ac" and "wf_Proposal pp" and "\<not> ac_lags ac pp"
    and "m = ac_mng ac (p_pinst pp)" and "e = EntryMng_view S (p_pentry pp) m"
  obtains m' wp where
    "Acceptor_handlePrepareReq S pp ac = Some (ac_upd (p_pinst pp) m' wp ac,
       prepare_reply (saved_as S m (p_pentry pp) (prepare_entry pp e)) (em_last_chosen_entry m) pp e)"
    "wp_inv wp" "em_inv m'" "EntryMng_at m' (p_pentry pp) = Some (prepare_entry pp e)"
    "em_keeps (p_pentry pp) m m'" "em_last_chosen_entry m' = em_last_chosen_entry m"
proof -
  let ?i = "p_pinst pp" and ?k = "p_pentry pp"
  obtain m1 wp ac1 where c: "Acceptor_CheckLocalAndMayTriggerCatchup S pp ac = Some (ac1, 0)"
    "ac_plog (\<lambda>pm. map_option (\<lambda>pm'. (pm', ()))
       (PlogMng_GetEntryAndCreateIfNotExist S ?i ?k pm)) ac1 = Some (ac_upd ?i m1 wp ac, ())"
    "wp_inv wp" "em_inv m1" "EntryMng_at m1 ?k = Some (EntryMng_view S ?k (ac_mng ac ?i))"
    "em_keeps ?k (ac_mng ac ?i) m1" "em_db m1 = em_db (ac_mng ac ?i)"
    "em_pinst m1 = em_pinst (ac_mng ac ?i)"
    "em_last_chosen_entry m1 = em_last_chosen_entry (ac_mng ac ?i)"
    by (rule ensure_view [OF assms(1,3)])
  have at: "EntryMng_at m1 ?k = Some e" using c(5) assms(4,5) by simp
  obtain m' vsize p errcode status q where p:
    "Acceptor_promise S pp e (ac_upd ?i m1 wp ac) = Some (ac_upd ?i m' wp ac, vsize, p, errcode, status)"
    "prepare_answer (saved_as S m1 ?k (prepare_entry pp e)) pp e = (q, errcode, status)"
    "vsize < 0x80000000" "length (p_data q) = unat vsize" "unat vsize \<le> length (p_data p)"
    "q\<lparr>p_status := 0\<rparr> = p\<lparr>p_data := take (unat vsize) (p_data p), p_status := 0\<rparr>"
    "em_inv m'" "EntryMng_at m' ?k = Some (prepare_entry pp e)" "em_keeps ?k m1 m'" "em_meta m' = em_meta m1"
    by (rule Acceptor_promise_impl [OF assms(1) c(4) assms(2) at])
  have last: "em_last_chosen_entry m' = em_last_chosen_entry m"
    using c(9) em_meta_last_chosen [OF p(10)] assms(4) by simp
  have saved: "saved_as S m1 = saved_as S m" using c(7,8) assms(4) by (simp add: saved_as_def fun_eq_iff)
  have body: "p\<lparr>p_data := take (unat vsize) (p_data p), p_status := x\<rparr> = q\<lparr>p_status := x\<rparr>" for x
    using arg_cong [where f = "\<lambda>r. r\<lparr>p_status := x\<rparr>", OF p(6)] by simp
  have copy: "memcpy_Proposal (m_body (AllocProposalMsg vsize)) p (unat vsize) =
      Some (p\<lparr>p_data := take (unat vsize) (p_data p)\<rparr>)"
    using p(5) by (simp add: memcpy_Proposal_def AllocProposalMsg_def calloc_Proposal_def)
  have "Acceptor_handlePrepareReq S pp ac = Some (ac_upd ?i m' wp ac,
      prepare_reply (saved_as S m1 ?k (prepare_entry pp e)) (em_last_chosen_entry m') pp e)"
    using c(1,2) at p(1,2,3,4) copy ac_plog_last [OF assms(1) p(7), of ?i wp] body
    by (simp add: Acceptor_handlePrepareReq_def Let_def ac_plog_at [OF assms(1) c(4)] prepare_reply_def
        not_le)
  then show thesis
    using c(3) p(7,8) em_keeps_trans [OF c(6) p(9)] at last assms(4) saved
    by (intro that [of m' wp]) simp_all
qed

lemma handlePrepareReq_lags:
  assumes "ac_inv S ac" and "ac_lags ac pp"
  shows "Acceptor_handlePrepareReq S pp ac = Some (ac,
    (AllocProposalMsg 0)\<lparr>m_errcode := err kErrCode_REMOTE_NEED_CATCHUP, m_type := mt kMsgType_PREPARE_RSP,
       m_body := pp\<lparr>p_data := [], p_status := st kPaxosState_REMOTE_LAG_BEHIND,
          p_last_chosen := em_last_chosen_entry (ac_mng ac (p_pinst pp)), p_last_chosen_from := - 1\<rparr>\<rparr>)"
proof -
  have "ac_plog (PlogMng_GetMaxChosenEntry S (p_pinst pp)) ac =
      Some (ac, em_last_chosen_entry (ac_mng ac (p_pinst pp)))"
    using ac_plog_last [OF assms(1) ac_inv_mng [OF assms(1)], of "p_pinst pp" "p_pinst pp" "ac_wpool ac"]
      ac_upd_self [OF assms(1)] by simp
  then show ?thesis
    using Check_lags [OF assms]
    by (simp add: Acceptor_handlePrepareReq_def Let_def memcpy_Proposal_def AllocProposalMsg_def
        calloc_Proposal_def)
qed

section \<open>The accept handler\<close>

lemma ac_modify:
  assumes "ac_inv S ac" and "em_inv m" and "EntryMng_at m k = Some e" and "wf_Entry (f e)"
  obtains m' where "ac_plog (PlogMng_call S i (EntryMng_modify S k nf f)) (ac_upd i m wp ac) =
      Some (ac_upd i m' wp ac, snd (SaveEntry S (em_db m) (em_pinst m) k (f e)))"
    "em_inv m'" "EntryMng_at m' = (EntryMng_at m)(k \<mapsto> f e)" "em_keeps k m m'" "em_meta m' = em_meta m"
proof -
  obtain m' where m': "EntryMng_modify S k nf f m = Some (m', snd (SaveEntry S (em_db m) (em_pinst m) k (f e)))"
    "em_inv m'" "EntryMng_at m' = (EntryMng_at m)(k \<mapsto> f e)" "em_meta m' = em_meta m"
    "em_db m' = fst (SaveEntry S (em_db m) (em_pinst m) k (f e))"
    "LruMap_Capacity (em_entries m') = LruMap_Capacity (em_entries m)"
    by (rule EntryMng_modify_cached [where f = f, OF assms(2,3,4)])
  then show thesis
    by (intro that [of m']) (auto simp: ac_plog_call [OF assms(1,2)] intro: em_keeps_upd em_meta_pinst)
qed

lemma Acceptor_store_impl:
  assumes "ac_inv S ac" and "em_inv m" and "wf_Proposal pp" and "EntryMng_at m (p_pentry pp) = Some e"
  obtains m' where "Acceptor_store S pp (ac_upd (p_pinst pp) m wp ac) =
      Some (ac_upd (p_pinst pp) m' wp ac, saved_as S m (p_pentry pp) (as_accepted pp e))"
    "em_inv m'" "EntryMng_at m' = (EntryMng_at m)(p_pentry pp \<mapsto> as_accepted pp e)"
    "em_keeps (p_pentry pp) m m'" "em_meta m' = em_meta m"
proof -
  let ?pp = "pp\<lparr>p_status := st kPaxosState_ACCEPTED\<rparr>"
  have f: "Entry_SetAccepted (Some ?pp) e = as_accepted pp e"
    by (simp add: Entry_SetAccepted_def as_accepted_def)
  have wf: "wf_Entry (Entry_SetAccepted (Some ?pp) e)"
    using em_inv_cached [OF assms(2,4)] assms(3) by (simp add: wf_Entry_def Entry_SetAccepted_def)
  obtain m' where m': "ac_plog (PlogMng_call S (p_pinst pp) (EntryMng_modify S (p_pentry pp)
      (err kErrCode_ENTRY_NOT_EXIST) (Entry_SetAccepted (Some ?pp)))) (ac_upd (p_pinst pp) m wp ac) =
      Some (ac_upd (p_pinst pp) m' wp ac,
            snd (SaveEntry S (em_db m) (em_pinst m) (p_pentry pp) (Entry_SetAccepted (Some ?pp) e)))"
    "em_inv m'" "EntryMng_at m' = (EntryMng_at m)(p_pentry pp \<mapsto> Entry_SetAccepted (Some ?pp) e)"
    "em_keeps (p_pentry pp) m m'" "em_meta m' = em_meta m"
    by (rule ac_modify [where f = "Entry_SetAccepted (Some ?pp)", OF assms(1,2,4) wf])
  have "PlogMng_SetAccepted S ?pp = PlogMng_call S (p_pinst pp) (EntryMng_modify S (p_pentry pp)
      (err kErrCode_ENTRY_NOT_EXIST) (Entry_SetAccepted (Some ?pp)))"
  proof -
    have "EntryMng_SetAccepted S ?pp = EntryMng_modify S (p_pentry pp) (err kErrCode_ENTRY_NOT_EXIST)
        (Entry_SetAccepted (Some ?pp))"
      using assms(3) by (intro ext) (simp add: EntryMng_SetAccepted_def)
    then show ?thesis by (simp add: PlogMng_SetAccepted_def)
  qed
  with m' show thesis
    by (intro that [of m']) (simp_all add: Acceptor_store_def saved_as_def f [simplified])
qed

text \<open>The entry between the decision and the clearing of the promise.\<close>

definition accept_mid :: "Proposal \<Rightarrow> Entry \<Rightarrow> Entry" where
  "accept_mid pp e = (if \<not> accept_duplicate pp e \<and> accept_stores pp e then as_accepted pp e else e)"

lemma accept_entry_mid:
  "accept_entry saved pp e =
     (if accept_ok saved pp e then (accept_mid pp e)\<lparr>en_promised := None\<rparr> else accept_mid pp e)"
  by (auto simp: accept_entry_def accept_ok_def accept_mid_def)

text \<open>The response keeps only the header, so the decision matters up to size, status and bytes.\<close>

definition header_of :: "Proposal \<Rightarrow> Proposal" where
  "header_of p = p\<lparr>p_data := [], p_size := 0, p_status := 0\<rparr>"

lemma Acceptor_accept_impl:
  assumes "ac_inv S ac" and "em_inv m" and "wf_Proposal pp" and "EntryMng_at m (p_pentry pp) = Some e"
    and "saved = saved_as S m (p_pentry pp) (as_accepted pp e)"
  obtains m' p where
    "Acceptor_accept S pp e (ac_upd (p_pinst pp) m wp ac) =
       Some (ac_upd (p_pinst pp) m' wp ac, accept_ok saved pp e, p, accept_errcode saved pp e)"
    "header_of p = header_of (accept_answer saved pp e)"
    "em_inv m'" "EntryMng_at m' (p_pentry pp) = Some (accept_mid pp e)"
    "em_keeps (p_pentry pp) m m'" "em_meta m' = em_meta m"
proof (cases "\<not> accept_duplicate pp e \<and> accept_stores pp e")
  case True
  obtain m' where m': "Acceptor_store S pp (ac_upd (p_pinst pp) m wp ac) =
      Some (ac_upd (p_pinst pp) m' wp ac, saved_as S m (p_pentry pp) (as_accepted pp e))"
    "em_inv m'" "EntryMng_at m' = (EntryMng_at m)(p_pentry pp \<mapsto> as_accepted pp e)"
    "em_keeps (p_pentry pp) m m'" "em_meta m' = em_meta m"
    by (rule Acceptor_store_impl [OF assms(1-4)])
  have at: "EntryMng_at m' (p_pentry pp) = Some (accept_mid pp e)"
    using m'(3) True by (simp add: accept_mid_def)
  have now: "PlogMng_at (ac_pmn (ac_upd (p_pinst pp) m' wp ac)) (p_pinst pp) (p_pentry pp) =
      Some (as_accepted pp e)"
    using ac_plog_at [OF assms(1) m'(2)] m'(3) by simp
  have ok: "accept_ok saved pp e = saved" "accept_answer saved pp e = pp"
    "accept_errcode saved pp e = (if saved then 0 else err kErrCode_WRITE_PLOG_FAIL)"
    using True by (auto simp: accept_ok_def accept_errcode_def accept_answer_def)
  obtain p where "Acceptor_accept S pp e (ac_upd (p_pinst pp) m wp ac) =
       Some (ac_upd (p_pinst pp) m' wp ac, saved, p, if saved then 0 else err kErrCode_WRITE_PLOG_FAIL)"
    "header_of p = header_of pp"
  proof (cases "en_accepted e")
    case None
    show thesis
      by (rule that [of "pp\<lparr>p_status := if saved then st kPaxosState_ACCEPTED
            else if en_promised e = None then st kPaxosState_FAST_ACCEPT_FAILED else st kPaxosState_PROMISED\<rparr>"])
        (use None True m'(1) assms(5) in
          \<open>auto simp: Acceptor_accept_def accept_stores_def header_of_def split: option.splits\<close>)
  next
    case (Some q)
    then have q: "p_status q = st kPaxosState_ACCEPTED" "p_pid q < p_pid pp"
      using True by (simp_all add: accept_stores_def)
    show thesis
      by (rule that [of "pp\<lparr>p_status := st kPaxosState_ACCEPTED\<rparr>"])
        (use Some q m'(1) now assms(5) in
          \<open>auto simp: Acceptor_accept_def header_of_def as_accepted_def\<close>)
  qed
  with m' at ok show thesis by (intro that [of m' p]) simp_all
next
  case False
  have mid: "accept_mid pp e = e" using False by (auto simp: accept_mid_def)
  have keep: "em_keeps (p_pentry pp) m m" by (simp add: em_keeps_def)
  obtain p where "Acceptor_accept S pp e (ac_upd (p_pinst pp) m wp ac) =
       Some (ac_upd (p_pinst pp) m wp ac, accept_ok saved pp e, p, accept_errcode saved pp e)"
    "header_of p = header_of (accept_answer saved pp e)"
  proof (cases "accept_duplicate pp e")
    case True
    then show thesis
      by (intro that [of "the (en_accepted e)"])
        (auto simp: Acceptor_accept_def accept_duplicate_def accept_ok_def accept_errcode_def
          accept_answer_def)
  next
    case nodup: False
    with False have "\<not> accept_stores pp e" by simp
    with nodup show thesis
      by (intro that [of "accept_answer saved pp e"])
        (auto simp: Acceptor_accept_def accept_ok_def accept_errcode_def accept_answer_def
          accept_stores_def accept_duplicate_def split: option.splits if_splits)
  qed
  with keep mid assms(2,4) show thesis by (intro that [of m p]) simp_all
qed

lemma handleAcceptReq_impl:
  assumes "ac_inv S ac" and "wf_Proposal pp" and "\<not> ac_lags ac pp"
    and "m = ac_mng ac (p_pinst pp)" and "e = EntryMng_view S (p_pentry pp) m"
    and "saved = saved_as S m (p_pentry pp) (as_accepted pp e)"
  obtains m' wp where
    "Acceptor_handleAcceptReq S pp ac = Some (ac_upd (p_pinst pp) m' wp ac,
       accept_reply saved (em_last_chosen_entry m) pp e)"
    "wp_inv wp" "em_inv m'" "EntryMng_at m' (p_pentry pp) = Some (accept_entry saved pp e)"
    "em_keeps (p_pentry pp) m m'" "em_last_chosen_entry m' = em_last_chosen_entry m"
proof -
  let ?i = "p_pinst pp" and ?k = "p_pentry pp"
  obtain m1 wp ac1 where c: "Acceptor_CheckLocalAndMayTriggerCatchup S pp ac = Some (ac1, 0)"
    "ac_plog (\<lambda>pm. map_option (\<lambda>pm'. (pm', ()))
       (PlogMng_GetEntryAndCreateIfNotExist S ?i ?k pm)) ac1 = Some (ac_upd ?i m1 wp ac, ())"
    "wp_inv wp" "em_inv m1" "EntryMng_at m1 ?k = Some (EntryMng_view S ?k (ac_mng ac ?i))"
    "em_keeps ?k (ac_mng ac ?i) m1" "em_db m1 = em_db (ac_mng ac ?i)"
    "em_pinst m1 = em_pinst (ac_mng ac ?i)"
    "em_last_chosen_entry m1 = em_last_chosen_entry (ac_mng ac ?i)"
    by (rule ensure_view [OF assms(1,3)])
  have at: "EntryMng_at m1 ?k = Some e" using c(5) assms(4,5) by simp
  have saved: "saved = saved_as S m1 ?k (as_accepted pp e)"
    using c(7,8) assms(4,6) by (simp add: saved_as_def)
  obtain m2 p where p:
    "Acceptor_accept S pp e (ac_upd ?i m1 wp ac) =
       Some (ac_upd ?i m2 wp ac, accept_ok saved pp e, p, accept_errcode saved pp e)"
    "header_of p = header_of (accept_answer saved pp e)"
    "em_inv m2" "EntryMng_at m2 ?k = Some (accept_mid pp e)" "em_keeps ?k m1 m2" "em_meta m2 = em_meta m1"
    by (rule Acceptor_accept_impl [OF assms(1) c(4) assms(2) at saved])
  have wf: "wf_Entry (Entry_SetPromised None (accept_mid pp e))"
    using em_inv_cached [OF p(3,4)] by (simp add: wf_Entry_def Entry_SetPromised_def)
  obtain m3 where m3: "ac_plog (PlogMng_call S ?i (EntryMng_modify S ?k (err kErrCode_PLOG_NOT_EXIST)
      (Entry_SetPromised None))) (ac_upd ?i m2 wp ac) = Some (ac_upd ?i m3 wp ac,
        snd (SaveEntry S (em_db m2) (em_pinst m2) ?k (Entry_SetPromised None (accept_mid pp e))))"
    "em_inv m3" "EntryMng_at m3 = (EntryMng_at m2)(?k \<mapsto> Entry_SetPromised None (accept_mid pp e))"
    "em_keeps ?k m2 m3" "em_meta m3 = em_meta m2"
    by (rule ac_modify [where f = "Entry_SetPromised None", OF assms(1) p(3,4) wf])
  have clear: "PlogMng_ClearPromised S ?i ?k = PlogMng_call S ?i (EntryMng_modify S ?k
      (err kErrCode_PLOG_NOT_EXIST) (Entry_SetPromised None))"
  proof -
    have "EntryMng_ClearPromised S ?i ?k = EntryMng_modify S ?k (err kErrCode_PLOG_NOT_EXIST)
        (Entry_SetPromised None)" by (intro ext) (simp add: EntryMng_ClearPromised_def)
    then show ?thesis by (simp add: PlogMng_ClearPromised_def)
  qed
  let ?m = "if accept_ok saved pp e then m3 else m2"
  have body: "p\<lparr>p_data := [], p_size := 0, p_last_chosen_from := a, p_last_chosen := b, p_status := x\<rparr> =
      (accept_answer saved pp e)\<lparr>p_data := [], p_size := 0, p_last_chosen_from := a, p_last_chosen := b,
         p_status := x\<rparr>" for a b x
    using arg_cong [where f = "\<lambda>r. r\<lparr>p_last_chosen_from := a, p_last_chosen := b, p_status := x\<rparr>", OF p(2)]
    by (simp add: header_of_def)
  have m: "ac_mng ac ?i = m" using assms(4) by simp
  have last: "em_last_chosen_entry m2 = em_last_chosen_entry m"
    using em_meta_last_chosen [OF p(6)] c(9) m by simp
  have "Acceptor_handleAcceptReq S pp ac = Some (ac_upd ?i ?m wp ac,
      accept_reply saved (em_last_chosen_entry m2) pp e)"
    using c(1,2) at p(1) m3(1) clear ac_plog_last [OF assms(1) p(3), of ?i wp] body
    by (simp add: Acceptor_handleAcceptReq_def Let_def ac_plog_at [OF assms(1) c(4)] accept_reply_def
        memcpy_Proposal_def AllocProposalMsg_def calloc_Proposal_def)
  moreover have "em_keeps ?k m ?m"
    using em_keeps_trans [OF c(6) p(5)] em_keeps_trans [of ?k m m2 m3] at p(4) m3(4) m by simp
  ultimately show thesis
    using c(3) p(3,4) m3(2,3) last em_meta_last_chosen [OF m3(5)]
    by (intro that [of ?m wp]) (simp_all add: accept_entry_mid Entry_SetPromised_def)
qed

lemma handleAcceptReq_lags:
  assumes "ac_inv S ac" and "ac_lags ac pp"
  shows "Acceptor_handleAcceptReq S pp ac = Some (ac,
    (AllocProposalMsg 0)\<lparr>m_errcode := err kErrCode_REMOTE_NEED_CATCHUP, m_type := mt kMsgType_ACCEPT_RSP,
       m_body := (AllocProposal 0)\<lparr>p_status := st kPaxosState_LOCAL_LAG_BEHIND, p_last_chosen_from := - 1,
          p_last_chosen := em_last_chosen_entry (ac_mng ac (p_pinst pp))\<rparr>\<rparr>)"
proof -
  have "ac_plog (PlogMng_GetMaxChosenEntry S (p_pinst pp)) ac =
      Some (ac, em_last_chosen_entry (ac_mng ac (p_pinst pp)))"
    using ac_plog_last [OF assms(1) ac_inv_mng [OF assms(1)], of "p_pinst pp" "p_pinst pp" "ac_wpool ac"]
      ac_upd_self [OF assms(1)] by simp
  then show ?thesis
    using Check_lags [OF assms]
    by (simp add: Acceptor_handleAcceptReq_def Let_def AllocProposalMsg_def AllocProposal_def)
qed

section \<open>The chosen handler\<close>

definition chosen_last :: "bool \<Rightarrow> Proposal \<Rightarrow> Entry \<Rightarrow> u64 \<Rightarrow> u64" where
  "chosen_last saved pp e last_chosen =
     (if chosen_applies pp e \<and> saved \<and> (last_chosen = npos \<or> last_chosen < p_pentry pp)
      then p_pentry pp else last_chosen)"

definition chosen_status :: "bool \<Rightarrow> Proposal \<Rightarrow> Entry \<Rightarrow> u32" where
  "chosen_status saved pp e =
     (if chosen_applies pp e
      then (if saved then st kPaxosState_CHOSEN else st kPaxosState_COMMIT_FAILED)
      else if \<exists>q. en_accepted e = Some q \<and> p_pid q = p_pid pp \<and> p_value_id q = p_value_id pp
      then st kPaxosState_ALREADY_CHOSEN else st kPaxosState_INVALID_PROPOSAL)"

lemma with_status_simps:
  "en_promised (with_status s e) = en_promised e" "with_status s (with_status s' e) = with_status s e"
  "wf_Entry e \<Longrightarrow> wf_Entry (with_status s e)"
  "en_accepted e = Some q \<Longrightarrow> en_accepted (with_status s e) = Some (q\<lparr>p_status := s\<rparr>)"
  by (auto simp: with_status_def wf_Entry_def option.map_comp comp_def pred_option_def)

lemma ac_ensure:
  assumes "ac_inv S ac" and "m = ac_mng ac i"
  obtains m' where
    "ac_plog (\<lambda>pm. map_option (\<lambda>pm'. (pm', ())) (PlogMng_GetEntryAndCreateIfNotExist S i k pm)) ac =
     Some (ac_upd i m' (ac_wpool ac) ac, ())"
    "em_inv m'" "EntryMng_at m' k = Some (EntryMng_view S k m)"
    "em_keeps k m m'" "em_db m' = em_db m" "em_pinst m' = em_pinst m"
    "em_last_chosen_entry m' = em_last_chosen_entry m"
proof -
  have S: "env_ok S" using assms(1) by (simp add: ac_inv_def)
  have em: "em_inv m" using ac_inv_mng [OF assms(1)] assms(2) by simp
  obtain m' where m': "EntryMng_GetEntryAndCreateIfNotExist S k m = Some m'" "em_inv m'"
    "EntryMng_at m' k = Some (EntryMng_view S k m)" "em_keeps k m m'" "em_db m' = em_db m"
    "em_pinst m' = em_pinst m" "em_last_chosen_entry m' = em_last_chosen_entry m"
    by (rule EntryMng_ensure [OF S em])
  show thesis
    by (rule that [of m']) (use m' ac_plog_ensure [OF assms(1) em, of i k "ac_wpool ac"]
        ac_upd_self [OF assms(1), of i] assms(2) in simp_all)
qed

lemma set_status_impl:
  assumes "ac_inv S ac" and "em_inv m" and "EntryMng_at m k = Some e" and "en_accepted e = Some q"
  shows "Acceptor_set_status i k s (ac_upd i m wp ac) = Some (ac_upd i (EntryMng_write k (with_status s e) m) wp ac)"
  using assms ac_plog_at [OF assms(1,2), of i wp k] ac_plog_write [OF assms(1,2), of i k "with_status s e" wp]
  by (simp add: Acceptor_set_status_def with_status_def) (simp add: ac_upd_def)

text \<open>A commit that applies: mark, save, and take the mark back when saving fails.\<close>

lemma commit_impl:
  assumes "ac_inv S ac" and "em_inv m" and "EntryMng_at m k = Some e" and "en_accepted e = Some q"
    and "saved = saved_as S m k (with_status (st kPaxosState_CHOSEN) e)"
  obtains m1 m2 rc where
    "Acceptor_set_status i k (st kPaxosState_CHOSEN) (ac_upd i m wp ac) = Some (ac_upd i m1 wp ac)"
    "ac_plog (PlogMng_SetChosen S i k) (ac_upd i m1 wp ac) = Some (ac_upd i m2 wp ac, rc)"
    "(rc = err kErrCode_OK) = saved" "em_inv m2"
    "EntryMng_at m2 k = Some (with_status (st kPaxosState_CHOSEN) e)" "em_keeps k m m2"
    "em_last_chosen_entry m2 =
       (if saved \<and> (em_last_chosen_entry m = npos \<or> em_last_chosen_entry m < k)
        then k else em_last_chosen_entry m)"
    "\<forall>s. Acceptor_set_status i k s (ac_upd i m2 wp ac) =
       Some (ac_upd i (EntryMng_write k (with_status s e) m2) wp ac)"
    "\<forall>s. em_keeps k m (EntryMng_write k (with_status s e) m2) \<and>
       em_inv (EntryMng_write k (with_status s e) m2) \<and>
       EntryMng_at (EntryMng_write k (with_status s e) m2) k = Some (with_status s e)"
proof -
  let ?e = "with_status (st kPaxosState_CHOSEN) e"
  let ?m1 = "EntryMng_write k ?e m"
  have wf: "wf_Entry (with_status s e)" for s
    using em_inv_cached [OF assms(2,3)] by (simp add: with_status_simps)
  note w = em_inv_write [OF assms(2,3) wf [of "st kPaxosState_CHOSEN"]]
  have at1: "EntryMng_at ?m1 k = Some ?e" using w(2) by simp
  have acc: "en_accepted ?e = Some (q\<lparr>p_status := st kPaxosState_CHOSEN\<rparr>)"
    by (rule with_status_simps(4) [OF assms(4)])
  have same: "?e\<lparr>en_accepted := Some ((q\<lparr>p_status := st kPaxosState_CHOSEN\<rparr>)\<lparr>p_status := st kPaxosState_CHOSEN\<rparr>)\<rparr> = ?e"
    using assms(4) by (simp add: with_status_def)
  let ?rc = "snd (SaveEntry S (em_db m) (em_pinst m) k ?e)"
  obtain m2 where s2: "EntryMng_SetChosen S k ?m1 = Some (m2, ?rc)"
    "em_inv m2" "EntryMng_at m2 = (EntryMng_at ?m1)(k \<mapsto> ?e)" "em_pinst m2 = em_pinst m"
    "em_max_in_used_entry m2 = em_max_in_used_entry m"
    "em_last_chosen_entry m2 = (if ?rc = err kErrCode_OK \<and>
        (em_last_chosen_entry m = npos \<or> em_last_chosen_entry m < k) then k else em_last_chosen_entry m)"
    "em_db m2 = fst (SaveEntry S (em_db m) (em_pinst m) k ?e)"
    "LruMap_Capacity (em_entries m2) = LruMap_Capacity (em_entries m)"
    by (rule EntryMng_SetChosen_cached [OF w(1) at1 acc, where S = S,
          unfolded same EntryMng_write_fields capacity_write])
  note m2 = s2(1-4,6,8)
  have keep2: "em_keeps k m m2"
    by (rule em_keeps_upd [of _ _ _ ?e]) (use m2 w(2) in simp_all)
  have at2: "EntryMng_at m2 k = Some ?e" using m2(3) by simp
  have set2: "Acceptor_set_status i k s (ac_upd i m2 wp ac) =
      Some (ac_upd i (EntryMng_write k (with_status s e) m2) wp ac)" for s
    using set_status_impl [OF assms(1) m2(2) at2 acc] by (simp only: with_status_simps(2))
  have w2: "em_inv (EntryMng_write k (with_status s e) m2)"
    "EntryMng_at (EntryMng_write k (with_status s e) m2) = (EntryMng_at m2)(k \<mapsto> with_status s e)" for s
    using em_inv_write [OF m2(2) at2 wf] by simp_all
  have keep3: "em_keeps k m (EntryMng_write k (with_status s e) m2)" for s
    by (rule em_keeps_trans [OF keep2 em_keeps_upd [OF w2(2)]]) (simp_all add: at2)
  have call: "ac_plog (PlogMng_SetChosen S i k) (ac_upd i ?m1 wp ac) =
      Some (ac_upd i m2 wp ac, snd (SaveEntry S (em_db m) (em_pinst m) k ?e))"
    unfolding PlogMng_SetChosen_def ac_plog_call [OF assms(1) w(1)] m2(1) by simp
  have rc: "(snd (SaveEntry S (em_db m) (em_pinst m) k ?e) = err kErrCode_OK) = saved"
    by (simp add: assms(5) saved_as_def)
  have undo: "em_keeps k m (EntryMng_write k (with_status s e) m2) \<and>
      em_inv (EntryMng_write k (with_status s e) m2) \<and>
      EntryMng_at (EntryMng_write k (with_status s e) m2) k = Some (with_status s e)" for s
    using keep3 w2(1) fun_cong [OF w2(2), where x = k] by simp
  show thesis
    by (rule that [OF set_status_impl [OF assms(1-4)] call rc m2(2) at2 keep2 _ allI [OF set2] allI [OF undo]])
      (use m2(5) in \<open>simp only: rc\<close>)
qed

lemma handleChosenReq_impl:
  assumes "ac_inv S ac" and "m = ac_mng ac (p_pinst pp)" and "e = EntryMng_view S (p_pentry pp) m"
    and "saved = saved_as S m (p_pentry pp) (with_status (st kPaxosState_CHOSEN) e)"
  obtains m' rsp where
    "Acceptor_handleChosenReq S pp ac = Some (ac_upd (p_pinst pp) m' (ac_wpool ac) ac, rsp)"
    "em_inv m'" "EntryMng_at m' (p_pentry pp) = Some (chosen_entry saved pp e)"
    "em_keeps (p_pentry pp) m m'"
    "em_last_chosen_entry m' = chosen_last saved pp e (em_last_chosen_entry m)"
    "p_status (m_body rsp) = chosen_status saved pp e"
proof -
  let ?i = "p_pinst pp" and ?k = "p_pentry pp" and ?wp = "ac_wpool ac"
  obtain m1 where c: "ac_plog (\<lambda>pm. map_option (\<lambda>pm'. (pm', ()))
      (PlogMng_GetEntryAndCreateIfNotExist S ?i ?k pm)) ac = Some (ac_upd ?i m1 ?wp ac, ())"
    "em_inv m1" "EntryMng_at m1 ?k = Some (EntryMng_view S ?k m)" "em_keeps ?k m m1" "em_db m1 = em_db m"
    "em_pinst m1 = em_pinst m" "em_last_chosen_entry m1 = em_last_chosen_entry m"
    by (rule ac_ensure [OF assms(1,2)])
  have at: "EntryMng_at m1 ?k = Some e" using c(3) assms(3) by simp
  note ent = ac_plog_at [OF assms(1) c(2), of ?i ?wp ?k] at
  have hdr: "memcpy_Proposal (m_body (AllocProposalMsg 0)) pp 0 = Some (pp\<lparr>p_data := []\<rparr>)"
    by (simp add: memcpy_Proposal_def AllocProposalMsg_def calloc_Proposal_def)
  show thesis
  proof (cases "chosen_applies pp e")
    case False
    then have "\<exists>rsp. Acceptor_handleChosenReq S pp ac = Some (ac_upd ?i m1 ?wp ac, rsp) \<and>
        p_status (m_body rsp) = chosen_status saved pp e"
      using c(1) ent hdr
      by (cases "en_accepted e") (auto simp: Acceptor_handleChosenReq_def Let_def chosen_applies_def
          chosen_status_def)
    then obtain rsp where r: "Acceptor_handleChosenReq S pp ac = Some (ac_upd ?i m1 ?wp ac, rsp)"
      "p_status (m_body rsp) = chosen_status saved pp e" by blast
    show thesis
      by (rule that [OF r(1) _ _ _ _ r(2)]) (use False c at in \<open>simp_all add: chosen_entry_def chosen_last_def\<close>)
  next
    case True
    then obtain q where q: "en_accepted e = Some q" "p_pid q = p_pid pp" "p_value_id q = p_value_id pp"
      "p_status q \<noteq> st kPaxosState_CHOSEN" by (auto simp: chosen_applies_def)
    have saved: "saved = saved_as S m1 ?k (with_status (st kPaxosState_CHOSEN) e)"
      using assms(4) c(5,6) by (simp add: saved_as_def)
    obtain m2 m3 rc where s: "Acceptor_set_status ?i ?k (st kPaxosState_CHOSEN) (ac_upd ?i m1 ?wp ac) =
        Some (ac_upd ?i m2 ?wp ac)"
      "ac_plog (PlogMng_SetChosen S ?i ?k) (ac_upd ?i m2 ?wp ac) = Some (ac_upd ?i m3 ?wp ac, rc)"
      "(rc = err kErrCode_OK) = saved" "em_inv m3"
      "EntryMng_at m3 ?k = Some (with_status (st kPaxosState_CHOSEN) e)" "em_keeps ?k m1 m3"
      "em_last_chosen_entry m3 = (if saved \<and> (em_last_chosen_entry m1 = npos \<or> em_last_chosen_entry m1 < ?k)
         then ?k else em_last_chosen_entry m1)"
      "\<forall>s. Acceptor_set_status ?i ?k s (ac_upd ?i m3 ?wp ac) =
         Some (ac_upd ?i (EntryMng_write ?k (with_status s e) m3) ?wp ac)"
      "\<forall>s. em_keeps ?k m1 (EntryMng_write ?k (with_status s e) m3) \<and>
         em_inv (EntryMng_write ?k (with_status s e) m3) \<and>
         EntryMng_at (EntryMng_write ?k (with_status s e) m3) ?k = Some (with_status s e)"
      by (rule commit_impl [OF assms(1) c(2) at q(1) saved])
    let ?m = "if saved then m3 else EntryMng_write ?k (with_status (st kPaxosState_ACCEPTED) e) m3"
    obtain rsp where r: "Acceptor_handleChosenReq S pp ac = Some (ac_upd ?i ?m ?wp ac, rsp)"
      "p_status (m_body rsp) = chosen_status saved pp e"
      using c(1) ent hdr q s(1,2,3,8) True ac_plog_last [OF assms(1) s(4), of ?i ?wp]
      by (cases saved) (simp_all add: Acceptor_handleChosenReq_def Let_def chosen_status_def)
    show thesis
    proof (rule that [OF r(1) _ _ _ _ r(2)])
      show "em_keeps ?k m ?m"
        using em_keeps_trans [OF c(4) s(6)] em_keeps_trans [OF c(4)] s(9) at by simp
    qed (use True s c(7) in \<open>simp_all add: chosen_entry_def chosen_last_def\<close>)
  qed
qed

end
