(* ===== verification/Synod_Acceptor.thy ===== *)
theory Synod_Acceptor
  imports Acceptor_Spec
begin

text \<open>
  The contract of an acceptor towards the protocol, as an interface, and that a log entry under
  the requests of core/acceptor.cpp meets it. The interface \<open>voting_history\<close> says what one
  acceptor owes: its bar never falls, it promises only while it has not voted, and it never
  votes below the bar. What follows from it is that no vote in the history of an acceptor lies
  below any promise in it.
\<close>

section \<open>The interface\<close>

locale voting_history =
  fixes ok :: "'s \<Rightarrow> bool"
    and step :: "'ev \<Rightarrow> 's \<Rightarrow> 's"
    and promised :: "'ev \<Rightarrow> 's \<Rightarrow> 'n::linorder option"
    and voted :: "'ev \<Rightarrow> 's \<Rightarrow> 'n option"
    and has_vote :: "'s \<Rightarrow> bool"
    and bar :: "'s \<Rightarrow> 'n"
  assumes ok_step: "ok s \<Longrightarrow> ok (step ev s)"
    and bar_step: "ok s \<Longrightarrow> bar s \<le> bar (step ev s)"
    and vote_step: "ok s \<Longrightarrow> has_vote s \<Longrightarrow> has_vote (step ev s)"
    and promise_law: "ok s \<Longrightarrow> promised ev s = Some b \<Longrightarrow> \<not> has_vote s \<and> b \<le> bar (step ev s)"
    and vote_law: "ok s \<Longrightarrow> voted ev s = Some b \<Longrightarrow> has_vote (step ev s) \<and> bar s \<le> b"
    and one_answer: "promised ev s = None \<or> voted ev s = None"
begin

text \<open>The promises \<open>P\<close> and votes \<open>V\<close> given so far, in a state \<open>s\<close>.\<close>

definition history :: "'s \<Rightarrow> 'n set \<Rightarrow> 'n set \<Rightarrow> bool" where
  "history s P V \<longleftrightarrow> ok s \<and> (\<forall>b \<in> P. b \<le> bar s) \<and> (V \<noteq> {} \<longrightarrow> has_vote s) \<and>
     (\<forall>b \<in> P. \<forall>v \<in> V. b \<le> v)"

lemma history_start: "ok s \<Longrightarrow> history s {} {}"
  by (simp add: history_def)

lemma history_step:
  assumes "history s P V"
  shows "history (step ev s) (P \<union> set_option (promised ev s)) (V \<union> set_option (voted ev s))"
proof -
  have s: "ok s" "\<forall>b \<in> P. b \<le> bar s" "V \<noteq> {} \<longrightarrow> has_vote s" "\<forall>b \<in> P. \<forall>v \<in> V. b \<le> v"
    using assms by (simp_all add: history_def)
  have bars: "\<forall>b \<in> P. b \<le> bar (step ev s)"
    using s(2) bar_step [OF s(1), of ev] by (meson order_trans)
  show ?thesis
  proof (cases "promised ev s")
    case (Some b)
    then have "voted ev s = None" using one_answer [of ev s] by simp
    moreover have "V = {}" using promise_law [OF s(1) Some] s(3) by blast
    ultimately show ?thesis
      using promise_law [OF s(1) Some] ok_step [OF s(1), of ev] bars Some by (simp add: history_def)
  next
    case None
    have "\<forall>b \<in> P. \<forall>v \<in> set_option (voted ev s). b \<le> v"
      using vote_law [OF s(1)] s(2) by (metis elem_set order_trans)
    moreover have "V \<union> set_option (voted ev s) \<noteq> {} \<longrightarrow> has_vote (step ev s)"
      using vote_law [OF s(1)] vote_step [OF s(1)] s(3) by fastforce
    ultimately show ?thesis
      using None s ok_step [OF s(1), of ev] bars by (auto simp: history_def)
  qed
qed

lemma history_subset: "history s P V \<Longrightarrow> P' \<subseteq> P \<Longrightarrow> V' \<subseteq> V \<Longrightarrow> history s P' V'"
  unfolding history_def by blast

lemma history_order: "history s P V \<Longrightarrow> b \<in> P \<Longrightarrow> v \<in> V \<Longrightarrow> b \<le> v"
  by (simp add: history_def)

end

text \<open>
  The second interface: what an acceptor holds as its accepted ballot only moves up, and a vote is for the ballot it
  then holds. So one acceptor never votes for two values under one number.
\<close>

locale ballot_history =
  fixes step :: "'ev \<Rightarrow> 's \<Rightarrow> 's"
    and ballot :: "'s \<Rightarrow> ('n::linorder \<times> 'v) option"
    and cast :: "'ev \<Rightarrow> 's \<Rightarrow> ('n \<times> 'v) option"
  assumes ballot_step: "ballot s = Some (b, v) \<Longrightarrow>
      \<exists>b' v'. ballot (step ev s) = Some (b', v') \<and> (b < b' \<or> b' = b \<and> v' = v)"
    and cast_ballot: "cast ev s = Some x \<Longrightarrow> ballot (step ev s) = Some x"
begin

definition balloted :: "'s \<Rightarrow> ('n \<times> 'v) set \<Rightarrow> bool" where
  "balloted s V \<longleftrightarrow> (\<forall>b v. (b, v) \<in> V \<longrightarrow> (\<exists>b' v'. ballot s = Some (b', v') \<and> (b < b' \<or> b' = b \<and> v' = v))) \<and>
     (\<forall>b v v'. (b, v) \<in> V \<longrightarrow> (b, v') \<in> V \<longrightarrow> v = v')"

lemma balloted_start: "balloted s {}"
  by (simp add: balloted_def)

lemma balloted_step:
  assumes "balloted s V"
  shows "balloted (step ev s) (V \<union> set_option (cast ev s))"
proof -
  have old: "\<exists>b' v'. ballot (step ev s) = Some (b', v') \<and> (b < b' \<or> b' = b \<and> v' = v)" if bv: "(b, v) \<in> V" for b v
  proof -
    obtain b1 v1 where "ballot s = Some (b1, v1)" "b < b1 \<or> b1 = b \<and> v1 = v"
      using assms bv unfolding balloted_def by blast
    with ballot_step [of s b1 v1 ev] show ?thesis by (metis order_less_trans)
  qed
  have new: "ballot (step ev s) = Some x" if "x \<in> set_option (cast ev s)" for x
    using that cast_ballot by auto
  have "v = v'" if "(b, v) \<in> V" "(b, v') \<in> set_option (cast ev s)" for b v v'
    using old [OF that(1)] new [OF that(2)] by auto
  moreover have "v = v'" if "(b, v) \<in> V" "(b, v') \<in> V" for b v v'
    using assms that unfolding balloted_def by blast
  ultimately have "v = v'" if "(b, v) \<in> V \<union> set_option (cast ev s)" "(b, v') \<in> V \<union> set_option (cast ev s)" for b v v'
    using that by (metis Pair_inject UnE elem_set option.inject)
  moreover have "\<exists>b' v'. ballot (step ev s) = Some (b', v') \<and> (b < b' \<or> b' = b \<and> v' = v)"
    if "(b, v) \<in> V \<union> set_option (cast ev s)" for b v
    using that old new by blast
  ultimately show ?thesis unfolding balloted_def by blast
qed

lemma balloted_subset: "balloted s V \<Longrightarrow> V' \<subseteq> V \<Longrightarrow> balloted s V'"
  unfolding balloted_def by blast

lemma balloted_unique: "balloted s V \<Longrightarrow> (b, v) \<in> V \<Longrightarrow> (b, v') \<in> V \<Longrightarrow> v = v'"
  unfolding balloted_def by blast

end

section \<open>A log entry as an acceptor\<close>

text \<open>
  An accepted proposal has one of the two statuses the handlers give it, and a promise that is
  kept beside it (saving failed before it could be cleared) is not above it.
\<close>

definition entry_ok :: "Entry \<Rightarrow> bool" where
  "entry_ok e \<longleftrightarrow>
     (\<forall>q. en_accepted e = Some q \<longrightarrow>
        (p_status q = st kPaxosState_ACCEPTED \<or> p_status q = st kPaxosState_CHOSEN) \<and>
        (\<forall>r. en_promised e = Some r \<longrightarrow> p_pid r \<le> p_pid q))"

lemma entry_ok_code [code]:
  "entry_ok e = pred_option (\<lambda>q.
     (p_status q = st kPaxosState_ACCEPTED \<or> p_status q = st kPaxosState_CHOSEN) \<and>
     pred_option (\<lambda>r. p_pid r \<le> p_pid q) (en_promised e)) (en_accepted e)"
  by (auto simp: entry_ok_def pred_option_def)

definition entry_bar :: "Entry \<Rightarrow> u64" where
  "entry_bar e =
     (case en_accepted e of
        Some q \<Rightarrow> p_pid q
      | None \<Rightarrow> (case en_promised e of Some r \<Rightarrow> p_pid r | None \<Rightarrow> 0))"

definition entry_voted :: "Entry \<Rightarrow> bool" where
  "entry_voted e \<longleftrightarrow> en_accepted e \<noteq> None"

text \<open>A request, with the outcome of the write that goes with it.\<close>

fun entry_step :: "bool \<times> PaxosMsg \<Rightarrow> Entry \<Rightarrow> Entry" where
  "entry_step (saved, msg) e =
     (if m_type msg = mt kMsgType_PREPARE_REQ then prepare_entry (m_body msg) e
      else if m_type msg = mt kMsgType_ACCEPT_REQ then accept_entry saved (m_body msg) e
      else if m_type msg = mt kMsgType_CHOSEN_REQ then chosen_entry saved (m_body msg) e
      else e)"

fun entry_promise :: "bool \<times> PaxosMsg \<Rightarrow> Entry \<Rightarrow> u64 option" where
  "entry_promise (saved, msg) e =
     (if m_type msg = mt kMsgType_PREPARE_REQ then
        (case prepare_answer saved (m_body msg) e of
           (p, errcode, status) \<Rightarrow> if status = st kPaxosState_PROMISED then Some (p_pid p) else None)
      else None)"

fun entry_vote :: "bool \<times> PaxosMsg \<Rightarrow> Entry \<Rightarrow> u64 option" where
  "entry_vote (saved, msg) e =
     (if m_type msg = mt kMsgType_ACCEPT_REQ \<and> accept_ok saved (m_body msg) e
      then Some (p_pid (m_body msg)) else None)"

lemma entry_ok_new [simp]: "entry_ok (Entry_new pinst k)"
  by (simp add: entry_ok_def)

lemma entry_ok_prepare: "entry_ok e \<Longrightarrow> entry_ok (prepare_entry pp e)"
  by (auto simp: entry_ok_def prepare_entry_def)

lemma entry_ok_accept: "entry_ok e \<Longrightarrow> entry_ok (accept_entry saved pp e)"
  by (auto simp: entry_ok_def accept_entry_def as_accepted_def accept_stores_def split: option.splits)

lemma entry_ok_chosen: "entry_ok e \<Longrightarrow> entry_ok (chosen_entry saved pp e)"
  by (auto simp: entry_ok_def chosen_entry_def with_status_def)

lemma entry_bar_prepare: "entry_bar e \<le> entry_bar (prepare_entry pp e)"
  by (auto simp: entry_bar_def prepare_entry_def split: option.splits)

lemma entry_bar_accept: "entry_bar e \<le> entry_bar (accept_entry saved pp e)"
  by (auto simp: entry_bar_def accept_entry_def as_accepted_def accept_stores_def accept_duplicate_def
      split: option.splits)

lemma entry_bar_chosen: "entry_bar (chosen_entry saved pp e) = entry_bar e"
  by (auto simp: entry_bar_def chosen_entry_def with_status_def chosen_applies_def split: option.splits)

lemma accept_ok_bar: "accept_ok saved pp e \<Longrightarrow> entry_bar e \<le> p_pid pp"
  by (auto simp: accept_ok_def entry_bar_def accept_stores_def accept_duplicate_def split: option.splits)

lemma accept_ok_voted: "accept_ok saved pp e \<Longrightarrow> entry_voted (accept_entry saved pp e)"
  by (auto simp: accept_ok_def entry_voted_def accept_entry_def as_accepted_def accept_duplicate_def)

interpretation log_entry: voting_history entry_ok entry_step entry_promise entry_vote entry_voted entry_bar
proof
  fix e :: Entry and ev :: "bool \<times> PaxosMsg" and b
  obtain saved msg where ev: "ev = (saved, msg)" by (cases ev)
  show "entry_ok (entry_step ev e)" if "entry_ok e"
    using that by (simp add: ev entry_ok_prepare entry_ok_accept entry_ok_chosen)
  show "entry_bar e \<le> entry_bar (entry_step ev e)"
    by (simp add: ev entry_bar_prepare entry_bar_accept entry_bar_chosen)
  show "entry_voted (entry_step ev e)" if "entry_voted e"
    using that by (auto simp: ev entry_voted_def prepare_entry_def accept_entry_def as_accepted_def
        chosen_entry_def with_status_def)
  show "\<not> entry_voted e \<and> b \<le> entry_bar (entry_step ev e)" if "entry_promise ev e = Some b"
    using that by (auto simp: ev entry_voted_def prepare_answer_def prepare_entry_def entry_bar_def
        split: option.splits if_splits)
  show "entry_voted (entry_step ev e) \<and> entry_bar e \<le> b" if "entry_vote ev e = Some b"
    using that by (auto simp: ev accept_ok_bar accept_ok_voted split: if_splits)
  show "entry_promise ev e = None \<or> entry_vote ev e = None"
    by (simp add: ev)
qed

definition entry_ballot :: "Entry \<Rightarrow> (u64 \<times> u64) option" where
  "entry_ballot e = map_option (\<lambda>q. (p_pid q, p_value_id q)) (en_accepted e)"

definition entry_cast :: "bool \<times> PaxosMsg \<Rightarrow> Entry \<Rightarrow> (u64 \<times> u64) option" where
  "entry_cast ev e = map_option (\<lambda>b. (b, p_value_id (m_body (snd ev)))) (entry_vote ev e)"

interpretation log_ballot: ballot_history entry_step entry_ballot entry_cast
proof
  fix e :: Entry and ev :: "bool \<times> PaxosMsg" and b v x
  obtain saved msg where ev: "ev = (saved, msg)" by (cases ev)
  show "\<exists>b' v'. entry_ballot (entry_step ev e) = Some (b', v') \<and> (b < b' \<or> b' = b \<and> v' = v)"
    if "entry_ballot e = Some (b, v)"
    using that by (auto simp: ev entry_ballot_def prepare_entry_def accept_entry_def as_accepted_def accept_stores_def
        chosen_entry_def with_status_def)
  show "entry_ballot (entry_step ev e) = Some x" if "entry_cast ev e = Some x"
    using that by (auto simp: ev entry_ballot_def entry_cast_def accept_ok_def accept_entry_def as_accepted_def
        accept_duplicate_def split: if_splits)
qed

section \<open>Requests to the acceptor\<close>

definition ac_entry :: "'db plog_env \<Rightarrow> ('db, 'cb) Acceptor \<Rightarrow> u64 \<Rightarrow> u64 \<Rightarrow> Entry" where
  "ac_entry S ac i k = EntryMng_view S k (ac_mng ac i)"

lemma ac_entry_upd:
  assumes "ac_inv S ac" and "EntryMng_at m k = Some e"
  shows "ac_entry S (ac_upd i m wp ac) i k = e" and "ac_mng (ac_upd i m wp ac) i = m"
  using assms by (simp_all add: ac_entry_def ac_mng_upd EntryMng_view_def)

text \<open>A request that gets to the entry, and whether the write it makes there succeeds.\<close>

definition reaches_entry :: "('db, 'cb) Acceptor \<Rightarrow> PaxosMsg \<Rightarrow> bool" where
  "reaches_entry ac msg \<longleftrightarrow>
     m_type msg = mt kMsgType_CHOSEN_REQ \<or>
     (m_type msg = mt kMsgType_PREPARE_REQ \<or> m_type msg = mt kMsgType_ACCEPT_REQ) \<and>
       \<not> ac_lags ac (m_body msg)"

definition write_ok :: "'db plog_env \<Rightarrow> ('db, 'cb) Acceptor \<Rightarrow> PaxosMsg \<Rightarrow> bool" where
  "write_ok S ac msg =
     (let pp = m_body msg; m = ac_mng ac (p_pinst pp); e = ac_entry S ac (p_pinst pp) (p_pentry pp)
      in saved_as S m (p_pentry pp)
           (if m_type msg = mt kMsgType_PREPARE_REQ then prepare_entry pp e
            else if m_type msg = mt kMsgType_ACCEPT_REQ then as_accepted pp e
            else with_status (st kPaxosState_CHOSEN) e))"

text \<open>What a response promises, and what it votes for.\<close>

definition answer_promise :: "PaxosMsg \<Rightarrow> PaxosMsg \<Rightarrow> u64 option" where
  "answer_promise msg rsp =
     (if m_type msg = mt kMsgType_PREPARE_REQ \<and> p_status (m_body rsp) = st kPaxosState_PROMISED
      then Some (p_pid (m_body rsp)) else None)"

definition answer_vote :: "PaxosMsg \<Rightarrow> PaxosMsg \<Rightarrow> u64 option" where
  "answer_vote msg rsp =
     (if m_type msg = mt kMsgType_ACCEPT_REQ \<and> p_status (m_body rsp) = st kPaxosState_ACCEPTED
      then Some (p_pid (m_body msg)) else None)"

lemma stamp_body [simp]: "m_body (Acceptor_stamp ac msg rsp) = m_body rsp"
  by (simp add: Acceptor_stamp_def)

text \<open>
  A request of any kind is handled to the end. One that reaches the entry acts on it as
  \<open>entry_step\<close> says, and is answered accordingly; any other leaves the log as it is and gets
  neither a promise nor a vote. \<open>handled\<close> says this of the new manager \<open>m'\<close>, the new pool
  \<open>wp\<close> and the answer \<open>out\<close>.
\<close>

definition handled ::
    "'db plog_env \<Rightarrow> ('db, 'cb) Acceptor \<Rightarrow> PaxosMsg \<Rightarrow> 'cb option \<Rightarrow> 'db EntryMng \<Rightarrow>
     'cb PaxosRequest WorkerPool \<Rightarrow> ('cb option \<times> PaxosMsg) option \<Rightarrow> bool" where
  "handled S ac msg cb m' wp out \<longleftrightarrow>
     (let pp = m_body msg; m = ac_mng ac (p_pinst pp);
          e = ac_entry S ac (p_pinst pp) (p_pentry pp); w = write_ok S ac msg
      in wp_inv wp \<and> em_inv m' \<and> em_keeps (p_pentry pp) m m' \<and>
         (if reaches_entry ac msg then EntryMng_at m' (p_pentry pp) = Some (entry_step (w, msg) e)
          else m' = m) \<and>
         (case out of
            None \<Rightarrow> m_type msg = mt kMsgType_CHORE_CATCHUP
          | Some (cb', rsp) \<Rightarrow> m_type msg \<noteq> mt kMsgType_CHORE_CATCHUP \<and> cb' = cb \<and>
              answer_promise msg rsp = (if reaches_entry ac msg then entry_promise (w, msg) e else None) \<and>
              answer_vote msg rsp = (if reaches_entry ac msg then entry_vote (w, msg) e else None)) \<and>
         em_last_chosen_entry m' =
           (if m_type msg = mt kMsgType_CHOSEN_REQ then chosen_last w pp e (em_last_chosen_entry m)
            else em_last_chosen_entry m))"

definition handles :: "'db plog_env \<Rightarrow> ('db, 'cb) Acceptor \<Rightarrow> PaxosMsg \<Rightarrow> 'cb option \<Rightarrow> bool" where
  "handles S ac msg cb \<longleftrightarrow> (\<exists>m' wp out.
     Acceptor_doHandleMsg S \<lparr>rq_cb = cb, rq_msg = msg\<rparr> ac =
       Some (ac_upd (p_pinst (m_body msg)) m' wp ac, out) \<and> handled S ac msg cb m' wp out)"

lemma handled_same:
  assumes "ac_inv S ac" and "\<not> reaches_entry ac msg"
    and "case out of
           None \<Rightarrow> m_type msg = mt kMsgType_CHORE_CATCHUP
         | Some (cb', rsp) \<Rightarrow> m_type msg \<noteq> mt kMsgType_CHORE_CATCHUP \<and> cb' = cb \<and>
             answer_promise msg rsp = None \<and> answer_vote msg rsp = None"
  shows "handled S ac msg cb (ac_mng ac (p_pinst (m_body msg))) (ac_wpool ac) out"
  using assms ac_inv_mng [OF assms(1)]
  by (auto simp: handled_def Let_def ac_inv_def em_keeps_def reaches_entry_def split: option.splits)

lemma handles_lag:
  assumes "ac_inv S ac" and "ac_lags ac (m_body msg)"
    and "m_type msg = mt kMsgType_PREPARE_REQ \<or> m_type msg = mt kMsgType_ACCEPT_REQ"
  shows "handles S ac msg cb"
proof -
  obtain rsp where "Acceptor_doHandleMsg S \<lparr>rq_cb = cb, rq_msg = msg\<rparr> ac = Some (ac, Some (cb, rsp))"
    "answer_promise msg rsp = None" "answer_vote msg rsp = None"
    using assms(3) handlePrepareReq_lags [OF assms(1,2)] handleAcceptReq_lags [OF assms(1,2)]
    by (auto simp: Acceptor_doHandleMsg_def Acceptor_dispatch_def answer_promise_def answer_vote_def)
  moreover have "\<not> reaches_entry ac msg" using assms(2,3) by (auto simp: reaches_entry_def)
  ultimately show ?thesis
    unfolding handles_def
    by (intro exI [of _ "ac_mng ac (p_pinst (m_body msg))"] exI [of _ "ac_wpool ac"] exI conjI
        handled_same [OF assms(1)]) (use assms(3) in \<open>auto simp: ac_upd_self [OF assms(1)]\<close>)
qed

lemma handles_prepare:
  assumes "ac_inv S ac" and "wf_PaxosMsg msg" and "m_type msg = mt kMsgType_PREPARE_REQ"
    and "\<not> ac_lags ac (m_body msg)"
  shows "handles S ac msg cb"
proof -
  let ?pp = "m_body msg"
  let ?m = "ac_mng ac (p_pinst ?pp)" and ?e = "ac_entry S ac (p_pinst ?pp) (p_pentry ?pp)"
  have w: "write_ok S ac msg = saved_as S ?m (p_pentry ?pp) (prepare_entry ?pp ?e)"
    using assms(3) by (simp add: write_ok_def Let_def)
  obtain m' wp where h: "Acceptor_handlePrepareReq S ?pp ac = Some (ac_upd (p_pinst ?pp) m' wp ac,
       prepare_reply (saved_as S ?m (p_pentry ?pp) (prepare_entry ?pp ?e)) (em_last_chosen_entry ?m) ?pp ?e)"
    "wp_inv wp" "em_inv m'" "EntryMng_at m' (p_pentry ?pp) = Some (prepare_entry ?pp ?e)"
    "em_keeps (p_pentry ?pp) ?m m'" "em_last_chosen_entry m' = em_last_chosen_entry ?m"
    by (rule handlePrepareReq_impl [OF assms(1) assms(2) [unfolded wf_PaxosMsg_def] assms(4) refl ac_entry_def])
  show ?thesis
    unfolding handles_def
    using assms(3,4) h w
    by (auto simp: Acceptor_doHandleMsg_def Acceptor_dispatch_def handled_def Let_def reaches_entry_def
        answer_promise_def answer_vote_def prepare_reply_def split: prod.splits)
qed

lemma handles_accept:
  assumes "ac_inv S ac" and "wf_PaxosMsg msg" and "m_type msg = mt kMsgType_ACCEPT_REQ"
    and "\<not> ac_lags ac (m_body msg)"
  shows "handles S ac msg cb"
proof -
  let ?pp = "m_body msg"
  let ?m = "ac_mng ac (p_pinst ?pp)" and ?e = "ac_entry S ac (p_pinst ?pp) (p_pentry ?pp)"
  have w: "write_ok S ac msg = saved_as S ?m (p_pentry ?pp) (as_accepted ?pp ?e)"
    using assms(3) by (simp add: write_ok_def Let_def)
  obtain m' wp where h: "Acceptor_handleAcceptReq S ?pp ac = Some (ac_upd (p_pinst ?pp) m' wp ac,
       accept_reply (write_ok S ac msg) (em_last_chosen_entry ?m) ?pp ?e)"
    "wp_inv wp" "em_inv m'" "EntryMng_at m' (p_pentry ?pp) = Some (accept_entry (write_ok S ac msg) ?pp ?e)"
    "em_keeps (p_pentry ?pp) ?m m'" "em_last_chosen_entry m' = em_last_chosen_entry ?m"
    by (rule handleAcceptReq_impl [OF assms(1) assms(2) [unfolded wf_PaxosMsg_def] assms(4) refl ac_entry_def w])
  show ?thesis
    unfolding handles_def
    using assms(3,4) h
    by (auto simp: Acceptor_doHandleMsg_def Acceptor_dispatch_def handled_def Let_def reaches_entry_def
        answer_promise_def answer_vote_def accept_reply_def)
qed

lemma handles_chosen:
  assumes "ac_inv S ac" and "m_type msg = mt kMsgType_CHOSEN_REQ"
  shows "handles S ac msg cb"
proof -
  let ?pp = "m_body msg"
  let ?m = "ac_mng ac (p_pinst ?pp)" and ?e = "ac_entry S ac (p_pinst ?pp) (p_pentry ?pp)"
  have w: "write_ok S ac msg = saved_as S ?m (p_pentry ?pp) (with_status (st kPaxosState_CHOSEN) ?e)"
    using assms(2) by (simp add: write_ok_def Let_def)
  obtain m' rsp where h: "Acceptor_handleChosenReq S ?pp ac = Some (ac_upd (p_pinst ?pp) m' (ac_wpool ac) ac, rsp)"
    "em_inv m'" "EntryMng_at m' (p_pentry ?pp) = Some (chosen_entry (write_ok S ac msg) ?pp ?e)"
    "em_keeps (p_pentry ?pp) ?m m'"
    "em_last_chosen_entry m' = chosen_last (write_ok S ac msg) ?pp ?e (em_last_chosen_entry ?m)"
    "p_status (m_body rsp) = chosen_status (write_ok S ac msg) ?pp ?e"
    by (rule handleChosenReq_impl [OF assms(1) refl ac_entry_def w])
  have "wp_inv (ac_wpool ac)" using assms(1) by (simp add: ac_inv_def)
  then show ?thesis
    unfolding handles_def
    using assms(2) h
    by (auto simp: Acceptor_doHandleMsg_def Acceptor_dispatch_def handled_def Let_def reaches_entry_def
        answer_promise_def answer_vote_def)
qed

lemma handles_catchup:
  fixes ac :: "('db, 'cb) Acceptor"
  assumes "ac_inv S ac" and "m_type msg = mt kMsgType_CHORE_CATCHUP"
  shows "handles S ac msg cb"
proof -
  let ?i = "p_pinst (m_body msg)"
  have call: "ac_plog (PlogMng_call S ?i (\<lambda>m. Some (m, f m))) ac = Some (ac, f (ac_mng ac ?i))"
    for f :: "'db EntryMng \<Rightarrow> u64"
    using ac_plog_call [OF assms(1) ac_inv_mng [OF assms(1)], of ?i "\<lambda>m. Some (m, f m)" ?i "ac_wpool ac"]
      ac_upd_self [OF assms(1)] by simp
  have "Acceptor_doCatchupFromPeer S (m_body msg) ac = Some ac"
    by (simp add: Acceptor_doCatchupFromPeer_def PlogMng_GetMaxChosenEntry_def
        PlogMng_GetMaxCommittedEntry_def PlogMng_GetGlobalMaxChosenEntry_def call)
  then have "Acceptor_doHandleMsg S \<lparr>rq_cb = cb, rq_msg = msg\<rparr> ac = Some (ac, None)"
    using assms(2) by (simp add: Acceptor_doHandleMsg_def Acceptor_dispatch_def)
  moreover have "\<not> reaches_entry ac msg" using assms(2) by (simp add: reaches_entry_def)
  ultimately show ?thesis
    unfolding handles_def
    by (intro exI [of _ "ac_mng ac ?i"] exI [of _ "ac_wpool ac"] exI [of _ None] conjI
        handled_same [OF assms(1)]) (use assms(2) in \<open>auto simp: ac_upd_self [OF assms(1)]\<close>)
qed

lemma handles_msg:
  assumes "ac_inv S ac" and "wf_PaxosMsg msg"
  shows "handles S ac msg cb"
proof -
  consider "m_type msg = mt kMsgType_PREPARE_REQ \<or> m_type msg = mt kMsgType_ACCEPT_REQ" "ac_lags ac (m_body msg)"
    | "m_type msg = mt kMsgType_PREPARE_REQ" "\<not> ac_lags ac (m_body msg)"
    | "m_type msg = mt kMsgType_ACCEPT_REQ" "\<not> ac_lags ac (m_body msg)"
    | "m_type msg = mt kMsgType_CHOSEN_REQ" | "m_type msg = mt kMsgType_CHORE_CATCHUP"
    | (other) "m_type msg \<notin> {mt kMsgType_PREPARE_REQ, mt kMsgType_ACCEPT_REQ, mt kMsgType_CHOSEN_REQ,
        mt kMsgType_CHORE_CATCHUP}" by blast
  then show ?thesis
  proof cases
    case other
    then obtain rsp where "Acceptor_doHandleMsg S \<lparr>rq_cb = cb, rq_msg = msg\<rparr> ac = Some (ac, Some (cb, rsp))"
      by (auto simp: Acceptor_doHandleMsg_def Acceptor_dispatch_def)
    moreover have "\<not> reaches_entry ac msg" using other by (simp add: reaches_entry_def)
    ultimately show ?thesis
      unfolding handles_def
      by (intro exI [of _ "ac_mng ac (p_pinst (m_body msg))"] exI [of _ "ac_wpool ac"] exI conjI
          handled_same [OF assms(1)])
        (use other in \<open>auto simp: ac_upd_self [OF assms(1)] answer_promise_def answer_vote_def\<close>)
  qed (use assms in \<open>simp_all add: handles_lag handles_prepare handles_accept handles_chosen handles_catchup\<close>)
qed

end
