(* ===== verification/Example_Node.thy ===== *)
theory Example_Node
  imports Synod_Acceptor
begin

text \<open>
  A small concrete node, on which the properties of the acceptor and of the group are run: a
  store that accepts every write and finds nothing, two log instances with room for four entries
  each, one worker with a queue of four requests.
\<close>

definition null_store :: "unit plog_env" where
  "null_store =
     \<lparr>LoadEntry = (\<lambda>db pinst k e. (e, err kErrCode_ENTRY_NOT_FOUND)),
      SaveEntry = (\<lambda>db pinst k e. ((), err kErrCode_OK)),
      LoadPlogMetaInfo = (\<lambda>db pinst. (\<lparr>mi_version = 0, mi_pinst = pinst, mi_last_committed = 0\<rparr>, err kErrCode_OK)),
      BatchLoadEntry = (\<lambda>db pinst b e. ([], err kErrCode_OK)),
      env_creator = (\<lambda>config pinst. Some (EntryMng_new () config pinst))\<rparr>"

text \<open>The same store with a disk that refuses every write.\<close>

definition full_disk :: "unit plog_env" where
  "full_disk = null_store\<lparr>SaveEntry := (\<lambda>db pinst k e. ((), err kErrCode_WRITE_PLOG_FAIL))\<rparr>"

definition example_config :: Configure where
  "example_config = (Configure_default \<lparr>ai_id = 1, ai_type = 3, ai_addr = ''a''\<rparr>)
     \<lparr>cf_entry_cache_num := 4, cf_plog_inst_num := 2, cf_acceptor_worker_count := 1,
      cf_worker_msg_queue_sz := 4\<rparr>"

definition example_acceptor :: "(unit, nat) Acceptor" where
  "example_acceptor =
     \<lparr>ac_wpool = WorkerPool_StartWorker 1 4 WorkerPool_new,
      ac_pmn = fst (PlogMng_InitPlog null_store \<lparr>pm_config = example_config, pm_mngs = []\<rparr>),
      ac_config = example_config\<rparr>"

text \<open>A proposal for entry 1 of instance 0, with one value byte.\<close>

definition example_proposal :: "u64 \<Rightarrow> u64 \<Rightarrow> Proposal" where
  "example_proposal pid vid =
     (AllocProposal 1)\<lparr>p_pid := pid, p_pentry := 1, p_value_id := vid, p_data := [7]\<rparr>"

definition example_msg :: "PaxosMsgType \<Rightarrow> u64 \<Rightarrow> u64 \<Rightarrow> PaxosMsg" where
  "example_msg t pid vid = (AllocProposalMsg 1)\<lparr>m_type := mt t, m_body := example_proposal pid vid\<rparr>"

lemma env_ok_null_store [simp]: "env_ok null_store"
  and env_ok_full_disk [simp]: "env_ok full_disk"
  by (simp_all add: env_ok_def null_store_def full_disk_def)

lemma wf_example [simp]: "wf_Proposal (example_proposal pid vid)" "wf_PaxosMsg (example_msg t pid vid)"
  by (simp_all add: wf_Proposal_def wf_PaxosMsg_def example_proposal_def example_msg_def AllocProposal_def)

lemma ac_inv_example [simp]: "ac_inv null_store example_acceptor" "ac_inv full_disk example_acceptor"
proof -
  have "wp_inv (WorkerPool_StartWorker 1 4 WorkerPool_new)"
    by (rule WorkerPool_StartWorker_inv) simp_all
  moreover have "pm_inv (fst (PlogMng_InitPlog null_store \<lparr>pm_config = example_config, pm_mngs = []\<rparr>))"
    by (rule PlogMng_InitPlog_inv)
      (auto simp: example_config_def Configure_default_def null_store_def intro!: em_inv_new)
  ultimately show "ac_inv null_store example_acceptor" "ac_inv full_disk example_acceptor"
    by (simp_all add: ac_inv_def example_acceptor_def)
qed

text \<open>Running a list of requests, each to its end.\<close>

fun run_requests :: "'db plog_env \<Rightarrow> PaxosMsg list \<Rightarrow> ('db, 'cb) Acceptor \<Rightarrow> ('db, 'cb) Acceptor option" where
  "run_requests S [] ac = Some ac"
| "run_requests S (msg # msgs) ac =
     (case Acceptor_doHandleMsg S \<lparr>rq_cb = None, rq_msg = msg\<rparr> ac of
        None \<Rightarrow> None | Some (ac', out) \<Rightarrow> run_requests S msgs ac')"

lemma ac_inv_handled: "ac_inv S ac \<Longrightarrow> handled S ac msg cb m' wp out \<Longrightarrow> ac_inv S (ac_upd i m' wp ac)"
  by (simp add: handled_def Let_def ac_inv_upd)

lemma run_requests_inv:
  "ac_inv S ac \<Longrightarrow> \<forall>msg \<in> set msgs. wf_PaxosMsg msg \<Longrightarrow>
   \<exists>ac'. run_requests S msgs ac = Some ac' \<and> ac_inv S ac'"
proof (induction msgs arbitrary: ac)
  case (Cons msg msgs)
  from handles_msg [OF Cons.prems(1), of msg None] Cons.prems(2) obtain m' wp out where
    "Acceptor_doHandleMsg S \<lparr>rq_cb = None, rq_msg = msg\<rparr> ac =
       Some (ac_upd (p_pinst (m_body msg)) m' wp ac, out)" "handled S ac msg None m' wp out"
    by (auto simp: handles_def)
  with Cons.IH [OF ac_inv_handled [OF Cons.prems(1)]] Cons.prems(2) show ?case by fastforce
qed simp

definition after_requests :: "PaxosMsg list \<Rightarrow> (unit, nat) Acceptor" where
  "after_requests msgs = the (run_requests null_store msgs example_acceptor)"

lemma ac_inv_after: "\<forall>msg \<in> set msgs. wf_PaxosMsg msg \<Longrightarrow> ac_inv null_store (after_requests msgs)"
  using run_requests_inv [OF ac_inv_example(1), of msgs] by (auto simp: after_requests_def)

section \<open>A store that remembers\<close>

text \<open>Entries by instance and number; loading gives back what was saved last.\<close>

type_synonym entry_store = "((u64 \<times> u64) \<times> Entry) list"

definition alist_store :: "entry_store plog_env" where
  "alist_store =
     \<lparr>LoadEntry = (\<lambda>db pinst k e.
        case map_of db (pinst, k) of Some e' \<Rightarrow> (e', err kErrCode_OK) | None \<Rightarrow> (e, err kErrCode_ENTRY_NOT_FOUND)),
      SaveEntry = (\<lambda>db pinst k e. (AList.update (pinst, k) e db, err kErrCode_OK)),
      LoadPlogMetaInfo = (\<lambda>db pinst. (\<lparr>mi_version = 0, mi_pinst = pinst, mi_last_committed = 0\<rparr>, err kErrCode_OK)),
      BatchLoadEntry = (\<lambda>db pinst b e.
        (take 1 (filter (\<lambda>x. b \<le> en_entry x \<and> en_entry x \<le> e)
           (map snd (filter (\<lambda>x. fst (fst x) = pinst) db))), err kErrCode_OK)),
      env_creator = (\<lambda>config pinst. Some (EntryMng_new [] config pinst))\<rparr>"

text \<open>A node on that store whose cache holds a single entry.\<close>

definition tiny_acceptor :: "(entry_store, nat) Acceptor" where
  "tiny_acceptor =
     (let config = example_config\<lparr>cf_entry_cache_num := 1\<rparr>
      in \<lparr>ac_wpool = WorkerPool_StartWorker 1 4 WorkerPool_new,
          ac_pmn = fst (PlogMng_InitPlog alist_store \<lparr>pm_config = config, pm_mngs = []\<rparr>),
          ac_config = config\<rparr>)"

definition for_entry :: "u64 \<Rightarrow> PaxosMsg \<Rightarrow> PaxosMsg" where
  "for_entry k msg = msg\<lparr>m_body := (m_body msg)\<lparr>p_pentry := k\<rparr>\<rparr>"

lemma wf_for_entry [simp]: "wf_PaxosMsg (for_entry k msg) = wf_PaxosMsg msg"
  by (simp add: wf_PaxosMsg_def wf_Proposal_def for_entry_def)

end
