(* ===== verification/Acceptor_Properties.thy ===== *)
theory Acceptor_Properties
  imports Example_Node
begin

text \<open>
  What the acceptor of core/acceptor.cpp guarantees to its callers, request by request, and two
  of its defects.
\<close>

section \<open>Entries after a request\<close>

lemma handled_entry:
  assumes "ac_inv S ac" and "handled S ac msg cb m' wp out" and "pp = m_body msg"
    and "i = p_pinst pp" and "k = p_pentry pp"
  shows "ac_entry S (ac_upd i m' wp ac) i k =
    (if reaches_entry ac msg then entry_step (write_ok S ac msg, msg) (ac_entry S ac i k)
     else ac_entry S ac i k)"
proof (cases "reaches_entry ac msg")
  case True
  then have "EntryMng_at m' k = Some (entry_step (write_ok S ac msg, msg) (ac_entry S ac i k))"
    using assms by (simp add: handled_def Let_def)
  from ac_entry_upd(1) [OF assms(1) this] True show ?thesis by (simp only: if_True)
next
  case False
  then have "m' = ac_mng ac i" using assms by (simp add: handled_def Let_def)
  with False show ?thesis by (simp add: ac_entry_def ac_mng_upd [OF assms(1)])
qed

lemma handled_cases:
  assumes "ac_inv S ac" and "wf_PaxosMsg msg"
  obtains m' wp out where
    "Acceptor_doHandleMsg S \<lparr>rq_cb = cb, rq_msg = msg\<rparr> ac =
       Some (ac_upd (p_pinst (m_body msg)) m' wp ac, out)"
    "handled S ac msg cb m' wp out" "ac_inv S (ac_upd (p_pinst (m_body msg)) m' wp ac)"
  using handles_msg [OF assms, of cb] ac_inv_handled [OF assms(1)] unfolding handles_def by blast

section \<open>Properties\<close>

text \<open>
  C7: Every request to an acceptor whose cache and queues are in order is handled to the end:
  no assertion fails, no pointer dangles, and the state stays in order. The log entry it names
  is changed exactly as the entry-level specification says if the request passes the lag check,
  and not at all otherwise.
\<close>

theorem acceptor_refines_entry:
  assumes "ac_inv S ac" and "wf_PaxosMsg msg" and "i = p_pinst (m_body msg)" and "k = p_pentry (m_body msg)"
  shows "\<exists>ac' out. Acceptor_doHandleMsg S \<lparr>rq_cb = cb, rq_msg = msg\<rparr> ac = Some (ac', out) \<and> ac_inv S ac' \<and>
    ac_entry S ac' i k =
      (if reaches_entry ac msg then entry_step (write_ok S ac msg, msg) (ac_entry S ac i k)
       else ac_entry S ac i k)"
proof -
  obtain m' wp out where h: "Acceptor_doHandleMsg S \<lparr>rq_cb = cb, rq_msg = msg\<rparr> ac =
       Some (ac_upd (p_pinst (m_body msg)) m' wp ac, out)"
    "handled S ac msg cb m' wp out" "ac_inv S (ac_upd (p_pinst (m_body msg)) m' wp ac)"
    by (rule handled_cases [OF assms(1,2)])
  with handled_entry [OF assms(1) h(2) refl refl refl] assms(3,4) show ?thesis by blast
qed

theorem acceptor_refines_entry_witness:
  "\<exists>ac' out. Acceptor_doHandleMsg null_store \<lparr>rq_cb = Some 3, rq_msg = example_msg kMsgType_PREPARE_REQ 5 9\<rparr>
      example_acceptor = Some (ac', out) \<and> ac_inv null_store ac' \<and>
    ac_entry null_store ac' 0 1 =
      entry_step (True, example_msg kMsgType_PREPARE_REQ 5 9) (ac_entry null_store example_acceptor 0 1)"
proof -
  have m: "0 = p_pinst (m_body (example_msg kMsgType_PREPARE_REQ 5 9))"
    "1 = p_pentry (m_body (example_msg kMsgType_PREPARE_REQ 5 9))"
    "reaches_entry example_acceptor (example_msg kMsgType_PREPARE_REQ 5 9)"
    "write_ok null_store example_acceptor (example_msg kMsgType_PREPARE_REQ 5 9) = True"
    by code_simp+
  then show ?thesis
    using acceptor_refines_entry [OF ac_inv_example(1) wf_example(2) m(1,2), of "Some 3"]
    by (simp only: m(3,4) if_True)
qed

text \<open>
  C8: An acceptor never votes below its bar (the id it has promised or, if higher, accepted): an
  accept request with a smaller proposal id is not answered with \<open>ACCEPTED\<close>, and the entry
  stays exactly as it was.
\<close>

theorem acceptor_keeps_promise:
  assumes "ac_inv S ac" and "wf_PaxosMsg msg" and "m_type msg = mt kMsgType_ACCEPT_REQ"
    and "i = p_pinst (m_body msg)" and "k = p_pentry (m_body msg)"
    and "p_pid (m_body msg) < entry_bar (ac_entry S ac i k)"
  shows "\<exists>ac' rsp. Acceptor_doHandleMsg S \<lparr>rq_cb = cb, rq_msg = msg\<rparr> ac = Some (ac', Some (cb, rsp)) \<and>
    p_status (m_body rsp) \<noteq> st kPaxosState_ACCEPTED \<and> ac_entry S ac' i k = ac_entry S ac i k"
proof -
  obtain m' wp out where h: "Acceptor_doHandleMsg S \<lparr>rq_cb = cb, rq_msg = msg\<rparr> ac =
       Some (ac_upd (p_pinst (m_body msg)) m' wp ac, out)"
    "handled S ac msg cb m' wp out" "ac_inv S (ac_upd (p_pinst (m_body msg)) m' wp ac)"
    by (rule handled_cases [OF assms(1,2)])
  have no: "\<not> accept_ok saved (m_body msg) (ac_entry S ac i k)"
    "accept_entry saved (m_body msg) (ac_entry S ac i k) = ac_entry S ac i k" for saved
    using assms(6) accept_ok_bar
    by (fastforce simp: accept_ok_def accept_entry_def)+
  obtain rsp where rsp: "out = Some (cb, rsp)" "answer_vote msg rsp = None"
    using h(2) assms(3-5) no(1) by (auto simp: handled_def Let_def split: option.splits if_splits)
  have "ac_entry S (ac_upd (p_pinst (m_body msg)) m' wp ac) i k = ac_entry S ac i k"
    using handled_entry [OF assms(1) h(2) refl refl refl] assms(3-5) no(2) by simp
  with h(1) rsp assms(3) show ?thesis by (auto simp: answer_vote_def split: if_splits)
qed

theorem acceptor_keeps_promise_witness:
  "\<exists>ac' rsp. Acceptor_doHandleMsg null_store \<lparr>rq_cb = Some 3, rq_msg = example_msg kMsgType_ACCEPT_REQ 4 9\<rparr>
      (after_requests [example_msg kMsgType_PREPARE_REQ 5 9]) = Some (ac', Some (Some 3, rsp)) \<and>
    p_status (m_body rsp) \<noteq> st kPaxosState_ACCEPTED \<and>
    ac_entry null_store ac' 0 1 = ac_entry null_store (after_requests [example_msg kMsgType_PREPARE_REQ 5 9]) 0 1"
proof (rule acceptor_keeps_promise)
  show "ac_inv null_store (after_requests [example_msg kMsgType_PREPARE_REQ 5 9])"
    by (rule ac_inv_after) simp
qed (simp | code_simp)+



text \<open>
  A positive answer to a prepare request is binding. When the answer is \<open>PROMISED\<close> and
  carries the id of the request (not a read probe), the entry afterwards has accepted nothing
  and holds a promise of exactly that id.
\<close>

theorem promise_answer_binding:
  assumes "ac_inv S ac" and "wf_PaxosMsg msg" and "m_type msg = mt kMsgType_PREPARE_REQ"
    and "i = p_pinst (m_body msg)" and "k = p_pentry (m_body msg)" and "0 < p_pid (m_body msg)"
    and "Acceptor_doHandleMsg S \<lparr>rq_cb = cb, rq_msg = msg\<rparr> ac = Some (ac', Some (cb', rsp))"
    and "p_status (m_body rsp) = st kPaxosState_PROMISED" and "p_pid (m_body rsp) = p_pid (m_body msg)"
  shows "en_accepted (ac_entry S ac' i k) = None \<and>
    (\<exists>r. en_promised (ac_entry S ac' i k) = Some r \<and> p_pid r = p_pid (m_body msg))"
proof -
  obtain m' wp out where h: "Acceptor_doHandleMsg S \<lparr>rq_cb = cb, rq_msg = msg\<rparr> ac =
       Some (ac_upd (p_pinst (m_body msg)) m' wp ac, out)"
    "handled S ac msg cb m' wp out" "ac_inv S (ac_upd (p_pinst (m_body msg)) m' wp ac)"
    by (rule handled_cases [OF assms(1,2)])
  have "answer_promise msg rsp = Some (p_pid (m_body msg))"
    using assms(3,8,9) by (simp add: answer_promise_def)
  then have reach: "reaches_entry ac msg"
    "entry_promise (write_ok S ac msg, msg) (ac_entry S ac i k) = Some (p_pid (m_body msg))"
    using h(1,2) assms(4,5,7) by (auto simp: handled_def Let_def split: if_splits)
  have "en_accepted (entry_step (w, msg) e) = None \<and>
      (\<exists>r. en_promised (entry_step (w, msg) e) = Some r \<and> p_pid r = p_pid (m_body msg))"
    if "entry_promise (w, msg) e = Some (p_pid (m_body msg))" for w e
    using that assms(3,6)
    by (auto simp: prepare_answer_def prepare_entry_def word_gt_0 split: option.splits if_splits)
  from this [OF reach(2)] handled_entry [OF assms(1) h(2) refl assms(4,5)] reach(1) h(1) assms(4,7)
  show ?thesis by simp
qed

theorem promise_answer_binding_witness:
  "en_accepted (ac_entry null_store (after_requests [example_msg kMsgType_PREPARE_REQ 5 9]) 0 1) = None \<and>
    (\<exists>r. en_promised (ac_entry null_store (after_requests [example_msg kMsgType_PREPARE_REQ 5 9]) 0 1) = Some r \<and>
       p_pid r = p_pid (m_body (example_msg kMsgType_PREPARE_REQ 5 9)))"
proof (rule promise_answer_binding [where ac = example_acceptor and cb = None and cb' = None])
  show "Acceptor_doHandleMsg null_store \<lparr>rq_cb = None, rq_msg = example_msg kMsgType_PREPARE_REQ 5 9\<rparr>
      example_acceptor = Some (after_requests [example_msg kMsgType_PREPARE_REQ 5 9],
        Some (None, (example_msg kMsgType_PREPARE_RSP 5 9)\<lparr>m_from := 1,
          m_body := (example_proposal 5 9)\<lparr>p_status := st kPaxosState_PROMISED,
            p_last_chosen := - 1, p_last_chosen_from := - 1\<rparr>\<rparr>))"
    by code_simp
qed (simp | code_simp)+

text \<open>
  A vote is stored before it is answered. When an accept request is answered with
  \<open>ACCEPTED\<close>, the entry afterwards holds a proposal with the id and the value id of the request,
  marked accepted or chosen, and no promise.
\<close>

theorem vote_answer_stored:
  assumes "ac_inv S ac" and "wf_PaxosMsg msg" and "m_type msg = mt kMsgType_ACCEPT_REQ"
    and "i = p_pinst (m_body msg)" and "k = p_pentry (m_body msg)"
    and "Acceptor_doHandleMsg S \<lparr>rq_cb = cb, rq_msg = msg\<rparr> ac = Some (ac', Some (cb', rsp))"
    and "p_status (m_body rsp) = st kPaxosState_ACCEPTED"
  shows "\<exists>q. ac_entry S ac' i k = (ac_entry S ac i k)\<lparr>en_accepted := Some q, en_promised := None\<rparr> \<and>
    p_pid q = p_pid (m_body msg) \<and> p_value_id q = p_value_id (m_body msg) \<and>
    (p_status q = st kPaxosState_ACCEPTED \<or> p_status q = st kPaxosState_CHOSEN)"
proof -
  obtain m' wp out where h: "Acceptor_doHandleMsg S \<lparr>rq_cb = cb, rq_msg = msg\<rparr> ac =
       Some (ac_upd (p_pinst (m_body msg)) m' wp ac, out)"
    "handled S ac msg cb m' wp out" "ac_inv S (ac_upd (p_pinst (m_body msg)) m' wp ac)"
    by (rule handled_cases [OF assms(1,2)])
  have "answer_vote msg rsp \<noteq> None" using assms(3,7) by (simp add: answer_vote_def)
  then have reach: "reaches_entry ac msg" "accept_ok (write_ok S ac msg) (m_body msg) (ac_entry S ac i k)"
    using h(1,2) assms(4-6) by (auto simp: handled_def Let_def split: if_splits)
  have "\<exists>q. entry_step (w, msg) e = e\<lparr>en_accepted := Some q, en_promised := None\<rparr> \<and>
      p_pid q = p_pid (m_body msg) \<and> p_value_id q = p_value_id (m_body msg) \<and>
      (p_status q = st kPaxosState_ACCEPTED \<or> p_status q = st kPaxosState_CHOSEN)"
    if "accept_ok w (m_body msg) e" for w e
  proof (cases "accept_duplicate (m_body msg) e")
    case True
    then obtain q where q: "en_accepted e = Some q" "p_pid q = p_pid (m_body msg)"
      "p_value_id q = p_value_id (m_body msg)"
      "p_status q = st kPaxosState_ACCEPTED \<or> p_status q = st kPaxosState_CHOSEN"
      by (auto simp: accept_duplicate_def)
    moreover have "e\<lparr>en_accepted := Some q\<rparr> = e" using q(1) by simp
    ultimately show ?thesis
      using True assms(3) by (intro exI [of _ q]) (simp add: accept_entry_def)
  next
    case False
    then show ?thesis
      using that assms(3) by (auto simp: accept_ok_def accept_entry_def as_accepted_def)
  qed
  from this [OF reach(2)] handled_entry [OF assms(1) h(2) refl assms(4,5)] reach(1) h(1) assms(4,6)
  show ?thesis by simp
qed

theorem vote_answer_stored_witness:
  "\<exists>q. ac_entry null_store (after_requests [example_msg kMsgType_ACCEPT_REQ 1 9]) 0 1 =
      (ac_entry null_store example_acceptor 0 1)\<lparr>en_accepted := Some q, en_promised := None\<rparr> \<and>
    p_pid q = p_pid (m_body (example_msg kMsgType_ACCEPT_REQ 1 9)) \<and>
    p_value_id q = p_value_id (m_body (example_msg kMsgType_ACCEPT_REQ 1 9)) \<and>
    (p_status q = st kPaxosState_ACCEPTED \<or> p_status q = st kPaxosState_CHOSEN)"
proof (rule vote_answer_stored [where cb = None and cb' = None])
  show "Acceptor_doHandleMsg null_store \<lparr>rq_cb = None, rq_msg = example_msg kMsgType_ACCEPT_REQ 1 9\<rparr>
      example_acceptor = Some (after_requests [example_msg kMsgType_ACCEPT_REQ 1 9],
        Some (None, (AllocProposalMsg 0)\<lparr>m_type := mt kMsgType_ACCEPT_RSP, m_from := 1,
          m_body := (example_proposal 1 9)\<lparr>p_data := [], p_size := 0, p_status := st kPaxosState_ACCEPTED,
            p_last_chosen := - 1, p_last_chosen_from := - 1\<rparr>\<rparr>))"
    by code_simp
qed (simp | code_simp)+



text \<open>
  C18: The number of the last chosen entry never goes back. A request leaves it alone, or it is a
  chosen request that raises it to its own entry, and then that entry is marked chosen.
\<close>

theorem last_chosen_monotone:
  assumes "ac_inv S ac" and "wf_PaxosMsg msg" and "i = p_pinst (m_body msg)" and "k = p_pentry (m_body msg)"
  shows "\<exists>ac' out. Acceptor_doHandleMsg S \<lparr>rq_cb = cb, rq_msg = msg\<rparr> ac = Some (ac', out) \<and>
    (em_last_chosen_entry (ac_mng ac' i) = em_last_chosen_entry (ac_mng ac i) \<or>
     m_type msg = mt kMsgType_CHOSEN_REQ \<and> em_last_chosen_entry (ac_mng ac' i) = k \<and>
     (em_last_chosen_entry (ac_mng ac i) = npos \<or> em_last_chosen_entry (ac_mng ac i) < k) \<and>
     (\<exists>q. en_accepted (ac_entry S ac' i k) = Some q \<and> p_status q = st kPaxosState_CHOSEN))"
proof -
  obtain m' wp out where h: "Acceptor_doHandleMsg S \<lparr>rq_cb = cb, rq_msg = msg\<rparr> ac =
       Some (ac_upd (p_pinst (m_body msg)) m' wp ac, out)"
    "handled S ac msg cb m' wp out" "ac_inv S (ac_upd (p_pinst (m_body msg)) m' wp ac)"
    by (rule handled_cases [OF assms(1,2)])
  let ?ac = "ac_upd (p_pinst (m_body msg)) m' wp ac"
  have mng: "ac_mng ?ac i = m'" using assms(3) by (simp add: ac_mng_upd [OF assms(1)])
  have ent: "en_accepted (ac_entry S ?ac i k) = en_accepted (chosen_entry (write_ok S ac msg) (m_body msg) (ac_entry S ac i k))"
    if "m_type msg = mt kMsgType_CHOSEN_REQ"
    using handled_entry [OF assms(1) h(2) refl refl refl] that assms(3,4) by (simp add: reaches_entry_def)
  have "em_last_chosen_entry m' = em_last_chosen_entry (ac_mng ac i) \<or>
     m_type msg = mt kMsgType_CHOSEN_REQ \<and> em_last_chosen_entry m' = k \<and>
     (em_last_chosen_entry (ac_mng ac i) = npos \<or> em_last_chosen_entry (ac_mng ac i) < k) \<and>
     (\<exists>q. en_accepted (ac_entry S ?ac i k) = Some q \<and> p_status q = st kPaxosState_CHOSEN)"
    using h(2) assms(3,4) ent
    by (auto simp: handled_def Let_def chosen_last_def chosen_entry_def chosen_applies_def with_status_def
        split: if_splits)
  with h(1) mng show ?thesis by auto
qed

theorem last_chosen_monotone_witness:
  "\<exists>ac' out. Acceptor_doHandleMsg null_store \<lparr>rq_cb = None, rq_msg = example_msg kMsgType_CHOSEN_REQ 1 9\<rparr>
      (after_requests [example_msg kMsgType_ACCEPT_REQ 1 9]) = Some (ac', out) \<and>
    (em_last_chosen_entry (ac_mng ac' 0) =
       em_last_chosen_entry (ac_mng (after_requests [example_msg kMsgType_ACCEPT_REQ 1 9]) 0) \<or>
     m_type (example_msg kMsgType_CHOSEN_REQ 1 9) = mt kMsgType_CHOSEN_REQ \<and>
     em_last_chosen_entry (ac_mng ac' 0) = 1 \<and>
     (em_last_chosen_entry (ac_mng (after_requests [example_msg kMsgType_ACCEPT_REQ 1 9]) 0) = npos \<or>
      em_last_chosen_entry (ac_mng (after_requests [example_msg kMsgType_ACCEPT_REQ 1 9]) 0) < 1) \<and>
     (\<exists>q. en_accepted (ac_entry null_store ac' 0 1) = Some q \<and> p_status q = st kPaxosState_CHOSEN))"
proof (rule last_chosen_monotone)
  show "ac_inv null_store (after_requests [example_msg kMsgType_ACCEPT_REQ 1 9])"
    by (rule ac_inv_after) simp
qed (simp | code_simp)+

text \<open>
  A failed write is reported and is no vote. When the store refuses the proposal of an
  accept request that would have been stored, the answer is \<open>ACCEPTED_FAILED\<close> with the write
  error, although the entry in memory keeps the proposal and its promise.
\<close>

theorem write_failure_reported:
  assumes "ac_inv S ac" and "wf_Proposal pp" and "\<not> ac_lags ac pp" and "i = p_pinst pp" and "k = p_pentry pp"
    and "e = ac_entry S ac i k" and "accept_stores pp e" and "\<not> accept_duplicate pp e"
    and "\<not> saved_as S (ac_mng ac i) k (as_accepted pp e)"
  shows "\<exists>ac' rsp. Acceptor_handleAcceptReq S pp ac = Some (ac', rsp) \<and>
    p_status (m_body rsp) = st kPaxosState_ACCEPTED_FAILED \<and> m_errcode rsp = err kErrCode_WRITE_PLOG_FAIL \<and>
    ac_entry S ac' i k = as_accepted pp e"
proof -
  have e: "e = EntryMng_view S (p_pentry pp) (ac_mng ac (p_pinst pp))"
    using assms(4-6) by (simp add: ac_entry_def)
  have w: "False = saved_as S (ac_mng ac (p_pinst pp)) (p_pentry pp) (as_accepted pp e)"
    using assms(4,5,9) by simp
  obtain m' wp where h: "Acceptor_handleAcceptReq S pp ac = Some (ac_upd (p_pinst pp) m' wp ac,
       accept_reply False (em_last_chosen_entry (ac_mng ac (p_pinst pp))) pp e)"
    "wp_inv wp" "em_inv m'" "EntryMng_at m' (p_pentry pp) = Some (accept_entry False pp e)"
    "em_keeps (p_pentry pp) (ac_mng ac (p_pinst pp)) m'"
    "em_last_chosen_entry m' = em_last_chosen_entry (ac_mng ac (p_pinst pp))"
    by (rule handleAcceptReq_impl [OF assms(1-3) refl e w])
  have "ac_entry S (ac_upd (p_pinst pp) m' wp ac) i k = as_accepted pp e"
    using ac_entry_upd(1) [OF assms(1) h(4)] assms(4,5,7,8) by (simp add: accept_entry_def)
  with h(1) assms(7,8) show ?thesis
    by (simp add: accept_reply_def accept_ok_def accept_errcode_def)
qed

theorem write_failure_reported_witness:
  "\<exists>ac' rsp. Acceptor_handleAcceptReq full_disk (example_proposal 1 9) example_acceptor = Some (ac', rsp) \<and>
    p_status (m_body rsp) = st kPaxosState_ACCEPTED_FAILED \<and> m_errcode rsp = err kErrCode_WRITE_PLOG_FAIL \<and>
    ac_entry full_disk ac' 0 1 = as_accepted (example_proposal 1 9) (ac_entry full_disk example_acceptor 0 1)"
  by (rule write_failure_reported) (simp | code_simp)+

text \<open>
  C20: An entry that the cache has evicted comes back empty, so a promise can be broken. On a
  store that gives back everything saved, with a cache of one entry: the acceptor promises id 5
  for entry 1, answers a prepare request for entry 2, and then accepts id 3 for entry 1, while
  the store still holds the promise.
\<close>

theorem evicted_promise_forgotten:
  "\<exists>ac1 ac2 ac3 cb rsp e r.
     run_requests alist_store [example_msg kMsgType_PREPARE_REQ 5 9] tiny_acceptor = Some ac1 \<and>
     entry_bar (ac_entry alist_store ac1 0 1) = 5 \<and>
     run_requests alist_store [for_entry 2 (example_msg kMsgType_PREPARE_REQ 5 9)] ac1 = Some ac2 \<and>
     LoadEntry alist_store (em_db (ac_mng ac2 0)) 0 1 (Entry_new 0 1) = (e, err kErrCode_OK) \<and>
     en_promised e = Some r \<and> p_pid r = 5 \<and>
     Acceptor_doHandleMsg alist_store \<lparr>rq_cb = None, rq_msg = example_msg kMsgType_ACCEPT_REQ 3 8\<rparr> ac2 =
       Some (ac3, Some (cb, rsp)) \<and>
     p_status (m_body rsp) = st kPaxosState_ACCEPTED"
proof -
  let ?ac1 = "the (run_requests alist_store [example_msg kMsgType_PREPARE_REQ 5 9] tiny_acceptor)"
  let ?ac2 = "the (run_requests alist_store [for_entry 2 (example_msg kMsgType_PREPARE_REQ 5 9)] ?ac1)"
  let ?r = "the (Acceptor_doHandleMsg alist_store \<lparr>rq_cb = None, rq_msg = example_msg kMsgType_ACCEPT_REQ 3 8\<rparr> ?ac2)"
  let ?l = "LoadEntry alist_store (em_db (ac_mng ?ac2 0)) 0 1 (Entry_new 0 1)"
  have "run_requests alist_store [example_msg kMsgType_PREPARE_REQ 5 9] tiny_acceptor = Some ?ac1"
    by code_simp
  moreover have "entry_bar (ac_entry alist_store ?ac1 0 1) = 5" by code_simp
  moreover have "run_requests alist_store [for_entry 2 (example_msg kMsgType_PREPARE_REQ 5 9)] ?ac1 = Some ?ac2"
    by code_simp
  moreover have "?l = (fst ?l, err kErrCode_OK)" by code_simp
  moreover have "en_promised (fst ?l) = Some (the (en_promised (fst ?l)))" by code_simp
  moreover have "p_pid (the (en_promised (fst ?l))) = 5" by code_simp
  moreover have "Acceptor_doHandleMsg alist_store \<lparr>rq_cb = None, rq_msg = example_msg kMsgType_ACCEPT_REQ 3 8\<rparr> ?ac2 =
      Some (fst ?r, Some (fst (the (snd ?r)), snd (the (snd ?r))))" by code_simp
  moreover have "p_status (m_body (snd (the (snd ?r)))) = st kPaxosState_ACCEPTED" by code_simp
  ultimately show ?thesis by blast
qed

end
