(* ===== verification/Synod.thy ===== *)
theory Synod
  imports Synod_Acceptor
begin

text \<open>
  One entry of one log instance across the acceptors of a group: the protocol as the code runs
  it. A step delivers any request to any acceptor, which runs its handler
  (\<open>Acceptor_doHandleMsg\<close>); requests may be lost, repeated, reordered and concern other entries
  and instances as well. The only restriction is the proposers' side, on accept requests for the
  entry: either the id is 1, the first id of the master, which may skip the prepare phase
  (\<open>canSkipPrepare\<close>), or it is not 0 and a majority has answered the prepare request of that id
  with \<open>PROMISED\<close> and that id (\<open>handlePrepareRsp\<close>). Ids need not be unique: an acceptor votes for one
  value under an id.

  The acceptors' caches are taken large enough for the entries in use (\<open>em_room\<close>): an evicted
  entry comes back empty.
\<close>

section \<open>Majorities\<close>

definition majority :: "nat \<Rightarrow> nat set \<Rightarrow> bool" where
  "majority N A \<longleftrightarrow> N div 2 + 1 \<le> card (A \<inter> {..<N})"

lemma majority_mono: "majority N A \<Longrightarrow> A \<subseteq> B \<Longrightarrow> majority N B"
  unfolding majority_def by (meson Int_mono card_mono finite_Int finite_lessThan order_refl order_trans)

lemma majority_meet:
  assumes "majority N A" and "majority N B"
  obtains a where "a \<in> A" "a \<in> B"
proof -
  have "A \<inter> B \<noteq> {}"
  proof
    assume "A \<inter> B = {}"
    then have "card ((A \<inter> {..<N}) \<union> (B \<inter> {..<N})) = card (A \<inter> {..<N}) + card (B \<inter> {..<N})"
      by (intro card_Un_disjoint) auto
    moreover have "card ((A \<inter> {..<N}) \<union> (B \<inter> {..<N})) \<le> card {..<N}"
      by (rule card_mono) auto
    ultimately show False using assms by (simp add: majority_def)
  qed
  then show thesis using that by blast
qed

section \<open>The group\<close>

text \<open>The log keeps the answers given for the entry: acceptor, request, response.\<close>

type_synonym answer = "nat \<times> PaxosMsg \<times> PaxosMsg"

record ('db, 'cb) cluster =
  cl_acc :: "nat \<Rightarrow> ('db, 'cb) Acceptor"
  cl_log :: "answer list"

definition concerns :: "u64 \<Rightarrow> u64 \<Rightarrow> ('db, 'cb) Acceptor \<Rightarrow> PaxosMsg \<Rightarrow> bool" where
  "concerns i k ac msg \<longleftrightarrow>
     PlogMng_slot (ac_pmn ac) (p_pinst (m_body msg)) = PlogMng_slot (ac_pmn ac) i \<and>
     p_pentry (m_body msg) = k"

definition promisers :: "answer list \<Rightarrow> u64 \<Rightarrow> nat set" where
  "promisers log b = set (map fst (filter (\<lambda>(a, msg, rsp). answer_promise msg rsp = Some b) log))"

definition voters :: "answer list \<Rightarrow> u64 \<Rightarrow> u64 \<Rightarrow> nat set" where
  "voters log b v = set (map fst (filter (\<lambda>(a, msg, rsp).
     answer_vote msg rsp = Some b \<and> p_value_id (m_body msg) = v) log))"

definition may_accept :: "nat \<Rightarrow> answer list \<Rightarrow> Proposal \<Rightarrow> bool" where
  "may_accept N log pp \<longleftrightarrow> p_pid pp \<noteq> 0 \<and> (p_pid pp = 1 \<or> majority N (promisers log (p_pid pp)))"

inductive cluster_step ::
    "'db plog_env \<Rightarrow> nat \<Rightarrow> u64 \<Rightarrow> u64 \<Rightarrow> ('db, 'cb) cluster \<Rightarrow> ('db, 'cb) cluster \<Rightarrow> bool"
  for S N i k where
  deliver:
    "wf_PaxosMsg msg \<Longrightarrow>
     em_room (p_pentry (m_body msg)) (ac_mng (cl_acc c a) (p_pinst (m_body msg))) \<Longrightarrow>
     m_type msg = mt kMsgType_ACCEPT_REQ \<and> concerns i k (cl_acc c a) msg \<longrightarrow>
       may_accept N (cl_log c) (m_body msg) \<Longrightarrow>
     Acceptor_doHandleMsg S \<lparr>rq_cb = cb, rq_msg = msg\<rparr> (cl_acc c a) = Some (ac', out) \<Longrightarrow>
     log' = (case out of
               Some (_, rsp) \<Rightarrow> if concerns i k (cl_acc c a) msg then (a, msg, rsp) # cl_log c else cl_log c
             | None \<Rightarrow> cl_log c) \<Longrightarrow>
     cluster_step S N i k c (c\<lparr>cl_acc := (cl_acc c)(a := ac'), cl_log := log'\<rparr>)"

definition cluster_reach ::
    "'db plog_env \<Rightarrow> nat \<Rightarrow> u64 \<Rightarrow> u64 \<Rightarrow> ('db, 'cb) cluster \<Rightarrow> ('db, 'cb) cluster \<Rightarrow> bool" where
  "cluster_reach S N i k = (cluster_step S N i k)\<^sup>*\<^sup>*"

text \<open>At the start every acceptor has the entry in its cache, in a proper state, and no answer has been given.\<close>

definition cluster_start :: "'db plog_env \<Rightarrow> u64 \<Rightarrow> u64 \<Rightarrow> ('db, 'cb) cluster \<Rightarrow> bool" where
  "cluster_start S i k c \<longleftrightarrow> cl_log c = [] \<and>
     (\<forall>a. ac_inv S (cl_acc c a) \<and> (\<exists>e. EntryMng_at (ac_mng (cl_acc c a) i) k = Some e \<and> entry_ok e))"

section \<open>The invariant\<close>

definition promises_by :: "answer list \<Rightarrow> nat \<Rightarrow> u64 set" where
  "promises_by log a = {b. a \<in> promisers log b}"

definition votes_by :: "answer list \<Rightarrow> nat \<Rightarrow> u64 set" where
  "votes_by log a = {b. \<exists>v. a \<in> voters log b v}"

definition ballots_by :: "answer list \<Rightarrow> nat \<Rightarrow> (u64 \<times> u64) set" where
  "ballots_by log a = {(b, v). a \<in> voters log b v}"

definition acceptor_inv :: "'db plog_env \<Rightarrow> u64 \<Rightarrow> u64 \<Rightarrow> ('db, 'cb) cluster \<Rightarrow> nat \<Rightarrow> bool" where
  "acceptor_inv S i k c a \<longleftrightarrow> ac_inv S (cl_acc c a) \<and>
     (\<exists>e. EntryMng_at (ac_mng (cl_acc c a) i) k = Some e \<and>
        log_entry.history e (promises_by (cl_log c) a) (votes_by (cl_log c) a) \<and>
        log_ballot.balloted e (ballots_by (cl_log c) a))"

definition cluster_inv ::
    "'db plog_env \<Rightarrow> nat \<Rightarrow> u64 \<Rightarrow> u64 \<Rightarrow> ('db, 'cb) cluster \<Rightarrow> bool" where
  "cluster_inv S N i k c \<longleftrightarrow> (\<forall>a. acceptor_inv S i k c a) \<and>
     (\<forall>b v. voters (cl_log c) b v \<noteq> {} \<longrightarrow>
        b \<noteq> 0 \<and> (b = 1 \<or> majority N (promisers (cl_log c) b)))"

lemma answers_Nil [simp]: "promisers [] b = {}" "voters [] b v = {}"
  "promises_by [] a = {}" "votes_by [] a = {}" "ballots_by [] a = {}"
  by (simp_all add: promisers_def voters_def promises_by_def votes_by_def ballots_by_def)

lemma answers_Cons:
  "promisers ((a, msg, rsp) # log) b =
     (if answer_promise msg rsp = Some b then insert a (promisers log b) else promisers log b)"
  "voters ((a, msg, rsp) # log) b v =
     (if answer_vote msg rsp = Some b \<and> p_value_id (m_body msg) = v
      then insert a (voters log b v) else voters log b v)"
  by (force simp: promisers_def voters_def)+

lemma answers_by_Cons:
  "promises_by ((a, msg, rsp) # log) a' =
     promises_by log a' \<union> (if a' = a then set_option (answer_promise msg rsp) else {})"
  "votes_by ((a, msg, rsp) # log) a' =
     votes_by log a' \<union> (if a' = a then set_option (answer_vote msg rsp) else {})"
  "ballots_by ((a, msg, rsp) # log) a' = ballots_by log a' \<union>
     (if a' = a then set_option (map_option (\<lambda>b. (b, p_value_id (m_body msg))) (answer_vote msg rsp)) else {})"
  by (auto simp: promises_by_def votes_by_def ballots_by_def answers_Cons split: if_splits)

lemma ac_mng_slot:
  "PlogMng_slot (ac_pmn ac) j = PlogMng_slot (ac_pmn ac) i \<Longrightarrow> ac_mng ac j = ac_mng ac i"
  by (simp add: ac_mng_def PlogMng_mng_def)

text \<open>What a request does to the entry: a step of the entry if it concerns it and gets to it, else nothing.\<close>

lemma deliver_entry:
  assumes ac: "ac_inv S ac" and e: "EntryMng_at (ac_mng ac i) k = Some e" and wf: "wf_PaxosMsg msg"
    and room: "em_room (p_pentry (m_body msg)) (ac_mng ac (p_pinst (m_body msg)))"
    and run: "Acceptor_doHandleMsg S \<lparr>rq_cb = cb, rq_msg = msg\<rparr> ac = Some (ac', out)"
  shows "ac_inv S ac'" and "\<not> concerns i k ac msg \<Longrightarrow> EntryMng_at (ac_mng ac' i) k = Some e"
    and "concerns i k ac msg \<Longrightarrow> EntryMng_at (ac_mng ac' i) k =
      Some (if reaches_entry ac msg then entry_step (write_ok S ac msg, msg) e else e)"
    and "concerns i k ac msg \<Longrightarrow> out = Some (x, rsp) \<Longrightarrow>
      answer_promise msg rsp = (if reaches_entry ac msg then entry_promise (write_ok S ac msg, msg) e else None) \<and>
      answer_vote msg rsp = (if reaches_entry ac msg then entry_vote (write_ok S ac msg, msg) e else None)"
proof -
  let ?pp = "m_body msg"
  obtain m' wp where ac': "ac' = ac_upd (p_pinst ?pp) m' wp ac" and h: "handled S ac msg cb m' wp out"
    using handles_msg [OF ac wf, of cb] run by (auto simp: handles_def)
  have m': "wp_inv wp" "em_inv m'" "em_keeps (p_pentry ?pp) (ac_mng ac (p_pinst ?pp)) m'"
    using h by (simp_all add: handled_def Let_def)
  show "ac_inv S ac'" using ac m' by (simp add: ac' ac_inv_upd)
  show "EntryMng_at (ac_mng ac' i) k = Some e" if "\<not> concerns i k ac msg"
    using that e m'(3) room ac_mng_slot [of ac "p_pinst ?pp" i]
    by (auto simp: ac' ac_mng_upd [OF ac] concerns_def em_keeps_def)
  assume c: "concerns i k ac msg"
  then have mng: "ac_mng ac (p_pinst ?pp) = ac_mng ac i" "ac_mng ac' i = m'" "p_pentry ?pp = k"
    by (auto simp: ac' ac_mng_upd [OF ac] concerns_def intro: ac_mng_slot)
  have entry: "ac_entry S ac (p_pinst ?pp) (p_pentry ?pp) = e"
    using e mng by (simp add: ac_entry_def EntryMng_view_def)
  show "EntryMng_at (ac_mng ac' i) k = Some (if reaches_entry ac msg then entry_step (write_ok S ac msg, msg) e else e)"
    using h e mng entry by (auto simp: handled_def Let_def)
  show "answer_promise msg rsp = (if reaches_entry ac msg then entry_promise (write_ok S ac msg, msg) e else None) \<and>
      answer_vote msg rsp = (if reaches_entry ac msg then entry_vote (write_ok S ac msg, msg) e else None)"
    if "out = Some (x, rsp)"
    using h that entry by (simp_all add: handled_def Let_def)
qed

text \<open>The acceptor that handles the request keeps its history, with its answer added.\<close>

lemma acceptor_inv_deliver:
  assumes inv: "acceptor_inv S i k c a" and wf: "wf_PaxosMsg msg"
    and room: "em_room (p_pentry (m_body msg)) (ac_mng (cl_acc c a) (p_pinst (m_body msg)))"
    and run: "Acceptor_doHandleMsg S \<lparr>rq_cb = cb, rq_msg = msg\<rparr> (cl_acc c a) = Some (ac', out)"
    and log': "log' = (case out of
               Some (_, rsp) \<Rightarrow> if concerns i k (cl_acc c a) msg then (a, msg, rsp) # cl_log c else cl_log c
             | None \<Rightarrow> cl_log c)"
  shows "acceptor_inv S i k (c\<lparr>cl_acc := (cl_acc c)(a := ac'), cl_log := log'\<rparr>) a"
proof -
  let ?ac = "cl_acc c a"
  let ?P = "promises_by (cl_log c) a" and ?V = "votes_by (cl_log c) a" and ?B = "ballots_by (cl_log c) a"
  obtain e where ac: "ac_inv S ?ac" and e: "EntryMng_at (ac_mng ?ac i) k = Some e"
    and hist: "log_entry.history e ?P ?V" and ball: "log_ballot.balloted e ?B"
    using inv by (auto simp: acceptor_inv_def)
  note entry = deliver_entry [OF ac e wf room run]
  show ?thesis
  proof (cases "concerns i k ?ac msg")
    case False
    have "log' = cl_log c" using False log' by (auto split: option.splits)
    with entry(1) entry(2) [OF False] hist ball show ?thesis by (simp add: acceptor_inv_def)
  next
    case True
    let ?ev = "(write_ok S ?ac msg, msg)"
    let ?e' = "if reaches_entry ?ac msg then entry_step ?ev e else e"
    let ?P' = "?P \<union> (if reaches_entry ?ac msg then set_option (entry_promise ?ev e) else {})"
    let ?V' = "?V \<union> (if reaches_entry ?ac msg then set_option (entry_vote ?ev e) else {})"
    have step: "log_entry.history ?e' ?P' ?V'"
      using hist log_entry.history_step [OF hist, of ?ev] by auto
    let ?B' = "?B \<union> (if reaches_entry ?ac msg then set_option (entry_cast ?ev e) else {})"
    have ball': "log_ballot.balloted ?e' ?B'"
      using ball log_ballot.balloted_step [OF ball, of ?ev] by auto
    have ans: "answer_promise msg rsp = (if reaches_entry ?ac msg then entry_promise ?ev e else None)"
      "answer_vote msg rsp = (if reaches_entry ?ac msg then entry_vote ?ev e else None)"
      if "out = Some (x, rsp)" for x rsp
      using entry(4) [OF True that] by simp_all
    have sub: "promises_by log' a \<subseteq> ?P'" "votes_by log' a \<subseteq> ?V'" "ballots_by log' a \<subseteq> ?B'"
      using True log' by (auto simp: ans answers_by_Cons entry_cast_def simp del: entry_promise.simps entry_vote.simps
          split: option.splits if_splits)
    from log_ballot.balloted_subset [OF ball' sub(3)]
    have "log_ballot.balloted ?e' (ballots_by log' a)" .
    with step sub(1,2) have "log_entry.history ?e' (promises_by log' a) (votes_by log' a) \<and> log_ballot.balloted ?e' (ballots_by log' a)"
      using log_entry.history_subset by blast
    with entry(1) entry(3) [OF True] show ?thesis by (auto simp: acceptor_inv_def)
  qed
qed

lemma cluster_inv_step:
  assumes "cluster_inv S N i k c" and "cluster_step S N i k c c'"
  shows "cluster_inv S N i k c'"
  using assms(2)
proof (cases rule: cluster_step.cases)
  case (deliver msg a cb ac' out log')
  note c' = deliver(1) and wf = deliver(2) and room = deliver(3) and rule = deliver(4)
    and run = deliver(5) and log' = deliver(6)
  have acc: "acceptor_inv S i k c b" for b using assms(1) by (simp add: cluster_inv_def)
  have others: "acceptor_inv S i k c' b" for b
  proof (cases "b = a")
    case True
    then show ?thesis using acceptor_inv_deliver [OF acc wf room run log'] by (simp add: c')
  next
    case False
    then have "promises_by log' b = promises_by (cl_log c) b" "votes_by log' b = votes_by (cl_log c) b"
      "ballots_by log' b = ballots_by (cl_log c) b"
      by (auto simp: log' answers_by_Cons split: option.splits)
    with acc [of b] False show ?thesis by (simp add: acceptor_inv_def c')
  qed
  have more: "promisers (cl_log c) b \<subseteq> promisers log' b" for b
    by (auto simp: log' answers_Cons split: option.splits)
  have "b \<noteq> 0 \<and> (b = 1 \<or> majority N (promisers log' b))" if v: "voters log' b v \<noteq> {}" for b v
  proof (cases "voters (cl_log c) b v = {}")
    case False
    then have "b \<noteq> 0 \<and> (b = 1 \<or> majority N (promisers (cl_log c) b))"
      using assms(1) unfolding cluster_inv_def by blast
    then show ?thesis using majority_mono [OF _ more] by blast
  next
    case True
    with v log' have "concerns i k (cl_acc c a) msg" "m_type msg = mt kMsgType_ACCEPT_REQ"
      "p_pid (m_body msg) = b"
      by (auto simp: answers_Cons answer_vote_def split: option.splits if_splits)
    then show ?thesis using rule majority_mono [OF _ more] by (auto simp: may_accept_def)
  qed
  with others show ?thesis by (simp add: cluster_inv_def c')
qed

lemma cluster_inv_start: "cluster_start S i k c \<Longrightarrow> cluster_inv S N i k c"
  by (auto simp: cluster_start_def cluster_inv_def acceptor_inv_def intro: log_entry.history_start log_ballot.balloted_start)

lemma cluster_inv_reach:
  assumes "cluster_start S i k c0" and "cluster_reach S N i k c0 c"
  shows "cluster_inv S N i k c"
  using assms(2) unfolding cluster_reach_def
  by (induction rule: rtranclp_induct)
    (use cluster_inv_start [OF assms(1)] cluster_inv_step in blast)+

text \<open>Two proposal ids that both have a majority of votes are the same.\<close>

lemma cluster_inv_agree:
  assumes "cluster_inv S N i k c"
    and "majority N (voters (cl_log c) b1 v1)" and "majority N (voters (cl_log c) b2 v2)"
  shows "\<not> b1 < b2"
proof
  assume less: "b1 < b2"
  have "voters (cl_log c) b v \<noteq> {}" if "majority N (voters (cl_log c) b v)" for b v
    using that by (auto simp: majority_def)
  with assms have b: "b1 \<noteq> 0" "b2 = 1 \<or> majority N (promisers (cl_log c) b2)"
    unfolding cluster_inv_def by blast+
  have "b2 \<noteq> 1"
  proof
    assume "b2 = 1"
    then have "unat b1 = 0" using less by (simp add: word_less_nat_alt)
    with b(1) show False by (simp add: unat_eq_0)
  qed
  with b(2) have "majority N (promisers (cl_log c) b2)" by simp
  from majority_meet [OF this assms(2)] obtain a where
    a: "a \<in> promisers (cl_log c) b2" "a \<in> voters (cl_log c) b1 v1" .
  from assms(1) obtain e where "log_entry.history e (promises_by (cl_log c) a) (votes_by (cl_log c) a)"
    unfolding cluster_inv_def acceptor_inv_def by blast
  moreover have "b2 \<in> promises_by (cl_log c) a" "b1 \<in> votes_by (cl_log c) a"
    using a by (auto simp: promises_by_def votes_by_def)
  ultimately have "b2 \<le> b1" by (rule log_entry.history_order)
  with less show False by simp
qed

text \<open>Under one id an acceptor votes for one value, so two majorities for that id are for the same value.\<close>

lemma cluster_inv_same:
  assumes "cluster_inv S N i k c"
    and "majority N (voters (cl_log c) b v1)" and "majority N (voters (cl_log c) b v2)"
  shows "v1 = v2"
proof -
  from majority_meet [OF assms(2,3)] obtain a where
    a: "a \<in> voters (cl_log c) b v1" "a \<in> voters (cl_log c) b v2" .
  from assms(1) obtain e where "log_ballot.balloted e (ballots_by (cl_log c) a)"
    unfolding cluster_inv_def acceptor_inv_def by blast
  moreover have "(b, v1) \<in> ballots_by (cl_log c) a" "(b, v2) \<in> ballots_by (cl_log c) a"
    using a by (simp_all add: ballots_by_def)
  ultimately show ?thesis by (rule log_ballot.balloted_unique)
qed

lemma cluster_inv_agreement:
  assumes "cluster_inv S N i k c"
    and "majority N (voters (cl_log c) b1 v1)" and "majority N (voters (cl_log c) b2 v2)"
  shows "b1 = b2 \<and> v1 = v2"
proof -
  have "\<not> b1 < b2" "\<not> b2 < b1"
    using cluster_inv_agree [OF assms] cluster_inv_agree [OF assms(1,3,2)] by simp_all
  then have "b1 = b2" by simp
  with cluster_inv_same [OF assms(1), of b1 v1 v2] assms(2,3) show ?thesis by simp
qed

end
