(* ===== verification/Paxos_Group.thy ===== *)
theory Paxos_Group
  imports Quarrel_Prelude
begin

text \<open>
  core/paxos_group.h and core/paxos_group.cpp: which server is which member of the synod of a
  log instance. Instance \<open>i\<close> uses the \<open>i mod M\<close>-th permutation of the servers, so that each
  server is master (member 0) of its share of the instances. The abstract base class is the
  locale \<open>member_mapper\<close>, interpreted for the groups of three and of five.
\<close>

section \<open>Generating the tables\<close>

text \<open>
  \<open>std::next_permutation\<close>: \<open>Some\<close> of the next permutation, \<open>None\<close> where it returns false.
  With no next permutation of the tail, the tail descends, and the head is exchanged with the
  rightmost greater element of the tail, which is then reversed.
\<close>

fun next_permutation :: "int list \<Rightarrow> int list option" where
  "next_permutation [] = None"
| "next_permutation (x # xs) =
     (case next_permutation xs of
        Some ys \<Rightarrow> Some (x # ys)
      | None \<Rightarrow>
          (case dropWhile (\<lambda>y. \<not> x < y) (rev xs) of
             [] \<Rightarrow> None
           | y # b \<Rightarrow> Some (y # takeWhile (\<lambda>y. \<not> x < y) (rev xs) @ x # b)))"

text \<open>The loop of \<open>GenGroup\<close> with \<open>n\<close> rows left; both of its assertions are failures.\<close>

fun GenGroup_rows :: "nat \<Rightarrow> int list \<Rightarrow> int list list option" where
  "GenGroup_rows 0 arr = None"
| "GenGroup_rows (Suc n) arr =
     (case next_permutation arr of
        None \<Rightarrow> if n = 0 then Some [arr] else None
      | Some arr' \<Rightarrow> map_option ((#) arr) (GenGroup_rows n arr'))"

definition GenGroup :: "nat \<Rightarrow> int list \<Rightarrow> int list list option" where
  "GenGroup M arr = GenGroup_rows M arr"

text \<open>The inner loop of \<open>GenGroupRervse\<close>: the first position of \<open>j\<close> from \<open>k\<close> on, or -1.\<close>

fun find_position :: "int list \<Rightarrow> int \<Rightarrow> int \<Rightarrow> int" where
  "find_position [] j k = -1"
| "find_position (x # xs) j k = (if x = j then k else find_position xs j (k + 1))"

definition GenGroupRervse :: "int list list \<Rightarrow> int list list" where
  "GenGroupRervse rows = map (\<lambda>row. map (\<lambda>j. find_position row (int j) 0) [0..<length row]) rows"

section \<open>The groups\<close>

record PaxosGroup =
  mapping :: "int list list"
  mapping_reverse :: "int list list"

definition PaxosGroup_make :: "nat \<Rightarrow> nat \<Rightarrow> PaxosGroup option" where
  "PaxosGroup_make M N =
     (case GenGroup M (map int [0..<N]) of
        None \<Rightarrow> None
      | Some rows \<Rightarrow> Some \<lparr>mapping = rows, mapping_reverse = GenGroupRervse rows\<rparr>)"

definition PaxosGroup3 :: "PaxosGroup option" where
  "PaxosGroup3 = PaxosGroup_make 6 3"

definition PaxosGroup5 :: "PaxosGroup option" where
  "PaxosGroup5 = PaxosGroup_make 120 5"

text \<open>The three virtual functions, for a group of \<open>N\<close> members with \<open>length (mapping g)\<close> rows.\<close>

definition GetMemberIdBySvrId :: "nat \<Rightarrow> PaxosGroup \<Rightarrow> u64 \<Rightarrow> int \<Rightarrow> int" where
  "GetMemberIdBySvrId N g pinst i =
     (if i < 0 \<or> i \<ge> int N then -1
      else mapping_reverse g ! (unat pinst mod length (mapping g)) ! nat i)"

definition GetSvrIdByMemberId :: "nat \<Rightarrow> PaxosGroup \<Rightarrow> u64 \<Rightarrow> int \<Rightarrow> int" where
  "GetSvrIdByMemberId N g pinst i =
     (if i < 0 \<or> i \<ge> int N then -1
      else mapping g ! (unat pinst mod length (mapping g)) ! nat i)"

definition GetPaxosGroupMember :: "nat \<Rightarrow> PaxosGroup \<Rightarrow> u64 \<Rightarrow> int \<Rightarrow> int list option" where
  "GetPaxosGroupMember N g pinst sz =
     (if sz \<noteq> int N then None else Some (mapping g ! (unat pinst mod length (mapping g))))"

text \<open>\<open>CreateGroup\<close>: the size and tables of the group; any other type fails an assertion.\<close>

definition CreateGroup :: "int \<Rightarrow> (nat \<times> PaxosGroup) option" where
  "CreateGroup ty =
     (if ty = 3 then map_option (Pair 3) PaxosGroup3
      else if ty = 5 then map_option (Pair 5) PaxosGroup5
      else None)"

section \<open>The rows are permutations\<close>

lemma mset_next_permutation: "next_permutation xs = Some ys \<Longrightarrow> mset ys = mset xs"
proof (induction xs arbitrary: ys)
  case (Cons x xs)
  show ?case
  proof (cases "next_permutation xs")
    case None
    with Cons.prems obtain y b where
      d: "dropWhile (\<lambda>y. \<not> x < y) (rev xs) = y # b"
      and ys: "ys = y # takeWhile (\<lambda>y. \<not> x < y) (rev xs) @ x # b"
      by (auto split: list.splits)
    have "mset xs = mset (takeWhile (\<lambda>y. \<not> x < y) (rev xs) @ y # b)"
      using d by (metis mset_rev takeWhile_dropWhile_id)
    with ys show ?thesis by simp
  next
    case (Some zs)
    with Cons show ?thesis by auto
  qed
qed simp

lemma mset_GenGroup_rows:
  "GenGroup_rows n arr = Some rows \<Longrightarrow> row \<in> set rows \<Longrightarrow> mset row = mset arr"
proof (induction n arr arbitrary: rows rule: GenGroup_rows.induct)
  case (2 n arr)
  then show ?case
    by (auto split: option.splits if_splits) (metis mset_next_permutation)
qed simp

lemma length_GenGroup_rows: "GenGroup_rows n arr = Some rows \<Longrightarrow> length rows = n"
  by (induction n arr arbitrary: rows rule: GenGroup_rows.induct)
    (auto split: option.splits if_splits)

lemma find_position_nth:
  "distinct xs \<Longrightarrow> i < length xs \<Longrightarrow> find_position xs (xs ! i) k = k + int i"
proof (induction xs arbitrary: i k)
  case (Cons x xs)
  then show ?case by (cases i) auto
qed simp

lemma find_position_in:
  "j \<in> set xs \<Longrightarrow> \<exists>i < length xs. find_position xs j k = k + int i \<and> xs ! i = j"
proof (induction xs arbitrary: k)
  case (Cons x xs)
  show ?case
  proof (cases "x = j")
    case False
    with Cons.prems Cons.IH [of "k + 1"] obtain i where
      "i < length xs" "find_position xs j (k + 1) = k + 1 + int i" "xs ! i = j" by auto
    with False show ?thesis by (intro exI [of _ "Suc i"]) simp
  qed (auto intro: exI [of _ 0])
qed simp

text \<open>A table of \<open>N\<close> members: its rows are permutations of \<open>0..<N\<close>, the second table inverts them.\<close>

definition group_table :: "nat \<Rightarrow> PaxosGroup \<Rightarrow> bool" where
  "group_table N g \<longleftrightarrow> mapping g \<noteq> [] \<and>
     (\<forall>row \<in> set (mapping g). mset row = mset (map int [0..<N])) \<and>
     mapping_reverse g = GenGroupRervse (mapping g)"

lemma group_table_make:
  assumes "PaxosGroup_make M N = Some g" and "0 < M"
  shows "group_table N g" and "length (mapping g) = M"
proof -
  obtain rows where r: "GenGroup_rows M (map int [0..<N]) = Some rows"
    and g: "g = \<lparr>mapping = rows, mapping_reverse = GenGroupRervse rows\<rparr>"
    using assms(1) by (auto simp: PaxosGroup_make_def GenGroup_def split: option.splits)
  show "length (mapping g) = M" using length_GenGroup_rows [OF r] g by simp
  with assms(2) have "mapping g \<noteq> []" by auto
  with g mset_GenGroup_rows [OF r] show "group_table N g" by (simp add: group_table_def)
qed

lemma row_props:
  assumes "mset row = mset (map int [0..<N])"
  shows "distinct row" and "length row = N" and "set row = {0..<int N}"
proof -
  show "distinct row"
    using mset_eq_imp_distinct_iff [OF assms] by (simp add: distinct_map)
  show "length row = N" using mset_eq_length [OF assms] by simp
  have "set row = int ` {0..<N}" using mset_eq_setD [OF assms] by simp
  then show "set row = {0..<int N}" by (simp add: image_int_atLeastLessThan)
qed

section \<open>The interface of a member mapping\<close>

text \<open>What \<open>PaxosGroupBase\<close> promises: for every instance a bijection between servers and members.\<close>

locale member_mapper =
  fixes members :: nat
    and member_of :: "u64 \<Rightarrow> int \<Rightarrow> int"
    and server_of :: "u64 \<Rightarrow> int \<Rightarrow> int"
  assumes member_range: "0 \<le> s \<Longrightarrow> s < int members \<Longrightarrow> 0 \<le> member_of p s \<and> member_of p s < int members"
    and server_of_member: "0 \<le> s \<Longrightarrow> s < int members \<Longrightarrow> server_of p (member_of p s) = s"
    and member_of_server: "0 \<le> k \<Longrightarrow> k < int members \<Longrightarrow> member_of p (server_of p k) = k"
    and invalid_id: "s < 0 \<or> int members \<le> s \<Longrightarrow> member_of p s = -1 \<and> server_of p s = -1"
begin

lemma member_inj:
  "0 \<le> s \<Longrightarrow> s < int members \<Longrightarrow> 0 \<le> t \<Longrightarrow> t < int members \<Longrightarrow>
   member_of p s = member_of p t \<longleftrightarrow> s = t"
  by (metis server_of_member)

lemma server_range:
  assumes "0 \<le> k" and "k < int members"
  shows "0 \<le> server_of p k \<and> server_of p k < int members"
proof (rule ccontr)
  assume "\<not> ?thesis"
  then have "member_of p (server_of p k) = -1" using invalid_id by force
  with member_of_server [OF assms] assms(1) show False by simp
qed

text \<open>Every instance has exactly one master.\<close>

lemma one_master:
  assumes "0 < members"
  shows "\<exists>!s. 0 \<le> s \<and> s < int members \<and> member_of p s = 0"
proof
  show "0 \<le> server_of p 0 \<and> server_of p 0 < int members \<and> member_of p (server_of p 0) = 0"
    using server_range [of 0] member_of_server [of 0] assms by simp
next
  fix s assume "0 \<le> s \<and> s < int members \<and> member_of p s = 0"
  then show "s = server_of p 0" using server_of_member by metis
qed

end

lemma group_table_mapper:
  assumes "group_table N g"
  shows "member_mapper N (GetMemberIdBySvrId N g) (GetSvrIdByMemberId N g)"
proof -
  define row where "row p = mapping g ! (unat p mod length (mapping g))" for p :: u64
  have idx: "unat p mod length (mapping g) < length (mapping g)" for p :: u64
    using assms by (simp add: group_table_def)
  then have "row p \<in> set (mapping g)" for p by (simp add: row_def)
  then have m: "mset (row p) = mset (map int [0..<N])" for p
    using assms by (simp add: group_table_def)
  note rp = row_props [OF m]
  have srv: "GetSvrIdByMemberId N g p k = row p ! nat k" if "0 \<le> k" "k < int N" for p k
    using that by (simp add: GetSvrIdByMemberId_def row_def)
  have mem: "GetMemberIdBySvrId N g p s = find_position (row p) s 0" if "0 \<le> s" "s < int N" for p s
    using that idx [of p] assms rp(2) [of p]
    by (simp add: GetMemberIdBySvrId_def group_table_def GenGroupRervse_def row_def)
  have pos: "\<exists>i < N. find_position (row p) s 0 = int i \<and> row p ! i = s" if "0 \<le> s" "s < int N" for p s
    using find_position_in [of s "row p" 0] that rp(2,3) [of p] by auto
  show ?thesis
  proof
    fix s p assume s: "0 \<le> s" "s < int N"
    from pos [OF this, of p] obtain i where i: "i < N" "find_position (row p) s 0 = int i" "row p ! i = s"
      by auto
    show "0 \<le> GetMemberIdBySvrId N g p s \<and> GetMemberIdBySvrId N g p s < int N"
      using mem [OF s] i by simp
    show "GetSvrIdByMemberId N g p (GetMemberIdBySvrId N g p s) = s"
      using mem [OF s] i srv by simp
  next
    fix k p assume k: "0 \<le> k" "k < int N"
    then have "row p ! nat k \<in> set (row p)" using rp(2) [of p] by simp
    then have "0 \<le> row p ! nat k" "row p ! nat k < int N" using rp(3) [of p] by auto
    with k show "GetMemberIdBySvrId N g p (GetSvrIdByMemberId N g p k) = k"
      using srv [OF k] mem find_position_nth [OF rp(1), of "nat k" p 0] rp(2) [of p] by simp
  next
    fix s p assume "s < 0 \<or> int N \<le> s"
    then show "GetMemberIdBySvrId N g p s = -1 \<and> GetSvrIdByMemberId N g p s = -1"
      by (auto simp: GetMemberIdBySvrId_def GetSvrIdByMemberId_def)
  qed
qed

lemma PaxosGroup3_defined: "PaxosGroup3 \<noteq> None"
  by code_simp

lemma PaxosGroup5_defined: "PaxosGroup5 \<noteq> None"
  by code_simp

interpretation pg3: member_mapper 3 "GetMemberIdBySvrId 3 (the PaxosGroup3)"
  "GetSvrIdByMemberId 3 (the PaxosGroup3)"
  using PaxosGroup3_defined
  by (auto simp: PaxosGroup3_def intro!: group_table_mapper intro: group_table_make)

interpretation pg5: member_mapper 5 "GetMemberIdBySvrId 5 (the PaxosGroup5)"
  "GetSvrIdByMemberId 5 (the PaxosGroup5)"
  using PaxosGroup5_defined
  by (auto simp: PaxosGroup5_def intro!: group_table_mapper intro: group_table_make)

text \<open>Mastership over one period of instances: the rows in which a server stands first.\<close>

definition master_rows :: "int \<Rightarrow> PaxosGroup \<Rightarrow> nat" where
  "master_rows s g = length (filter (\<lambda>row. hd row = s) (mapping g))"

lemma master_rows_table:
  "map (\<lambda>s. master_rows s (the PaxosGroup3)) [0, 1, 2] = [2, 2, 2]"
  "map (\<lambda>s. master_rows s (the PaxosGroup5)) [0, 1, 2, 3, 4] = [24, 24, 24, 24, 24]"
  by code_simp+

end
