(* ===== verification/Id_Gen.thy ===== *)
theory Id_Gen
  imports Ptype
begin

text \<open>
  util/idgen.hpp: the generator of proposal ids, value ids and request ids. The ids of one
  generator form an arithmetic progression modulo \<open>2 ^ 64\<close>.
\<close>

record IdGen =
  ig_id :: u64
  ig_step :: u64

definition IdGen_Get :: "IdGen \<Rightarrow> u64" where
  "IdGen_Get g = ig_id g"

definition IdGen_GetAndInc :: "IdGen \<Rightarrow> IdGen \<times> u64" where
  "IdGen_GetAndInc g = (g\<lparr>ig_id := ig_id g + ig_step g\<rparr>, ig_id g)"

definition IdGen_Reset :: "u64 \<Rightarrow> IdGen \<Rightarrow> IdGen" where
  "IdGen_Reset start g = g\<lparr>ig_id := start\<rparr>"

text \<open>A zero step with \<open>v > ig_id\<close> divides by zero.\<close>

definition IdGen_SetGreaterThan :: "u64 \<Rightarrow> IdGen \<Rightarrow> (IdGen \<times> u64) option" where
  "IdGen_SetGreaterThan v g =
     (if v \<le> ig_id g then Some (g, ig_id g)
      else if ig_step g = 0 then None
      else let i = ig_id g + (v - ig_id g + ig_step g - 1) div ig_step g * ig_step g
           in Some (g\<lparr>ig_id := i\<rparr>, i))"

text \<open>\<open>now\<close> is what \<open>gettimeofday\<close> gave for \<open>tv_sec\<close>.\<close>

definition IdGenByDate :: "u64 \<Rightarrow> u64 \<Rightarrow> u64 \<Rightarrow> IdGen option" where
  "IdGenByDate now msk step =
     map_option fst (IdGen_SetGreaterThan (and now msk) \<lparr>ig_id = 1, ig_step = step\<rparr>)"

fun IdGen_take :: "nat \<Rightarrow> IdGen \<Rightarrow> u64 list" where
  "IdGen_take 0 g = []"
| "IdGen_take (Suc n) g = (let (g', v) = IdGen_GetAndInc g in v # IdGen_take n g')"

lemma unat_round_up:
  fixes i v s :: u64
  assumes "i < v" and "s \<noteq> 0" and "unat v + unat s \<le> 2 ^ 64"
  defines "k \<equiv> (unat v - unat i + unat s - 1) div unat s"
  shows "unat (i + (v - i + s - 1) div s * s) = unat i + k * unat s"
    and "unat v \<le> unat i + k * unat s" and "unat i + k * unat s < unat v + unat s"
proof -
  have s: "0 < unat s" using assms(2) by (simp add: unat_gt_0)
  have iv: "unat i < unat v" using assms(1) by (simp add: word_less_nat_alt)
  have d: "unat (v - i) = unat v - unat i"
    using assms(1) by (simp add: unat_sub order_less_imp_le)
  have e: "unat (v - i + s - 1) = unat v - unat i + unat s - 1"
  proof -
    have s1: "unat (s - 1) = unat s - 1"
      using s by (metis One_nat_def assms(2) unat_minus_one)
    have "unat (v - i) + unat (s - 1) < 2 ^ 64"
      using d iv s assms(3) unfolding s1 by linarith
    then have "unat (v - i + (s - 1)) = unat (v - i) + unat (s - 1)"
      by (intro unat_add_noover) simp
    then show ?thesis
      using d s1 s by (simp add: add_diff_eq)
  qed
  have lo: "unat v - unat i \<le> k * unat s"
  proof -
    have "unat v - unat i + unat s - 1 < k * unat s + unat s"
      using s unfolding k_def
      by (metis add.commute div_mult_mod_eq mod_less_divisor nat_add_left_cancel_less)
    then show ?thesis using s by linarith
  qed
  have hi: "k * unat s \<le> unat v - unat i + unat s - 1"
    unfolding k_def by (metis div_times_less_eq_dividend)
  show "unat v \<le> unat i + k * unat s" using lo iv by linarith
  show lt: "unat i + k * unat s < unat v + unat s" using hi iv s by linarith
  have kd: "unat ((v - i + s - 1) div s) = k"
    by (simp add: unat_div e k_def)
  have "k * unat s < 2 ^ 64" using lt assms(3) by linarith
  then have m: "unat ((v - i + s - 1) div s * s) = k * unat s"
    using kd by (simp add: unat_word_ariths)
  show "unat (i + (v - i + s - 1) div s * s) = unat i + k * unat s"
    using lt assms(3) m by (simp add: unat_add_noover)
qed

lemma IdGen_SetGreaterThan_upwards:
  assumes "ig_id g < v" and "ig_step g \<noteq> 0" and "unat v + unat (ig_step g) \<le> 2 ^ 64"
  shows "\<exists>g' k. IdGen_SetGreaterThan v g = Some (g', ig_id g') \<and> ig_step g' = ig_step g \<and>
    unat (ig_id g') = unat (ig_id g) + k * unat (ig_step g) \<and>
    unat v \<le> unat (ig_id g') \<and> unat (ig_id g') < unat v + unat (ig_step g)"
  using unat_round_up [OF assms] assms(1,2)
  by (auto simp: IdGen_SetGreaterThan_def Let_def not_le)

lemma IdGen_take_nth:
  assumes "unat (ig_id g) + n * unat (ig_step g) < 2 ^ 64" and "k < n"
  shows "unat (IdGen_take n g ! k) = unat (ig_id g) + k * unat (ig_step g)"
  using assms
proof (induction n arbitrary: g k)
  case (Suc n)
  let ?g = "g\<lparr>ig_id := ig_id g + ig_step g\<rparr>"
  show ?case
  proof (cases k)
    case 0
    then show ?thesis by (simp add: IdGen_GetAndInc_def)
  next
    case (Suc j)
    have i: "unat (ig_id ?g) = unat (ig_id g) + unat (ig_step g)"
      using Suc.prems(1) by (simp add: unat_add_noover)
    with Suc.prems have "unat (ig_id ?g) + n * unat (ig_step ?g) < 2 ^ 64" and "j < n"
      using \<open>k = Suc j\<close> by simp_all
    from Suc.IH [OF this] i show ?thesis
      using \<open>k = Suc j\<close> by (simp add: IdGen_GetAndInc_def)
  qed
qed simp

lemma length_IdGen_take [simp]: "length (IdGen_take n g) = n"
  by (induction n arbitrary: g) (simp_all add: IdGen_GetAndInc_def)

end
