(* ===== verification/Fix_Count_Allocator.thy ===== *)
theory Fix_Count_Allocator
  imports Quarrel_Prelude
begin

text \<open>
  util/fix_count_allocator.hpp: pools of reusable resources, one per shard, each keeping at most a
  fixed number of them; what does not fit is released at once, and an empty pool allocates.

  The container of a pool is a template parameter, here a record of its methods. One container is a
  \<open>std::vector\<close> used as a stack (\<open>FixCountVector\<close>). The other one wraps \<open>LockFreeQueueV2\<close>, which the
  repository does not contain, so its methods are the parameters \<open>queue_v2\<close>.
  \<open>alloc\<close> and \<open>release\<close> are functions that change a world \<open>'s\<close>. \<open>None\<close> stands for undefined
  behaviour (a modulus by zero), for the exception of a negative size and for a call that never
  returns. The interface \<open>bounded_pool\<close> says what the allocator needs of a container.
\<close>

section \<open>The containers\<close>

record ('a, 'c) container =
  c_new :: 'c
  c_Init :: "int \<Rightarrow> 'c \<Rightarrow> 'c option"
  c_Size :: "'c \<Rightarrow> u64"
  c_Enqueue :: "'a \<Rightarrow> 'c \<Rightarrow> 'c \<times> int"
  c_Dequeue :: "'c \<Rightarrow> 'c \<times> int \<times> 'a option"

record 'a FixCountVector =
  fv_capacity :: u64
  fv_pool :: "'a list"

text \<open>\<open>resize\<close> makes the elements by value initialisation, which zeroes \<open>capacity_\<close>. \<open>reserve\<close> throws on a
  negative number, which is a huge unsigned one.\<close>

definition FixCountVector_new :: "'a FixCountVector" where
  "FixCountVector_new = \<lparr>fv_capacity = 0, fv_pool = []\<rparr>"

definition FixCountVector_Init :: "int \<Rightarrow> 'a FixCountVector \<Rightarrow> 'a FixCountVector option" where
  "FixCountVector_Init capacity q = (if capacity < 0 then None else Some (q\<lparr>fv_capacity := word_of_int capacity\<rparr>))"

definition FixCountVector_Size :: "'a FixCountVector \<Rightarrow> u64" where
  "FixCountVector_Size q = of_nat (length (fv_pool q))"

definition FixCountVector_Enqueue :: "'a \<Rightarrow> 'a FixCountVector \<Rightarrow> 'a FixCountVector \<times> int" where
  "FixCountVector_Enqueue v q =
     (if of_nat (length (fv_pool q)) = fv_capacity q then (q, - 1)
      else (q\<lparr>fv_pool := fv_pool q @ [v]\<rparr>, 0))"

definition FixCountVector_Dequeue :: "'a FixCountVector \<Rightarrow> 'a FixCountVector \<times> int \<times> 'a option" where
  "FixCountVector_Dequeue q =
     (if fv_pool q = [] then (q, - 1, None)
      else (q\<lparr>fv_pool := take (length (fv_pool q) - 1) (fv_pool q)\<rparr>, 0, Some (last (fv_pool q))))"

definition FixCountVector_ops :: "('a, 'a FixCountVector) container" where
  "FixCountVector_ops =
     \<lparr>c_new = FixCountVector_new, c_Init = FixCountVector_Init, c_Size = FixCountVector_Size,
      c_Enqueue = FixCountVector_Enqueue, c_Dequeue = FixCountVector_Dequeue\<rparr>"

text \<open>The queue that is not in the repository, and the wrapper around it.\<close>

record ('a, 'q) queue_v2 =
  v2_new :: 'q
  v2_Init :: "int \<Rightarrow> 'q \<Rightarrow> 'q option"
  v2_Size :: "'q \<Rightarrow> u32"
  v2_Enqueue :: "'a \<Rightarrow> bool \<Rightarrow> 'q \<Rightarrow> 'q \<times> int"
  v2_Dequeue :: "bool \<Rightarrow> 'q \<Rightarrow> 'q \<times> int \<times> 'a option"

definition FixCountLockFreeQueue_Init :: "('a, 'q) queue_v2 \<Rightarrow> int \<Rightarrow> 'q \<Rightarrow> 'q option" where
  "FixCountLockFreeQueue_Init V capacity q = v2_Init V capacity q"

definition FixCountLockFreeQueue_Size :: "('a, 'q) queue_v2 \<Rightarrow> 'q \<Rightarrow> u32" where
  "FixCountLockFreeQueue_Size V q = v2_Size V q"

definition FixCountLockFreeQueue_Enqueue :: "('a, 'q) queue_v2 \<Rightarrow> 'a \<Rightarrow> 'q \<Rightarrow> 'q \<times> int" where
  "FixCountLockFreeQueue_Enqueue V v q = v2_Enqueue V v False q"

definition FixCountLockFreeQueue_Dequeue :: "('a, 'q) queue_v2 \<Rightarrow> 'q \<Rightarrow> 'q \<times> int \<times> 'a option" where
  "FixCountLockFreeQueue_Dequeue V q = v2_Dequeue V False q"

definition FixCountLockFreeQueue_ops :: "('a, 'q) queue_v2 \<Rightarrow> ('a, 'q) container" where
  "FixCountLockFreeQueue_ops V =
     \<lparr>c_new = v2_new V, c_Init = FixCountLockFreeQueue_Init V, c_Size = ucast \<circ> FixCountLockFreeQueue_Size V,
      c_Enqueue = FixCountLockFreeQueue_Enqueue V, c_Dequeue = FixCountLockFreeQueue_Dequeue V\<rparr>"

section \<open>The allocator\<close>

record ('a, 'c, 's) FixCountAllocator =
  fa_alloc :: "'s \<Rightarrow> 's \<times> 'a"
  fa_release :: "'a \<Rightarrow> 's \<Rightarrow> 's"
  fa_capacity :: u32
  fa_pool :: "'c list"

text \<open>\<open>q.Init(capacity)\<close> takes an \<open>int\<close>: a capacity of \<open>2 ^ 31\<close> and more arrives as a negative number.\<close>

fun init_pools :: "('a, 'c) container \<Rightarrow> u32 \<Rightarrow> nat \<Rightarrow> 'c list option" where
  "init_pools C capacity 0 = Some []"
| "init_pools C capacity (Suc n) =
     (case c_Init C (sint capacity) (c_new C) of
        None \<Rightarrow> None
      | Some q \<Rightarrow> map_option (\<lambda>qs. q # qs) (init_pools C capacity n))"

definition FixCountAllocator_Init ::
  "('a, 'c) container \<Rightarrow> int \<Rightarrow> u32 \<Rightarrow> ('s \<Rightarrow> 's \<times> 'a) \<Rightarrow> ('a \<Rightarrow> 's \<Rightarrow> 's) \<Rightarrow> ('a, 'c, 's) FixCountAllocator option" where
  "FixCountAllocator_Init C shard capacity alloc release =
     (if shard < 0 then None
      else map_option (\<lambda>pool. \<lparr>fa_alloc = alloc, fa_release = release, fa_capacity = capacity, fa_pool = pool\<rparr>)
             (init_pools C capacity (nat shard)))"

text \<open>\<open>shard % pool_.size()\<close>: the \<open>int\<close> is converted to 64 bits without sign first.\<close>

definition pool_index :: "int \<Rightarrow> ('a, 'c, 's) FixCountAllocator \<Rightarrow> nat option" where
  "pool_index shard fa =
     (if fa_pool fa = [] then None
      else Some (unat ((word_of_int shard :: u64) mod of_nat (length (fa_pool fa)))))"

definition FixCountAllocator_AllocByShard ::
  "('a, 'c) container \<Rightarrow> int \<Rightarrow> ('a, 'c, 's) FixCountAllocator \<Rightarrow> 's \<Rightarrow> (('a, 'c, 's) FixCountAllocator \<times> 's \<times> 'a) option" where
  "FixCountAllocator_AllocByShard C shard fa s =
     (case pool_index shard fa of
        None \<Rightarrow> None
      | Some i \<Rightarrow>
          (case c_Dequeue C (fa_pool fa ! i) of
             (q, ret, v) \<Rightarrow>
               (let fa' = fa\<lparr>fa_pool := (fa_pool fa)[i := q]\<rparr>
                in if ret \<noteq> 0 then (case fa_alloc fa s of (s', v') \<Rightarrow> Some (fa', s', v'))
                   else map_option (\<lambda>v'. (fa', s, v')) v)))"

definition FixCountAllocator_ReleaseByShard ::
  "('a, 'c) container \<Rightarrow> int \<Rightarrow> 'a \<Rightarrow> ('a, 'c, 's) FixCountAllocator \<Rightarrow> 's \<Rightarrow> (('a, 'c, 's) FixCountAllocator \<times> 's) option" where
  "FixCountAllocator_ReleaseByShard C shard v fa s =
     (case pool_index shard fa of
        None \<Rightarrow> None
      | Some i \<Rightarrow>
          (if c_Size C (fa_pool fa ! i) \<ge> ucast (fa_capacity fa) then Some (fa, fa_release fa v s)
           else (case c_Enqueue C v (fa_pool fa ! i) of
                   (q, ret) \<Rightarrow>
                     (let fa' = fa\<lparr>fa_pool := (fa_pool fa)[i := q]\<rparr>
                      in if ret \<noteq> 0 then Some (fa', fa_release fa v s) else Some (fa', s)))))"

text \<open>The destructor: the loop over one pool, then over all of them.\<close>

partial_function (option) drain ::
  "('a, 'c) container \<Rightarrow> ('a \<Rightarrow> 's \<Rightarrow> 's) \<Rightarrow> 'c \<Rightarrow> 's \<Rightarrow> ('c \<times> 's) option" where
  "drain C release q s =
     (if c_Size C q = 0 then Some (q, s)
      else (case c_Dequeue C q of
              (q', ret, v) \<Rightarrow>
                if ret \<noteq> 0 then Some (q', s)
                else (case v of None \<Rightarrow> None | Some v' \<Rightarrow> drain C release q' (release v' s))))"

fun drain_all :: "('a, 'c) container \<Rightarrow> ('a \<Rightarrow> 's \<Rightarrow> 's) \<Rightarrow> 'c list \<Rightarrow> 's \<Rightarrow> 's option" where
  "drain_all C release [] s = Some s"
| "drain_all C release (q # qs) s =
     (case drain C release q s of None \<Rightarrow> None | Some (q', s') \<Rightarrow> drain_all C release qs s')"

definition FixCountAllocator_delete :: "('a, 'c) container \<Rightarrow> ('a, 'c, 's) FixCountAllocator \<Rightarrow> 's \<Rightarrow> 's option" where
  "FixCountAllocator_delete C fa s = drain_all C (fa_release fa) (fa_pool fa) s"

section \<open>What a pool keeps\<close>

text \<open>The resources that lie in the pools, and that every pool is a proper container of the allocator's capacity.\<close>

definition pooled :: "('c \<Rightarrow> 'a multiset) \<Rightarrow> ('a, 'c, 's) FixCountAllocator \<Rightarrow> 'a multiset" where
  "pooled items fa = sum_list (map items (fa_pool fa))"

definition pools_ok :: "(nat \<Rightarrow> 'c \<Rightarrow> bool) \<Rightarrow> ('a, 'c, 's) FixCountAllocator \<Rightarrow> bool" where
  "pools_ok ok fa \<longleftrightarrow> fa_pool fa \<noteq> [] \<and> length (fa_pool fa) < 2 ^ 64 \<and> (\<forall>q \<in> set (fa_pool fa). ok (unat (fa_capacity fa)) q)"

lemma sum_list_update_add:
  fixes f :: "'c \<Rightarrow> 'a multiset"
  assumes "i < length xs"
  shows "sum_list (map f (xs[i := q])) + f (xs ! i) = sum_list (map f xs) + f q"
  using assms
proof (induction xs arbitrary: i)
  case (Cons x xs)
  then show ?case by (cases i) (auto simp: ac_simps)
qed simp

lemma pool_index_range:
  assumes "pools_ok ok fa"
  obtains i where "pool_index shard fa = Some i" "i < length (fa_pool fa)" "ok (unat (fa_capacity fa)) (fa_pool fa ! i)"
proof -
  let ?n = "length (fa_pool fa)"
  have n: "0 < ?n" "?n < 2 ^ 64" using assms by (auto simp: pools_ok_def)
  then have "unat (of_nat ?n :: u64) = ?n" by (simp add: unat_of_nat)
  then have "unat ((word_of_int shard :: u64) mod of_nat ?n) < ?n" using n(1) by (simp add: unat_mod_distrib)
  then show thesis using that assms n by (simp add: pool_index_def pools_ok_def)
qed

lemma pools_ok_put:
  assumes "pools_ok ok fa" and "ok (unat (fa_capacity fa)) q"
  shows "pools_ok ok (fa\<lparr>fa_pool := (fa_pool fa)[i := q]\<rparr>)"
  using assms set_update_subset_insert [of "fa_pool fa" i q] by (auto simp: pools_ok_def)

lemma pooled_put:
  assumes "i < length (fa_pool fa)"
  shows "pooled items (fa\<lparr>fa_pool := (fa_pool fa)[i := q]\<rparr>) + items (fa_pool fa ! i) = pooled items fa + items q"
  using sum_list_update_add [OF assms] by (simp add: pooled_def)

text \<open>
  A container with its contents as a multiset. An enqueue may fail and then keeps the contents; a dequeue
  fails on an empty container only.
\<close>

locale bounded_pool =
  fixes C :: "('a, 'c) container" and items :: "'c \<Rightarrow> 'a multiset" and ok :: "nat \<Rightarrow> 'c \<Rightarrow> bool"
  assumes c_Init_ok: "n < 2 ^ 31 \<Longrightarrow> \<exists>q. c_Init C (int n) (c_new C) = Some q \<and> ok n q \<and> items q = {#}"
    and c_Size_items: "ok n q \<Longrightarrow> unat (c_Size C q) = size (items q)"
    and items_bound: "ok n q \<Longrightarrow> size (items q) \<le> n"
    and c_Dequeue_none: "ok n q \<Longrightarrow> items q = {#} \<Longrightarrow>
      \<exists>q' r v. c_Dequeue C q = (q', r, v) \<and> r \<noteq> 0 \<and> ok n q' \<and> items q' = {#}"
    and c_Dequeue_some: "ok n q \<Longrightarrow> items q \<noteq> {#} \<Longrightarrow>
      \<exists>q' v. c_Dequeue C q = (q', 0, Some v) \<and> ok n q' \<and> items q = add_mset v (items q')"
    and c_Enqueue_items: "ok n q \<Longrightarrow>
      \<exists>q' r. c_Enqueue C v q = (q', r) \<and> ok n q' \<and> items q' = (if r = 0 then add_mset v (items q) else items q)"
begin

lemma Init_pooled:
  assumes "0 < shard" and "shard < 2 ^ 31" and "unat capacity < 2 ^ 31"
  shows "\<exists>fa. FixCountAllocator_Init C shard capacity alloc release = Some fa \<and> pools_ok ok fa \<and> pooled items fa = {#} \<and>
    fa_alloc fa = alloc \<and> fa_release fa = release \<and> fa_capacity fa = capacity"
proof -
  have s: "sint capacity = int (unat capacity)"
    using assms(3) by (simp add: sint_small)
  have "\<exists>qs. init_pools C capacity n = Some qs \<and> length qs = n \<and> (\<forall>q \<in> set qs. ok (unat capacity) q) \<and>
      sum_list (map items qs) = {#}" for n
  proof (induction n)
    case (Suc n)
    with c_Init_ok [OF assms(3)] show ?case by (fastforce simp: s)
  qed simp
  from this [of "nat shard"] show ?thesis
    using assms(1,2) by (auto simp: FixCountAllocator_Init_def pools_ok_def pooled_def)
qed

lemma AllocByShard_pooled:
  assumes "pools_ok ok fa"
  shows "\<exists>fa' s' v. FixCountAllocator_AllocByShard C shard fa s = Some (fa', s', v) \<and> pools_ok ok fa' \<and>
    fa_alloc fa' = fa_alloc fa \<and> fa_release fa' = fa_release fa \<and> fa_capacity fa' = fa_capacity fa \<and>
    (s' = s \<and> pooled items fa = add_mset v (pooled items fa') \<or>
     (s', v) = fa_alloc fa s \<and> pooled items fa' = pooled items fa)"
proof -
  obtain i where i: "pool_index shard fa = Some i" "i < length (fa_pool fa)" "ok (unat (fa_capacity fa)) (fa_pool fa ! i)"
    using pool_index_range [OF assms] .
  let ?put = "\<lambda>q. fa\<lparr>fa_pool := (fa_pool fa)[i := q]\<rparr>"
  show ?thesis
  proof (cases "items (fa_pool fa ! i) = {#}")
    case True
    with c_Dequeue_none [OF i(3)] obtain q r v where q: "c_Dequeue C (fa_pool fa ! i) = (q, r, v)" "r \<noteq> 0"
      "ok (unat (fa_capacity fa)) q" "items q = {#}" by blast
    have "FixCountAllocator_AllocByShard C shard fa s = Some (?put q, fst (fa_alloc fa s), snd (fa_alloc fa s))"
      by (simp add: FixCountAllocator_AllocByShard_def i(1) q(1,2) split: prod.split)
    moreover have "pooled items (?put q) = pooled items fa" using pooled_put [OF i(2), of items q] True q(4) by simp
    ultimately show ?thesis using pools_ok_put [OF assms q(3)] by (auto simp: prod_eq_iff)
  next
    case False
    with c_Dequeue_some [OF i(3)] obtain q v where q: "c_Dequeue C (fa_pool fa ! i) = (q, 0, Some v)"
      "ok (unat (fa_capacity fa)) q" "items (fa_pool fa ! i) = add_mset v (items q)" by blast
    have "FixCountAllocator_AllocByShard C shard fa s = Some (?put q, s, v)"
      by (simp add: FixCountAllocator_AllocByShard_def i(1) q(1))
    moreover have "pooled items fa = add_mset v (pooled items (?put q))"
      using pooled_put [OF i(2), of items q] q(3) by simp
    ultimately show ?thesis using pools_ok_put [OF assms q(2)] by auto
  qed
qed

lemma ReleaseByShard_pooled:
  assumes "pools_ok ok fa"
  shows "\<exists>fa' s'. FixCountAllocator_ReleaseByShard C shard v fa s = Some (fa', s') \<and> pools_ok ok fa' \<and>
    fa_alloc fa' = fa_alloc fa \<and> fa_release fa' = fa_release fa \<and> fa_capacity fa' = fa_capacity fa \<and>
    (s' = s \<and> pooled items fa' = add_mset v (pooled items fa) \<or>
     s' = fa_release fa v s \<and> pooled items fa' = pooled items fa)"
proof -
  obtain i where i: "pool_index shard fa = Some i" "i < length (fa_pool fa)" "ok (unat (fa_capacity fa)) (fa_pool fa ! i)"
    using pool_index_range [OF assms] .
  let ?put = "\<lambda>q. fa\<lparr>fa_pool := (fa_pool fa)[i := q]\<rparr>"
  show ?thesis
  proof (cases "c_Size C (fa_pool fa ! i) \<ge> ucast (fa_capacity fa)")
    case True
    then show ?thesis using assms by (simp add: FixCountAllocator_ReleaseByShard_def i(1))
  next
    case False
    obtain q r where q: "c_Enqueue C v (fa_pool fa ! i) = (q, r)" "ok (unat (fa_capacity fa)) q"
      "items q = (if r = 0 then add_mset v (items (fa_pool fa ! i)) else items (fa_pool fa ! i))"
      using c_Enqueue_items [OF i(3)] by blast
    have "FixCountAllocator_ReleaseByShard C shard v fa s = Some (?put q, if r \<noteq> 0 then fa_release fa v s else s)"
      using False by (simp add: FixCountAllocator_ReleaseByShard_def i(1) q(1))
    moreover have "pooled items (?put q) = (if r = 0 then add_mset v (pooled items fa) else pooled items fa)"
      using pooled_put [OF i(2), of items q] q(3) by (simp split: if_splits)
    ultimately show ?thesis using pools_ok_put [OF assms q(2)] by auto
  qed
qed

lemma drain_items:
  assumes "ok n q"
  shows "\<exists>q' vs. drain C release q s = Some (q', fold release vs s) \<and> mset vs = items q"
  using assms
proof (induction "size (items q)" arbitrary: q s)
  case 0
  then have "c_Size C q = 0" using c_Size_items [of n q] by (simp add: unat_eq_zero)
  then show ?case using 0 by (subst drain.simps) (auto intro: exI [of _ "[]"])
next
  case (Suc k)
  then have "c_Size C q \<noteq> 0" using c_Size_items [of n q] by auto
  moreover obtain q' v where q: "c_Dequeue C q = (q', 0, Some v)" "ok n q'" "items q = add_mset v (items q')"
    using c_Dequeue_some [OF Suc.prems] Suc.hyps(2) by fastforce
  moreover obtain q'' vs where "drain C release q' (release v s) = Some (q'', fold release vs (release v s))" "mset vs = items q'"
    using Suc.hyps(1) [of q' "release v s"] Suc.hyps(2) q(2,3) by auto
  ultimately show ?case by (subst drain.simps) (auto intro!: exI [of _ "v # vs"])
qed

lemma delete_pooled:
  assumes "pools_ok ok fa"
  shows "\<exists>vs. FixCountAllocator_delete C fa s = Some (fold (fa_release fa) vs s) \<and> mset vs = pooled items fa"
proof -
  have "\<exists>vs. drain_all C release qs s = Some (fold release vs s) \<and> mset vs = sum_list (map items qs)"
    if "\<forall>q \<in> set qs. ok n q" for n release qs and s :: 'd
    using that
  proof (induction qs arbitrary: s)
    case (Cons q qs)
    obtain q' vs where d: "drain C release q s = Some (q', fold release vs s)" "mset vs = items q"
      using drain_items [of n q release s] Cons.prems by auto
    obtain ws where "drain_all C release qs (fold release vs s) = Some (fold release ws (fold release vs s))"
      "mset ws = sum_list (map items qs)"
      using Cons.IH [of "fold release vs s"] Cons.prems by auto
    with d show ?case by (auto intro!: exI [of _ "vs @ ws"])
  qed (auto intro: exI [of _ "[]"])
  then show ?thesis using assms by (auto simp: FixCountAllocator_delete_def pooled_def pools_ok_def)
qed

end

section \<open>The stack of resources\<close>

definition fv_ok :: "nat \<Rightarrow> 'a FixCountVector \<Rightarrow> bool" where
  "fv_ok n q \<longleftrightarrow> n < 2 ^ 31 \<and> fv_capacity q = of_nat n \<and> length (fv_pool q) \<le> n"

definition fv_items :: "'a FixCountVector \<Rightarrow> 'a multiset" where
  "fv_items q = mset (fv_pool q)"

lemma fv_items_fun: "fv_items = (\<lambda>q. mset (fv_pool q))"
  by (simp add: fun_eq_iff fv_items_def)

lemma fv_length_u64: "fv_ok n q \<Longrightarrow> unat (of_nat (length (fv_pool q)) :: u64) = length (fv_pool q)"
  by (simp add: fv_ok_def unat_of_nat)

lemma fv_full_iff:
  assumes "fv_ok n q"
  shows "(of_nat (length (fv_pool q)) = fv_capacity q) = (length (fv_pool q) = n)"
proof
  assume "of_nat (length (fv_pool q)) = fv_capacity q"
  then have "unat (of_nat (length (fv_pool q)) :: u64) = unat (of_nat n :: u64)" using assms by (simp add: fv_ok_def)
  then show "length (fv_pool q) = n" using assms fv_length_u64 [OF assms] by (simp add: fv_ok_def unat_of_nat)
qed (use assms in \<open>simp add: fv_ok_def\<close>)

interpretation fcv: bounded_pool FixCountVector_ops fv_items fv_ok
proof (unfold_locales, goal_cases)
  case (1 n)
  then show ?case
    by (simp add: FixCountVector_ops_def FixCountVector_Init_def FixCountVector_new_def fv_ok_def fv_items_def)
next
  case (2 n q)
  then show ?case by (simp add: FixCountVector_ops_def FixCountVector_Size_def fv_length_u64 fv_items_def)
next
  case (3 n q)
  then show ?case by (simp add: fv_ok_def fv_items_def)
next
  case (4 n q)
  then show ?case by (simp add: FixCountVector_ops_def FixCountVector_Dequeue_def fv_items_def)
next
  case (5 n q)
  then obtain xs x where "fv_pool q = xs @ [x]" by (cases "fv_pool q" rule: rev_cases) (auto simp: fv_items_def)
  with 5 show ?case by (simp add: FixCountVector_ops_def FixCountVector_Dequeue_def fv_items_def fv_ok_def)
next
  case (6 n q v)
  then show ?case
    using fv_full_iff [OF 6] by (auto simp: FixCountVector_ops_def FixCountVector_Enqueue_def fv_items_def fv_ok_def)
qed

section \<open>Clients\<close>

text \<open>
  A client takes a resource from the allocator, or gives back one it has; \<open>Put shard k\<close> gives back the
  \<open>k\<close>-th resource that is out. The world is extended by what was ever allocated and released.
\<close>

datatype pool_op = Get int | Put int nat

type_synonym ('a, 's) traced = "'s \<times> 'a list \<times> 'a list"

definition traced_alloc :: "('s \<Rightarrow> 's \<times> 'a) \<Rightarrow> ('a, 's) traced \<Rightarrow> ('a, 's) traced \<times> 'a" where
  "traced_alloc alloc w = (case w of (s, made, freed) \<Rightarrow> (case alloc s of (s', v) \<Rightarrow> ((s', made @ [v], freed), v)))"

definition traced_release :: "('a \<Rightarrow> 's \<Rightarrow> 's) \<Rightarrow> 'a \<Rightarrow> ('a, 's) traced \<Rightarrow> ('a, 's) traced" where
  "traced_release release v w = (case w of (s, made, freed) \<Rightarrow> (release v s, made, freed @ [v]))"

fun clients_step ::
  "('a, 'c) container \<Rightarrow> pool_op \<Rightarrow> ('a, 'c, 's) FixCountAllocator \<times> 's \<times> 'a list \<Rightarrow> (('a, 'c, 's) FixCountAllocator \<times> 's \<times> 'a list) option" where
  "clients_step C (Get shard) (fa, s, out) =
     map_option (\<lambda>(fa', s', v). (fa', s', out @ [v])) (FixCountAllocator_AllocByShard C shard fa s)"
| "clients_step C (Put shard k) (fa, s, out) =
     (if length out \<le> k then Some (fa, s, out)
      else map_option (\<lambda>(fa', s'). (fa', s', take k out @ drop (Suc k) out))
             (FixCountAllocator_ReleaseByShard C shard (out ! k) fa s))"

fun clients_run ::
  "('a, 'c) container \<Rightarrow> pool_op list \<Rightarrow> ('a, 'c, 's) FixCountAllocator \<times> 's \<times> 'a list \<Rightarrow> (('a, 'c, 's) FixCountAllocator \<times> 's \<times> 'a list) option" where
  "clients_run C [] st = Some st"
| "clients_run C (op # ops) st = (case clients_step C op st of None \<Rightarrow> None | Some st' \<Rightarrow> clients_run C ops st')"

text \<open>Everything allocated is in a pool, out or released.\<close>

definition pool_balanced ::
  "('c \<Rightarrow> 'a multiset) \<Rightarrow> (nat \<Rightarrow> 'c \<Rightarrow> bool) \<Rightarrow> ('s \<Rightarrow> 's \<times> 'a) \<Rightarrow> ('a \<Rightarrow> 's \<Rightarrow> 's) \<Rightarrow>
     ('a, 'c, ('a, 's) traced) FixCountAllocator \<times> ('a, 's) traced \<times> 'a list \<Rightarrow> bool" where
  "pool_balanced items ok alloc release st \<longleftrightarrow> (case st of (fa, (s, made, freed), out) \<Rightarrow>
     pools_ok ok fa \<and> fa_alloc fa = traced_alloc alloc \<and> fa_release fa = traced_release release \<and>
     mset made = pooled items fa + mset out + mset freed)"

lemma mset_take_drop_nth: "k < length xs \<Longrightarrow> mset xs = add_mset (xs ! k) (mset (take k xs @ drop (Suc k) xs))"
  by (metis id_take_nth_drop mset.simps(2) mset_append union_mset_add_mset_right)

lemma fold_traced_release:
  "fold (traced_release release) vs (s, made, freed) = (fold release vs s, made, freed @ vs)"
  by (induction vs arbitrary: s freed) (simp_all add: traced_release_def)

context bounded_pool
begin

lemma clients_step_balanced:
  assumes "pool_balanced items ok alloc release st"
  shows "\<exists>st'. clients_step C op st = Some st' \<and> pool_balanced items ok alloc release st' \<and>
    fa_capacity (fst st') = fa_capacity (fst st)"
proof -
  obtain fa s made freed out where st: "st = (fa, (s, made, freed), out)" by (metis prod_cases3)
  have fa: "pools_ok ok fa" "fa_alloc fa = traced_alloc alloc" "fa_release fa = traced_release release"
    "mset made = pooled items fa + mset out + mset freed"
    using assms by (simp_all add: pool_balanced_def st)
  show ?thesis
  proof (cases op)
    case (Get shard)
    from AllocByShard_pooled [OF fa(1), of shard "(s, made, freed)"] show ?thesis
      by (auto simp: st Get pool_balanced_def fa(2-4) traced_alloc_def split: prod.splits)
  next
    case (Put shard k)
    show ?thesis
    proof (cases "length out \<le> k")
      case True
      then show ?thesis using assms by (simp add: st Put)
    next
      case False
      then have "mset out = add_mset (out ! k) (mset (take k out @ drop (Suc k) out))" by (intro mset_take_drop_nth) simp
      with ReleaseByShard_pooled [OF fa(1), of shard "out ! k" "(s, made, freed)"] False show ?thesis
        by (auto simp: st Put pool_balanced_def fa(2-4) traced_release_def)
    qed
  qed
qed

lemma clients_run_balanced:
  assumes "pool_balanced items ok alloc release st"
  shows "\<exists>st'. clients_run C ops st = Some st' \<and> pool_balanced items ok alloc release st' \<and>
    fa_capacity (fst st') = fa_capacity (fst st)"
  using assms
proof (induction ops arbitrary: st)
  case (Cons op ops)
  with clients_step_balanced [of alloc release st op] show ?case by fastforce
qed auto

lemma pool_life:
  assumes "0 < shard" and "shard < 2 ^ 31" and "unat capacity < 2 ^ 31"
    and "FixCountAllocator_Init C shard capacity (traced_alloc alloc) (traced_release release) = Some fa"
  shows "\<exists>fa' s' made freed out vs. clients_run C ops (fa, (s, [], []), []) = Some (fa', (s', made, freed), out) \<and>
    mset made = sum_list (map items (fa_pool fa')) + mset out + mset freed \<and>
    (\<lambda>q. size (items q)) ` set (fa_pool fa') \<subseteq> {..unat capacity} \<and>
    FixCountAllocator_delete C fa' (s', made, freed) = Some (fold release vs s', made, freed @ vs) \<and>
    mset made = mset out + mset (freed @ vs)"
proof -
  have "pool_balanced items ok alloc release (fa, (s, [], []), [])" "fa_capacity fa = capacity"
    using Init_pooled [OF assms(1-3), of "traced_alloc alloc" "traced_release release"] assms(4)
    by (auto simp: pool_balanced_def)
  with clients_run_balanced [of alloc release "(fa, (s, [], []), [])" ops] obtain fa' s' made freed out where
    r: "clients_run C ops (fa, (s, [], []), []) = Some (fa', (s', made, freed), out)" "fa_capacity fa' = capacity"
      "pool_balanced items ok alloc release (fa', (s', made, freed), out)"
    by (metis fst_conv prod_cases3)
  then have b: "pools_ok ok fa'" "fa_release fa' = traced_release release" "mset made = pooled items fa' + mset out + mset freed"
    by (simp_all add: pool_balanced_def)
  have "(\<lambda>q. size (items q)) ` set (fa_pool fa') \<subseteq> {..unat capacity}"
    using b(1) r(2) items_bound by (auto simp: pools_ok_def)
  moreover obtain vs where "FixCountAllocator_delete C fa' (s', made, freed) = Some (fold release vs s', made, freed @ vs)"
    "mset vs = pooled items fa'"
    using delete_pooled [OF b(1), of "(s', made, freed)"] by (auto simp: b(2) fold_traced_release)
  ultimately show ?thesis using r(1) b(3)
    by (intro exI [of _ fa'] exI [of _ s'] exI [of _ made] exI [of _ freed] exI [of _ out] exI [of _ vs])
      (simp add: pooled_def)
qed

end

end
