(* ===== verification/Util_Properties.thy ===== *)
theory Util_Properties
  imports Worker_Pool Lru_Map Paxos_Group Id_Gen Fix_Count_Allocator
begin

text \<open>
  What the components of util/ and the member mapping of core/paxos_group.cpp guarantee to their
  clients.
\<close>

section \<open>Proposal ids\<close>

text \<open>
  \<open>SetGreaterThan\<close> moves a generator up to the first id of its own progression that is not
  below the given value: the result is congruent to the old id modulo the step, at least the value,
  and less than one step above it. (The value itself is a possible result, so the new id need not be
  greater than it.)
\<close>

theorem set_greater_than_rounds_up:
  assumes "ig_id g < v" and "ig_step g \<noteq> 0" and "unat v + unat (ig_step g) \<le> 2 ^ 64"
  shows "\<exists>g' k. IdGen_SetGreaterThan v g = Some (g', ig_id g') \<and> ig_step g' = ig_step g \<and>
    unat (ig_id g') = unat (ig_id g) + k * unat (ig_step g) \<and>
    unat v \<le> unat (ig_id g') \<and> unat (ig_id g') < unat v + unat (ig_step g)"
  by (rule IdGen_SetGreaterThan_upwards [OF assms])

theorem set_greater_than_rounds_up_witness:
  "\<exists>g' k. IdGen_SetGreaterThan 7 \<lparr>ig_id = 1, ig_step = 3\<rparr> = Some (g', ig_id g') \<and>
    ig_step g' = ig_step \<lparr>ig_id = 1, ig_step = 3\<rparr> \<and>
    unat (ig_id g') = unat (ig_id \<lparr>ig_id = 1, ig_step = 3\<rparr>) + k * unat (ig_step \<lparr>ig_id = 1, ig_step = 3\<rparr>) \<and>
    unat (7 :: u64) \<le> unat (ig_id g') \<and>
    unat (ig_id g') < unat (7 :: u64) + unat (ig_step \<lparr>ig_id = 1, ig_step = 3\<rparr>)"
  by (rule set_greater_than_rounds_up) simp_all



section \<open>Member mapping\<close>

text \<open>
  C40: The member tables are built without a failing assertion, and for every log instance they
  are inverse to each other: server to member to server, and member to server to member, in the
  groups of three and of five; ids out of range give -1.
\<close>

theorem member_server_round_trip:
  "PaxosGroup3 \<noteq> None \<and> PaxosGroup5 \<noteq> None \<and>
   (\<forall>p s. 0 \<le> s \<and> s < 3 \<longrightarrow>
      GetSvrIdByMemberId 3 (the PaxosGroup3) p (GetMemberIdBySvrId 3 (the PaxosGroup3) p s) = s \<and>
      GetMemberIdBySvrId 3 (the PaxosGroup3) p (GetSvrIdByMemberId 3 (the PaxosGroup3) p s) = s) \<and>
   (\<forall>p s. 0 \<le> s \<and> s < 5 \<longrightarrow>
      GetSvrIdByMemberId 5 (the PaxosGroup5) p (GetMemberIdBySvrId 5 (the PaxosGroup5) p s) = s \<and>
      GetMemberIdBySvrId 5 (the PaxosGroup5) p (GetSvrIdByMemberId 5 (the PaxosGroup5) p s) = s) \<and>
   (\<forall>p s. s < 0 \<or> 3 \<le> s \<longrightarrow> GetMemberIdBySvrId 3 (the PaxosGroup3) p s = - 1)"
  using PaxosGroup3_defined PaxosGroup5_defined pg3.server_of_member pg3.member_of_server
    pg5.server_of_member pg5.member_of_server pg3.invalid_id by simp

theorem member_server_round_trip_witness:
  "GetMemberIdBySvrId 3 (the PaxosGroup3) 4 (GetSvrIdByMemberId 3 (the PaxosGroup3) 4 2) = 2 \<and>
   GetMemberIdBySvrId 5 (the PaxosGroup5) 77 (GetSvrIdByMemberId 5 (the PaxosGroup5) 77 3) = 3"
  using member_server_round_trip by simp

text \<open>
  Every log instance has exactly one master among the servers of a group of three, and one
  among those of a group of five, and over a full period of instances every server is the
  master equally often: of 6 instances twice each, of 120 instances 24 times each.
\<close>

theorem one_balanced_master:
  "(\<exists>!s. 0 \<le> s \<and> s < 3 \<and> GetMemberIdBySvrId 3 (the PaxosGroup3) p s = 0) \<and>
   (\<exists>!s. 0 \<le> s \<and> s < 5 \<and> GetMemberIdBySvrId 5 (the PaxosGroup5) p s = 0) \<and>
   map (\<lambda>s. master_rows s (the PaxosGroup3)) [0, 1, 2] = [2, 2, 2] \<and>
   map (\<lambda>s. master_rows s (the PaxosGroup5)) [0, 1, 2, 3, 4] = [24, 24, 24, 24, 24]"
  using pg3.one_master [of p] pg5.one_master [of p] master_rows_table by simp

section \<open>The bounded map\<close>

text \<open>
  C30: The map with its list of iterators implements a plain list of pairs, most recently used
  first. Writing puts the pair in front and cuts the list at the capacity, reading moves the
  pair to the front and returns its value, deleting removes it; the two structures stay
  consistent throughout.
\<close>

theorem lru_map_refines_list:
  assumes "lru_inv m"
  shows "lru_inv (LruMap_Put k v m) \<and> lru_inv (fst (LruMap_GetPtr k m)) \<and> lru_inv (fst (LruMap_Del k m)) \<and>
    lru_list (LruMap_Put k v m) =
      take (LruMap_Capacity m) ((k, v) # filter (\<lambda>p. fst p \<noteq> k) (lru_list m)) \<and>
    snd (LruMap_GetPtr k m) = map_of (lru_list m) k \<and>
    lru_list (fst (LruMap_GetPtr k m)) =
      (case map_of (lru_list m) k of
         None \<Rightarrow> lru_list m | Some w \<Rightarrow> (k, w) # filter (\<lambda>p. fst p \<noteq> k) (lru_list m)) \<and>
    lru_list (fst (LruMap_Del k m)) = filter (\<lambda>p. fst p \<noteq> k) (lru_list m) \<and>
    LruMap_Size m = length (lru_list m)"
  using lru_inv_Put [OF assms] lru_inv_GetPtr [OF assms] lru_list_Del [OF assms]
    lru_list_Put [OF assms] LruMap_GetPtr_value [OF assms] lru_list_GetPtr [OF assms]
    LruMap_Size_list [OF assms]
  by (simp add: LruMap_Capacity_def lru_look_def)

theorem lru_map_refines_list_witness:
  "lru_list (LruMap_Put (3 :: nat) (30 :: nat) (lru_run [OpPut 1 10, OpPut 2 20, OpGet 1] (LruMap_new 2))) =
   [(3, 30), (1, 10)]"
proof -
  let ?m = "lru_run [OpPut (1 :: nat) (10 :: nat), OpPut 2 20, OpGet 1] (LruMap_new 2)"
  have inv: "lru_inv ?m" by (simp add: lru_inv_Put lru_inv_GetPtr)
  have "lru_list ?m = [(1, 10), (2, 20)]" "LruMap_Capacity ?m = 2" by code_simp+
  with lru_map_refines_list [OF inv, of 3 30] show ?thesis by simp
qed

text \<open>
  C31: A pair just written survives as long as fewer distinct other keys are used than the
  capacity: whatever reads and writes follow, the key is still present.
\<close>

theorem lru_map_retention:
  assumes "lru_inv m" and "card (lru_op_key ` set ops - {k}) < LruMap_Capacity m"
  shows "lru_look (lru_run ops (LruMap_Put k v m)) k \<noteq> None"
proof (rule recent_run [where S = "{}"])
  show "lru_inv (LruMap_Put k v m)" using assms(1) by (rule lru_inv_Put)
  show "recent k {} (LruMap_Put k v m)"
    using assms by (intro recent_Put_same) (auto simp: LruMap_Capacity_def)
qed (use assms(2) in \<open>simp_all add: LruMap_Capacity_def\<close>)

theorem lru_map_retention_witness:
  "lru_look (lru_run [OpPut 1 10, OpPut 2 20, OpGet 1, OpPut 2 30]
     (LruMap_Put (5 :: nat) (50 :: nat) (LruMap_new 3))) 5 \<noteq> None"
  by (rule lru_map_retention) (simp, code_simp)

section \<open>Queues and workers\<close>


definition wrapped_queue :: "nat LockFreeQueue" where
  "wrapped_queue = (fst (LockFreeQueue_Init 2 LockFreeQueue_new))
     \<lparr>lq_head := 0, lq_tail := - 1, lq_slots := [\<lparr>qs_flag = FLAG_NULL, qs_data = None\<rparr>,
        \<lparr>qs_flag = FLAG_SETED, qs_data = Some 7\<rparr>, \<lparr>qs_flag = FLAG_NULL, qs_data = None\<rparr>]\<rparr>"

lemma wrapped_queue_inv: "lq_inv wrapped_queue" "lq_list wrapped_queue = [7]"
  "lq_count wrapped_queue = 1" "lq_cap wrapped_queue = 2"
proof -
  have c: "lq_count wrapped_queue = 1" "lq_cap wrapped_queue = 2" "lq_init wrapped_queue"
    "length (lq_slots wrapped_queue) = 3" "lq_tail wrapped_queue = - 1"
    "lq_slots wrapped_queue ! 1 = \<lparr>qs_flag = FLAG_SETED, qs_data = Some 7\<rparr>"
    "lq_slots wrapped_queue ! 0 = \<lparr>qs_flag = FLAG_NULL, qs_data = None\<rparr>"
    by code_simp+
  have p: "lq_pos wrapped_queue 0 = 1"
    by (simp add: lq_pos_def c(2) c(5) unsigned_minus_1_eq_mask mask_eq_exp_minus_1)
  with c show "lq_list wrapped_queue = [7]" by (simp add: lq_list_def)
  show "lq_inv wrapped_queue"
    unfolding lq_inv_def using c p by (auto simp: less_2_cases_iff)
  show "lq_count wrapped_queue = 1" "lq_cap wrapped_queue = 2" by (fact c)+
qed


text \<open>
  When the head counter has wrapped below the tail, a dequeue reports an empty queue although
  there is an element in it; the next enqueue rebases the counters and makes it visible again.
\<close>

theorem wrapped_queue_hides_elements:
  "lq_inv wrapped_queue \<and> lq_list wrapped_queue = [7] \<and>
   LockFreeQueue_Dequeue False wrapped_queue = Some (wrapped_queue, RT_EMPTY, None) \<and>
   (\<exists>q'. LockFreeQueue_Enqueue 8 False wrapped_queue = Some (q', RT_OK) \<and>
      (\<exists>q''. LockFreeQueue_Dequeue False q' = Some (q'', RT_OK, Some 7)))"
proof -
  let ?q = "fst (the (LockFreeQueue_Enqueue 8 False wrapped_queue))"
  have "LockFreeQueue_Dequeue False wrapped_queue = Some (wrapped_queue, RT_EMPTY, None)"
    "LockFreeQueue_Enqueue 8 False wrapped_queue = Some (?q, RT_OK)"
    "LockFreeQueue_Dequeue False ?q = Some (fst (the (LockFreeQueue_Dequeue False ?q)), RT_OK, Some 7)"
    by code_simp+
  with wrapped_queue_inv show ?thesis by blast
qed

text \<open>
  C33: A started worker pool loses, duplicates and reorders nothing. Under any interleaving of
  producers and workers no call gets stuck, and for every worker the requests accepted for it are, in
  this order, those it has handed to the handler followed by those in its queue.
\<close>

theorem worker_pool_fifo:
  assumes "0 < n" and "0 < unat sz" and "unat sz < 2 ^ 32 - 1"
  shows "\<exists>p l. pool_run evs (WorkerPool_StartWorker n sz WorkerPool_new,
      \<lparr>pl_accepted = (\<lambda>_. []), pl_handled = (\<lambda>_. [])\<rparr>) = Some (p, l) \<and>
    (\<forall>i < n. pl_accepted l i = pl_handled l i @ wp_queue p i)"
proof -
  let ?s = "(WorkerPool_StartWorker n sz WorkerPool_new :: 'a WorkerPool, \<lparr>pl_accepted = (\<lambda>_. []), pl_handled = (\<lambda>_. [])\<rparr>)"
  have "length (wp_workers (fst ?s)) = n" "wp_status (fst ?s) = 1"
    by (simp_all add: WorkerPool_StartWorker_def WorkerPool_new_def)
  moreover have "wp_inv (fst ?s)" "\<forall>i < n. wp_queue (fst ?s) i = []"
    by (simp_all add: WorkerPool_StartWorker_inv(1) [OF assms] WorkerPool_StartWorker_inv(2) [OF assms])
  ultimately have "pool_log_inv ?s" by (simp add: pool_log_inv_def)
  from pool_run_inv [OF this, of evs] \<open>length (wp_workers (fst ?s)) = n\<close> show ?thesis
    by (auto simp: pool_log_inv_def)
qed

theorem worker_pool_fifo_witness:
  "\<exists>p l. pool_run [EvAdd 4 (10 :: nat), EvAdd 1 20, EvAdd 6 30, EvIter 0, EvIter 1]
      (WorkerPool_StartWorker 2 4 WorkerPool_new, \<lparr>pl_accepted = (\<lambda>_. []), pl_handled = (\<lambda>_. [])\<rparr>) = Some (p, l) \<and>
    (\<forall>i < 2. pl_accepted l i = pl_handled l i @ wp_queue p i)"
  by (rule worker_pool_fifo) simp_all

section \<open>Pools of resources\<close>

text \<open>
  C34: A pool neither loses nor duplicates a resource. Whatever clients take and give back, every call
  returns; what was ever allocated is, with multiplicity, what lies in the pools, what
  clients hold and what was released; no pool holds more than its capacity; and the destructor returns after
  releasing exactly what lay in the pools.
\<close>

theorem pool_conserves_resources:
  assumes "0 < shard" and "shard < 2 ^ 31" and "unat capacity < 2 ^ 31"
    and "FixCountAllocator_Init FixCountVector_ops shard capacity (traced_alloc alloc) (traced_release release) = Some fa"
  shows "\<exists>fa' s' made freed out vs. clients_run FixCountVector_ops ops (fa, (s, [], []), []) = Some (fa', (s', made, freed), out) \<and>
    mset made = sum_list (map (\<lambda>q. mset (fv_pool q)) (fa_pool fa')) + mset out + mset freed \<and>
    (\<lambda>q. length (fv_pool q)) ` set (fa_pool fa') \<subseteq> {..unat capacity} \<and>
    FixCountAllocator_delete FixCountVector_ops fa' (s', made, freed) = Some (fold release vs s', made, freed @ vs) \<and>
    mset made = mset out + mset (freed @ vs)"
  using fcv.pool_life [OF assms, of ops s] by (simp only: fv_items_fun size_mset)

definition example_pool :: "(nat, nat FixCountVector, (nat, nat) traced) FixCountAllocator" where
  "example_pool = the (FixCountAllocator_Init FixCountVector_ops 2 1 (traced_alloc (\<lambda>n. (Suc n, n))) (traced_release (\<lambda>v n. n)))"

theorem pool_conserves_resources_witness:
  "\<exists>fa' s' made freed out vs.
    clients_run FixCountVector_ops [Get 0, Get (- 1), Get 2, Put 2 0, Put 0 0, Get 4] (example_pool, (0, [], []), []) = Some (fa', (s', made, freed), out) \<and>
    mset made = sum_list (map (\<lambda>q. mset (fv_pool q)) (fa_pool fa')) + mset out + mset freed \<and>
    (\<lambda>q. length (fv_pool q)) ` set (fa_pool fa') \<subseteq> {..unat (1 :: u32)} \<and>
    FixCountAllocator_delete FixCountVector_ops fa' (s', made, freed) = Some (fold (\<lambda>v n. n) vs s', made, freed @ vs) \<and>
    mset made = mset out + mset (freed @ vs)"
proof (rule pool_conserves_resources [where shard = 2 and alloc = "\<lambda>n. (Suc n, n)"])
  show "FixCountAllocator_Init FixCountVector_ops 2 1 (traced_alloc (\<lambda>n. (Suc n, n))) (traced_release (\<lambda>v n. n)) = Some example_pool"
    using fcv.Init_pooled [of 2 1 "traced_alloc (\<lambda>n :: nat. (Suc n, n))" "traced_release (\<lambda>v n. n)"] by (auto simp: example_pool_def)
qed simp_all

end
