(* ===== verification/Conn.thy ===== *)
theory Conn
  imports Lru_Map Id_Gen Config
begin

text \<open>
  Connections to the acceptors, \<open>src/network/conn.h\<close> and \<open>src/network/conn.cpp\<close>: the pending
  requests of a remote connection and the connection manager.

  Messages are \<open>shared_ptr\<close>s and one message is handed to several connections, each of which
  writes its own request id into it. They are therefore addresses into an explicit heap here.
  \<open>DoWrite\<close> is virtual with no body in the sources and a parameter: given the address, the heap and the state
  of the network it yields the new network and its return code. Callbacks are data of type \<open>'cb\<close>.
\<close>

section \<open>Connections\<close>

type_synonym msg_ptr = nat
type_synonym msg_heap = "msg_ptr \<Rightarrow> PaxosMsg"
type_synonym 'net do_write = "msg_ptr \<Rightarrow> msg_heap \<Rightarrow> 'net \<Rightarrow> 'net \<times> int"

record 'cb RpcReqData =
  rd_timeout_ms :: u32
  rd_cb :: 'cb
  rd_data :: msg_ptr

datatype ConnType = ConnType_INVALID | ConnType_LOCAL | ConnType_REMOTE

record Conn =
  cn_fd :: int
  cn_type :: ConnType
  cn_addr :: AddrInfo

definition Conn_new :: "ConnType \<Rightarrow> AddrInfo \<Rightarrow> Conn" where
  "Conn_new type addr = \<lparr>cn_fd = - 1, cn_type = type, cn_addr = addr\<rparr>"

definition Conn_IsLocal :: "'a Conn_scheme \<Rightarrow> bool" where
  "Conn_IsLocal c \<longleftrightarrow> cn_type c = ConnType_LOCAL"

definition LocalConn_new :: "AddrInfo \<Rightarrow> Conn" where
  "LocalConn_new addr = Conn_new ConnType_LOCAL addr"

text \<open>\<open>onReq_\<close> is a private \<open>std::function\<close> that nothing in the sources assigns: it stays empty.\<close>

record ('cb, 'h) RemoteConn = Conn +
  rc_reqid :: IdGen
  rc_onReq :: "'h option"
  rc_reqToRemote :: "(u64, 'cb RpcReqData) LruMap"

definition RemoteConn_new :: "u64 \<Rightarrow> int \<Rightarrow> AddrInfo \<Rightarrow> ('cb, 'h) RemoteConn option" where
  "RemoteConn_new now concur_num addr = do {
     g \<leftarrow> IdGenByDate now 0xff 1;
     Some \<lparr>cn_fd = - 1, cn_type = ConnType_REMOTE, cn_addr = addr, rc_reqid = g, rc_onReq = None,
           rc_reqToRemote = LruMap_new (unat (of_int concur_num :: u64))\<rparr>
   }"

section \<open>Requests and responses\<close>

definition set_reqid :: "msg_ptr \<Rightarrow> u64 \<Rightarrow> msg_heap \<Rightarrow> msg_heap" where
  "set_reqid p i h = h(p := (h p)\<lparr>m_reqid := i\<rparr>)"

definition RemoteConn_DoRpcRequest ::
    "'net do_write \<Rightarrow> 'cb RpcReqData \<Rightarrow> msg_heap \<times> 'net \<times> ('cb, 'h) RemoteConn \<Rightarrow>
     (msg_heap \<times> 'net \<times> ('cb, 'h) RemoteConn) \<times> int" where
  "RemoteConn_DoRpcRequest DoWrite req = (\<lambda>(h, net, c).
     let (g, i) = IdGen_GetAndInc (rc_reqid c);
         h1 = set_reqid (rd_data req) i h;
         c1 = c\<lparr>rc_reqid := g, rc_reqToRemote := LruMap_Put (m_reqid (h1 (rd_data req))) req (rc_reqToRemote c)\<rparr>;
         (net1, ret) = DoWrite (rd_data req) h1 net
     in if ret \<noteq> err kErrCode_OK
        then ((h1, net1, c1\<lparr>rc_reqToRemote :=
                 fst (LruMap_Del (m_reqid (h1 (rd_data req))) (rc_reqToRemote c1))\<rparr>), ret)
        else ((h1, net1, c1), err kErrCode_OK))"

text \<open>What \<open>HandleRecv\<close> calls: the callback of a request, or the handler of incoming requests.\<close>

datatype ('cb, 'h) recv_call = CallBack 'cb msg_ptr | CallHandler 'h msg_ptr

text \<open>Calling the empty \<open>onReq_\<close> throws \<open>std::bad_function_call\<close>: \<open>None\<close>.\<close>

definition RemoteConn_HandleRecv ::
    "msg_heap \<Rightarrow> msg_ptr \<Rightarrow> ('cb, 'h) RemoteConn \<Rightarrow> (('cb, 'h) RemoteConn \<times> ('cb, 'h) recv_call) option" where
  "RemoteConn_HandleRecv h req c =
     (case LruMap_GetPtr (m_reqid (h req)) (rc_reqToRemote c) of
        (m, Some rd) \<Rightarrow>
          Some (c\<lparr>rc_reqToRemote := fst (LruMap_Del (m_reqid (h req)) m)\<rparr>, CallBack (rd_cb rd) req)
      | (m, None) \<Rightarrow>
          map_option (\<lambda>f. (c\<lparr>rc_reqToRemote := m\<rparr>, CallHandler f req)) (rc_onReq c))"

section \<open>The connection manager\<close>

record 'conn ConnMng =
  cm_config :: Configure
  cm_conn :: "'conn list"

definition ConnMng_new :: "Configure \<Rightarrow> 'conn ConnMng" where
  "ConnMng_new config = \<lparr>cm_config = config, cm_conn = []\<rparr>"

fun ConnMng_CreateConn_loop :: "(AddrInfo \<Rightarrow> 'conn) \<Rightarrow> AddrInfo \<Rightarrow> AddrInfo list \<Rightarrow> 'conn list \<times> int \<Rightarrow> 'conn list \<times> int" where
  "ConnMng_CreateConn_loop conn_creator local [] s = s"
| "ConnMng_CreateConn_loop conn_creator local (p # ps) (conn, c) =
     ConnMng_CreateConn_loop conn_creator local ps
       (if AddrInfo_eq p local then conn_creator p # conn else conn @ [conn_creator p], c + 1)"

definition ConnMng_CreateConn :: "(AddrInfo \<Rightarrow> 'conn) \<Rightarrow> 'conn ConnMng \<Rightarrow> 'conn ConnMng \<times> int" where
  "ConnMng_CreateConn conn_creator cm =
     (let (conn, c) = ConnMng_CreateConn_loop conn_creator (cf_local (cm_config cm)) (cf_peer (cm_config cm)) ([], 0)
      in (cm\<lparr>cm_conn := conn\<rparr>, c))"

definition ConnMng_GetAllConn :: "u64 \<Rightarrow> 'conn ConnMng \<Rightarrow> 'conn list" where
  "ConnMng_GetAllConn pinst cm = cm_conn cm"

lemma ConnMng_CreateConn_loop_eq:
  "ConnMng_CreateConn_loop mk l ps (conn, c) =
     (map mk (rev (filter (\<lambda>p. p = l) ps)) @ conn @ map mk (filter (\<lambda>p. p \<noteq> l) ps), c + int (length ps))"
  by (induction ps arbitrary: conn c) auto

section \<open>Pending requests\<close>

definition rc_inv :: "('cb, 'h) RemoteConn \<Rightarrow> bool" where
  "rc_inv c \<longleftrightarrow> lru_inv (rc_reqToRemote c) \<and> 0 < LruMap_Capacity (rc_reqToRemote c)"

definition rc_pending :: "('cb, 'h) RemoteConn \<Rightarrow> u64 \<Rightarrow> 'cb RpcReqData option" where
  "rc_pending c = lru_look (rc_reqToRemote c)"


lemma lru_look_Del: "lru_inv m \<Longrightarrow> lru_look (fst (LruMap_Del k m)) = (lru_look m)(k := None)"
  by (rule ext) (auto simp: lru_look_def lru_list_Del map_of_filter_other map_of_eq_None_iff)

lemma capacity_Del [simp]: "LruMap_Capacity (fst (LruMap_Del k m)) = LruMap_Capacity m"
  by (simp add: LruMap_Capacity_def)

lemma RemoteConn_DoRpcRequest_pending:
  assumes "rc_inv c" and "RemoteConn_DoRpcRequest DoWrite req (h, net, c) = ((h', net', c'), ret)"
  defines "i \<equiv> IdGen_Get (rc_reqid c)"
  shows "rc_inv c'" and "h' = set_reqid (rd_data req) i h"
    and "IdGen_Get (rc_reqid c') = i + ig_step (rc_reqid c)" and "rc_onReq c' = rc_onReq c"
    and "ret = err kErrCode_OK \<Longrightarrow> rc_pending c' i = Some req"
    and "ret \<noteq> err kErrCode_OK \<Longrightarrow> rc_pending c' i = None"
    and "k \<noteq> i \<Longrightarrow> rc_pending c' k \<noteq> None \<Longrightarrow> rc_pending c' k = rc_pending c k"
proof -
  let ?m = "rc_reqToRemote c"
  have inv: "lru_inv ?m" "0 < LruMap_Capacity ?m" using assms(1) by (simp_all add: rc_inv_def)
  note put = lru_inv_Put [OF inv(1), of i req] lru.look_put_same [OF inv, of i req]
    lru.look_put_other [OF inv(1), of _ i req]
  have h: "h' = set_reqid (rd_data req) i h" "m_reqid (h' (rd_data req)) = i"
    and c: "c' = c\<lparr>rc_reqid := (rc_reqid c)\<lparr>ig_id := i + ig_step (rc_reqid c)\<rparr>, rc_reqToRemote :=
      if ret = err kErrCode_OK then LruMap_Put i req ?m else fst (LruMap_Del i (LruMap_Put i req ?m))\<rparr>"
    using assms(2) unfolding i_def
    by (auto simp: RemoteConn_DoRpcRequest_def IdGen_GetAndInc_def IdGen_Get_def set_reqid_def Let_def
        split: prod.splits if_splits)
  show "h' = set_reqid (rd_data req) i h" by (rule h(1))
  show "rc_inv c'" using inv put(1) by (simp add: c rc_inv_def lru_list_Del(3) lru.capacity_kept)
  show "IdGen_Get (rc_reqid c') = i + ig_step (rc_reqid c)" "rc_onReq c' = rc_onReq c"
    by (simp_all add: c IdGen_Get_def)
  show "ret = err kErrCode_OK \<Longrightarrow> rc_pending c' i = Some req"
    and "ret \<noteq> err kErrCode_OK \<Longrightarrow> rc_pending c' i = None"
    using put(1,2) by (simp_all add: c rc_pending_def lru_look_Del)
  show "k \<noteq> i \<Longrightarrow> rc_pending c' k \<noteq> None \<Longrightarrow> rc_pending c' k = rc_pending c k"
    using put(1) put(3) [of k] by (auto simp: c rc_pending_def lru_look_Del split: if_splits)
qed

lemma RemoteConn_HandleRecv_some:
  assumes "rc_inv c" and "rc_pending c (m_reqid (h q)) = Some rd"
  shows "\<exists>c'. RemoteConn_HandleRecv h q c = Some (c', CallBack (rd_cb rd) q) \<and> rc_inv c' \<and>
    rc_onReq c' = rc_onReq c \<and> rc_pending c' = (rc_pending c)(m_reqid (h q) := None)"
proof -
  let ?k = "m_reqid (h q)" and ?m = "rc_reqToRemote c"
  have inv: "lru_inv ?m" "0 < LruMap_Capacity ?m" using assms(1) by (simp_all add: rc_inv_def)
  obtain m' where g: "LruMap_GetPtr ?k ?m = (m', Some rd)"
    using lru.get_look [OF inv(1), of ?k] assms(2) by (cases "LruMap_GetPtr ?k ?m") (auto simp: rc_pending_def)
  then have "lru_inv m'" "lru_look m' = lru_look ?m" "LruMap_Capacity m' = LruMap_Capacity ?m"
    using lru.inv_get [OF inv(1), of ?k] lru.look_get [OF inv(1), of ?k] lru.capacity_kept(2) [of ?k ?m] by simp_all
  then show ?thesis
    using g inv by (simp add: RemoteConn_HandleRecv_def rc_inv_def rc_pending_def lru_list_Del(3) lru_look_Del)
qed

lemma RemoteConn_HandleRecv_none:
  assumes "rc_inv c" and "rc_pending c (m_reqid (h q)) = None" and "rc_onReq c = None"
  shows "RemoteConn_HandleRecv h q c = None"
  using lru.get_look [of "rc_reqToRemote c" "m_reqid (h q)"] assms
  by (auto simp: RemoteConn_HandleRecv_def rc_inv_def rc_pending_def split: prod.splits option.splits)

lemma RemoteConn_new_inv:
  "0 < n \<Longrightarrow> n < 2 ^ 31 \<Longrightarrow> \<exists>c. RemoteConn_new now n addr = Some c \<and> rc_inv c \<and> rc_onReq c = None \<and> rc_pending c = Map.empty"
  by (auto simp: RemoteConn_new_def IdGenByDate_def IdGen_SetGreaterThan_def rc_inv_def rc_pending_def lru_look_def
      LruMap_Capacity_def LruMap_new_def lru_list_def lru_inv_def Let_def unat_eq_nat_uint uint_word_of_int
      take_bit_int_eq_self)

end
