(* ===== verification/Timing_Wheel.thy ===== *)
theory Timing_Wheel
  imports Quarrel_Prelude "HOL-Library.Signed_Division"
begin

text \<open>
  The timer of the proposer, \<open>src/util/timing_wheel.hpp\<close>: a ring of lists of notifiers and a
  thread that fires and clears one list per tick. Integer types are as in the code: the granularity
  is an \<open>int\<close>, the position an unsigned 32-bit number. \<open>None\<close> stands for undefined behaviour (a
  division by zero, an index out of range), for an exception, and for a call that never returns.

  The notifiers are closures. Here they are data of a type \<open>'n\<close>, and the caller says what calling
  one does to the rest of the program.
\<close>

section \<open>The wheel\<close>

record 'n TimingWheel =
  tw_start :: u32
  tw_granularity_ms :: int
  tw_state :: u32
  tw_wheel :: "(u64 \<times> 'n) list list"

text \<open>
  \<open>wheel_(4000 / granularity_ms)\<close>: division by zero is undefined, and a negative quotient is a
  vector length beyond every limit.
\<close>

definition TimingWheel_new :: "int \<Rightarrow> 'n TimingWheel option" where
  "TimingWheel_new granularity_ms =
     (if granularity_ms = 0 \<or> 4000 sdiv granularity_ms < 0 then None
      else Some \<lparr>tw_start = 0, tw_granularity_ms = granularity_ms, tw_state = 0,
                 tw_wheel = replicate (nat (4000 sdiv granularity_ms)) []\<rparr>)"

text \<open>The number of ticks of a timeout, rounded up; all operands are converted to \<open>uint32_t\<close>.\<close>

definition TimingWheel_ticks :: "u32 \<Rightarrow> int \<Rightarrow> u32 option" where
  "TimingWheel_ticks timeout_ms granularity_ms =
     (let g = (of_int granularity_ms :: u32)
      in if g = 0 then None
         else Some (timeout_ms div g + (if timeout_ms mod g \<noteq> 0 then 1 else 0)))"

definition TimingWheel_AddTimeout :: "u64 \<Rightarrow> u32 \<Rightarrow> 'n \<Rightarrow> 'n TimingWheel \<Rightarrow> ('n TimingWheel \<times> bool) option" where
  "TimingWheel_AddTimeout opaque timeout_ms notifier tw = do {
     idx0 \<leftarrow> TimingWheel_ticks timeout_ms (tw_granularity_ms tw);
     let size = length (tw_wheel tw);
     (if size = 0 then None
      else let idx = unat ((idx0 + tw_start tw) mod of_nat size)
           in Some (tw\<lparr>tw_wheel := (tw_wheel tw)[idx := tw_wheel tw ! idx @ [(opaque, notifier)]]\<rparr>, True))
   }"

text \<open>
  The notifiers of one list, called in order; \<open>call\<close> gives what a notifier does to the
  surrounding state, \<open>None\<close> if it never returns. \<open>lock_\<close> is held meanwhile, so the wheel itself
  does not change.
\<close>

fun TimingWheel_notify :: "('n \<Rightarrow> u64 \<Rightarrow> 's \<Rightarrow> 's option) \<Rightarrow> (u64 \<times> 'n) list \<Rightarrow> 's \<Rightarrow> 's option" where
  "TimingWheel_notify call [] s = Some s"
| "TimingWheel_notify call ((opaque, n) # its) s =
     (case call n opaque s of None \<Rightarrow> None | Some s' \<Rightarrow> TimingWheel_notify call its s')"

definition TimingWheel_advance :: "'n TimingWheel \<Rightarrow> 'n TimingWheel" where
  "TimingWheel_advance tw =
     tw\<lparr>tw_wheel := (tw_wheel tw)[unat (tw_start tw) := []],
        tw_start := (tw_start tw + 1) mod of_nat (length (tw_wheel tw))\<rparr>"

text \<open>One iteration of \<open>worker()\<close>, up to the sleep.\<close>

definition TimingWheel_worker ::
    "('n \<Rightarrow> u64 \<Rightarrow> 's \<Rightarrow> 's option) \<Rightarrow> 'n TimingWheel \<Rightarrow> 's \<Rightarrow> ('n TimingWheel \<times> 's) option" where
  "TimingWheel_worker call tw s =
     (if unat (tw_start tw) < length (tw_wheel tw)
      then do {
        s' \<leftarrow> TimingWheel_notify call (tw_wheel tw ! unat (tw_start tw)) s;
        Some (TimingWheel_advance tw, s')
      }
      else None)"

section \<open>What fires when\<close>

definition tw_inv :: "'n TimingWheel \<Rightarrow> bool" where
  "tw_inv tw \<longleftrightarrow> 0 < tw_granularity_ms tw \<and> tw_granularity_ms tw < 2 ^ 31 \<and>
     0 < length (tw_wheel tw) \<and> length (tw_wheel tw) \<le> 4000 \<and> unat (tw_start tw) < length (tw_wheel tw)"

text \<open>The notifiers that fire in tick \<open>j\<close> from now (0 is the next one), if none is added.\<close>

definition tw_due :: "nat \<Rightarrow> 'n TimingWheel \<Rightarrow> (u64 \<times> 'n) list" where
  "tw_due j tw = (if j < length (tw_wheel tw)
     then tw_wheel tw ! ((unat (tw_start tw) + j) mod length (tw_wheel tw)) else [])"

definition tw_rounded :: "u32 \<Rightarrow> int \<Rightarrow> nat" where
  "tw_rounded timeout_ms g = (unat timeout_ms + nat g - 1) div nat g"

lemma tw_inv_new:
  assumes "0 < g" and "g \<le> 4000"
  shows "\<exists>tw. TimingWheel_new g = Some tw \<and> tw_inv tw \<and> length (tw_wheel tw) = nat (4000 div g) \<and>
    tw_granularity_ms tw = g \<and> (\<forall>j. tw_due j tw = [])"
proof -
  have "4000 div g \<le> 4000 div 1" using assms by (intro zdiv_mono2) simp_all
  moreover have "0 < 4000 div g" using assms by (simp add: pos_imp_zdiv_pos_iff)
  ultimately show ?thesis
    using assms by (auto simp: TimingWheel_new_def tw_inv_def tw_due_def signed_divide_int_def)
qed

lemma div_round_up:
  assumes "0 < (n :: nat)"
  shows "(m + n - 1) div n = m div n + (if m mod n = 0 then 0 else 1)"
proof -
  obtain q r where m: "m = q * n + r" and r: "r < n" "m div n = q" "m mod n = r"
    using assms by (metis div_mult_mod_eq mod_less_divisor)
  then show ?thesis using assms by (intro div_nat_eqI) (auto simp: algebra_simps)
qed

lemma TimingWheel_ticks_rounded:
  assumes "0 < g" and "g < 2 ^ 31"
  shows "\<exists>k. TimingWheel_ticks t g = Some k \<and> unat k = tw_rounded t g"
proof -
  let ?g = "of_int g :: u32" let ?n = "nat g"
  have g: "unat ?g = ?n"
    using assms by (simp add: unat_eq_nat_uint uint_word_of_int take_bit_int_eq_self)
  have n: "0 < ?n" using assms by simp
  then have nz: "?g \<noteq> 0" using g by auto
  have q: "unat (t div ?g) = unat t div ?n" and m: "unat (t mod ?g) = unat t mod ?n"
    by (simp_all add: unat_div unat_mod g)
  have z: "t mod ?g = 0 \<longleftrightarrow> unat t mod ?n = 0" using m by (metis unat_eq_zero)
  have "unat (t div ?g + 1) = unat t div ?n + 1" if "unat t mod ?n \<noteq> 0"
  proof -
    have "2 \<le> ?n" using that n by (cases "?n = 1") auto
    then have "unat t div ?n \<le> unat t div 2" by (intro div_le_mono2) simp_all
    also have "unat t div 2 < 2 ^ 31" using unat_u32_less [of t] by (intro less_mult_imp_div_less) simp
    finally have "unat t div ?n + 1 < 2 ^ 32" by simp
    then show ?thesis using q by (simp add: unat_word_ariths)
  qed
  moreover have "tw_rounded t g = unat t div ?n + (if unat t mod ?n = 0 then 0 else 1)"
    unfolding tw_rounded_def by (rule div_round_up [OF n])
  ultimately show ?thesis using nz q z by (simp add: TimingWheel_ticks_def Let_def)
qed

lemma ring_position:
  assumes "s < (n :: nat)" and "j < n"
  shows "(s + j) mod n = (s + k) mod n \<longleftrightarrow> j = k mod n"
proof
  assume "(s + j) mod n = (s + k) mod n"
  then obtain a b where "s + j + n * a = s + k + n * b" by (auto simp: nat_mod_eq_iff)
  then have "j + n * a = k + n * b" by simp
  then have "j mod n = k mod n" unfolding nat_mod_eq_iff by blast
  then show "j = k mod n" using assms by simp
qed (use assms in \<open>simp add: mod_simps\<close>)

lemma TimingWheel_AddTimeout_due:
  assumes "tw_inv tw" and "tw_rounded t (tw_granularity_ms tw) + length (tw_wheel tw) < 2 ^ 32"
  shows "\<exists>tw'. TimingWheel_AddTimeout o' t n tw = Some (tw', True) \<and> tw_inv tw' \<and>
    length (tw_wheel tw') = length (tw_wheel tw) \<and> tw_granularity_ms tw' = tw_granularity_ms tw \<and>
    (\<forall>j. tw_due j tw' = tw_due j tw @
      (if j = tw_rounded t (tw_granularity_ms tw) mod length (tw_wheel tw) then [(o', n)] else []))"
proof -
  let ?g = "tw_granularity_ms tw" let ?s = "length (tw_wheel tw)" let ?k = "tw_rounded t ?g"
  have inv: "0 < ?g" "?g < 2 ^ 31" "0 < ?s" "?s \<le> 4000" "unat (tw_start tw) < ?s"
    using assms(1) by (simp_all add: tw_inv_def)
  from TimingWheel_ticks_rounded [OF inv(1,2), of t] obtain k
    where k: "TimingWheel_ticks t ?g = Some k" "unat k = ?k" by blast
  have "unat (k + tw_start tw) = ?k + unat (tw_start tw)"
    using assms(2) inv(5) k(2) by (simp add: unat_word_ariths)
  moreover have "unat (of_nat ?s :: u32) = ?s" using inv(4) by (simp add: unat_of_nat)
  ultimately have idx: "unat ((k + tw_start tw) mod of_nat ?s) = (unat (tw_start tw) + ?k) mod ?s"
    by (simp add: unat_mod add.commute)
  let ?i = "(unat (tw_start tw) + ?k) mod ?s"
  let ?tw = "tw\<lparr>tw_wheel := (tw_wheel tw)[?i := tw_wheel tw ! ?i @ [(o', n)]]\<rparr>"
  have "TimingWheel_AddTimeout o' t n tw = Some (?tw, True)"
    using inv(3) k(1) by (auto simp: TimingWheel_AddTimeout_def Let_def idx)
  moreover have "tw_inv ?tw" using assms(1) by (simp add: tw_inv_def)
  moreover have "tw_due j ?tw = tw_due j tw @ (if j = ?k mod ?s then [(o', n)] else [])" for j
    using ring_position [OF inv(5), of j ?k] inv(3) by (auto simp: tw_due_def nth_list_update)
  ultimately show ?thesis by (intro exI [of _ ?tw]) simp
qed

text \<open>A tick fires what is due and moves the rest one tick closer.\<close>

lemma TimingWheel_advance_due:
  assumes "tw_inv tw"
  shows "tw_inv (TimingWheel_advance tw)" and "tw_due j (TimingWheel_advance tw) = tw_due (Suc j) tw"
    and "length (tw_wheel (TimingWheel_advance tw)) = length (tw_wheel tw)"
proof -
  let ?n = "length (tw_wheel tw)" let ?s = "unat (tw_start tw)"
  have inv: "0 < ?n" "?n \<le> 4000" "?s < ?n" using assms by (simp_all add: tw_inv_def)
  have "unat (of_nat ?n :: u32) = ?n" using inv(2) by (simp add: unat_of_nat)
  moreover have "unat (tw_start tw + 1) = Suc ?s" using inv by (simp add: unat_word_ariths)
  ultimately have st: "unat (tw_start (TimingWheel_advance tw)) = Suc ?s mod ?n"
    by (simp add: TimingWheel_advance_def unat_mod)
  then show "tw_inv (TimingWheel_advance tw)" using assms by (simp add: tw_inv_def TimingWheel_advance_def)
  show "length (tw_wheel (TimingWheel_advance tw)) = ?n" by (simp add: TimingWheel_advance_def)
  have pos: "(Suc ?s mod ?n + j) mod ?n = (?s + Suc j) mod ?n" for j by (simp add: mod_simps)
  have hit: "(?s + Suc j) mod ?n = ?s \<longleftrightarrow> Suc j = ?n" if "j < ?n" for j
  proof -
    have "Suc ?s mod ?n < ?n" using inv by simp
    have "(?s + Suc j) mod ?n = ?s \<longleftrightarrow> Suc j mod ?n = 0"
      by (metis ring_position [OF inv(3) inv(1), of "Suc j"] add.right_neutral inv(3) mod_less)
    then show ?thesis using that by (cases "Suc j = ?n") simp_all
  qed
  show "tw_due j (TimingWheel_advance tw) = tw_due (Suc j) tw"
    using st pos [of j] hit [of j] inv
    by (auto simp: tw_due_def TimingWheel_advance_def nth_list_update)
qed

text \<open>The firings of the next \<open>m\<close> ticks, with notifiers that only record that they are called.\<close>

definition record_call :: "'n \<Rightarrow> u64 \<Rightarrow> (u64 \<times> 'n) list \<Rightarrow> (u64 \<times> 'n) list option" where
  "record_call n opaque s = Some (s @ [(opaque, n)])"

fun TimingWheel_fired :: "nat \<Rightarrow> 'n TimingWheel \<Rightarrow> (u64 \<times> 'n) list list option" where
  "TimingWheel_fired 0 tw = Some []"
| "TimingWheel_fired (Suc m) tw =
     (case TimingWheel_worker record_call tw [] of
        None \<Rightarrow> None
      | Some (tw', fs) \<Rightarrow> map_option ((#) fs) (TimingWheel_fired m tw'))"

lemma TimingWheel_notify_record: "TimingWheel_notify record_call its s = Some (s @ its)"
  by (induction its arbitrary: s) (auto simp: record_call_def)

lemma TimingWheel_worker_due:
  "tw_inv tw \<Longrightarrow> TimingWheel_worker call tw s =
     map_option (Pair (TimingWheel_advance tw)) (TimingWheel_notify call (tw_due 0 tw) s)"
  by (cases "TimingWheel_notify call (tw_due 0 tw) s")
    (auto simp: TimingWheel_worker_def tw_inv_def tw_due_def)

lemma TimingWheel_fired_due: "tw_inv tw \<Longrightarrow> TimingWheel_fired m tw = Some (map (\<lambda>j. tw_due j tw) [0..<m])"
proof (induction m arbitrary: tw)
  case (Suc m)
  then show ?case
    by (simp add: TimingWheel_worker_due TimingWheel_notify_record TimingWheel_advance_due
        map_upt_Suc del: upt_Suc)
qed simp

section \<open>Starting and stopping the thread\<close>

text \<open>
  Where the thread is: not created, at the test of its loop (also while it sleeps), past the test
  and about to take \<open>lock_\<close>, or returned. \<open>Stop\<close> takes \<open>lock_\<close> and keeps it until the thread is
  joined; \<open>wr_stopping\<close> says that it has it. \<open>Start\<close> and a tick take and release the lock within
  one step. \<open>state_\<close> is read in the loop without the lock.
\<close>

datatype worker_pos = NotStarted | AtTest | PastTest | Returned

record 'n wheel_run =
  wr_tw :: "'n TimingWheel"
  wr_worker :: worker_pos
  wr_stopping :: bool

inductive wheel_step :: "'n wheel_run \<Rightarrow> 'n wheel_run \<Rightarrow> bool" where
  start: "\<not> wr_stopping r \<Longrightarrow> tw_state (wr_tw r) = 0 \<Longrightarrow>
    wheel_step r (r\<lparr>wr_tw := (wr_tw r)\<lparr>tw_state := 1\<rparr>, wr_worker := AtTest\<rparr>)"
| enter: "wr_worker r = AtTest \<Longrightarrow> tw_state (wr_tw r) \<noteq> 2 \<Longrightarrow> wheel_step r (r\<lparr>wr_worker := PastTest\<rparr>)"
| leave: "wr_worker r = AtTest \<Longrightarrow> tw_state (wr_tw r) = 2 \<Longrightarrow> wheel_step r (r\<lparr>wr_worker := Returned\<rparr>)"
| tick: "wr_worker r = PastTest \<Longrightarrow> \<not> wr_stopping r \<Longrightarrow>
    TimingWheel_worker record_call (wr_tw r) [] = Some (tw', fs) \<Longrightarrow>
    wheel_step r (r\<lparr>wr_tw := tw', wr_worker := AtTest\<rparr>)"
| stop: "\<not> wr_stopping r \<Longrightarrow> tw_state (wr_tw r) \<noteq> 2 \<Longrightarrow> wr_worker r \<noteq> NotStarted \<Longrightarrow>
    wheel_step r (r\<lparr>wr_tw := (wr_tw r)\<lparr>tw_state := 2\<rparr>, wr_stopping := True\<rparr>)"
| stopped: "wr_stopping r \<Longrightarrow> wr_worker r = Returned \<Longrightarrow> wheel_step r (r\<lparr>wr_stopping := False\<rparr>)"

inductive_cases wheel_step_cases: "wheel_step r r'"

definition wheel_ready :: "'n TimingWheel \<Rightarrow> 'n wheel_run" where
  "wheel_ready tw = \<lparr>wr_tw = tw, wr_worker = NotStarted, wr_stopping = False\<rparr>"

text \<open>What holds in every reachable state.\<close>

definition wheel_run_inv :: "'n wheel_run \<Rightarrow> bool" where
  "wheel_run_inv r \<longleftrightarrow> tw_inv (wr_tw r) \<and> tw_state (wr_tw r) \<in> {0, 1, 2} \<and>
     (wr_worker r = NotStarted \<longleftrightarrow> tw_state (wr_tw r) = 0) \<and>
     (wr_stopping r \<longrightarrow> tw_state (wr_tw r) = 2) \<and>
     (wr_worker r = Returned \<longrightarrow> tw_state (wr_tw r) = 2)"

lemma tw_inv_state [simp]: "tw_inv (tw\<lparr>tw_state := x\<rparr>) = tw_inv tw"
  by (simp add: tw_inv_def)

lemma advance_state [simp]: "tw_state (TimingWheel_advance tw) = tw_state tw"
  by (simp add: TimingWheel_advance_def)

lemma wheel_run_inv_step: "wheel_step r r' \<Longrightarrow> wheel_run_inv r \<Longrightarrow> wheel_run_inv r'"
  by (induction rule: wheel_step.induct)
    (auto simp: wheel_run_inv_def TimingWheel_worker_due TimingWheel_notify_record
       intro: TimingWheel_advance_due(1))

lemma wheel_run_inv_ready: "tw_inv tw \<Longrightarrow> tw_state tw = 0 \<Longrightarrow> wheel_run_inv (wheel_ready tw)"
  by (simp add: wheel_run_inv_def wheel_ready_def)

lemma wheel_run_inv_reach: "wheel_step\<^sup>*\<^sup>* (wheel_ready tw) r \<Longrightarrow> tw_inv tw \<Longrightarrow> tw_state tw = 0 \<Longrightarrow> wheel_run_inv r"
  by (induction rule: rtranclp_induct) (auto intro: wheel_run_inv_ready wheel_run_inv_step)

lemma stopping_stuck:
  assumes "wr_stopping r" and "wr_worker r = PastTest"
  shows "\<not> wheel_step r r'"
  using assms by (auto elim: wheel_step_cases)

lemma stopping_returns:
  assumes "wheel_run_inv r" and "wr_stopping r" and "wr_worker r = AtTest \<or> wr_worker r = Returned"
  shows "wheel_step\<^sup>*\<^sup>* r (r\<lparr>wr_worker := Returned, wr_stopping := False\<rparr>)"
proof -
  let ?r = "r\<lparr>wr_worker := Returned\<rparr>"
  have "tw_state (wr_tw r) = 2" using assms by (simp add: wheel_run_inv_def)
  then have "wheel_step\<^sup>*\<^sup>* r ?r"
    using assms(3) wheel_step.leave [of r] by (cases r) auto
  moreover have "wheel_step ?r (?r\<lparr>wr_stopping := False\<rparr>)" using assms(2) by (intro stopped) simp_all
  ultimately show ?thesis by (simp add: rtranclp.rtrancl_into_rtrancl)
qed

end
