(* ===== verification/Proposer.thy ===== *)
theory Proposer
  imports Conn Timing_Wheel Worker_Pool Paxos_Group
begin

unbundle bit_operations_syntax

text \<open>
  The proposer, \<open>src/core/proposer.h\<close> and \<open>src/core/proposer.cpp\<close>: per log instance a state machine
  that sends a value through the prepare, accept and chosen phases.

  A future is a number and the log \<open>ps_results\<close> holds the values its promise was given; setting a
  promise twice throws. \<open>DoRpcRequest\<close> is virtual; a call of it is recorded in
  \<open>ps_sent\<close> with the connection, the message as it is at that moment, and what its callback
  captured. Every method here runs under the lock of its instance and is one atomic step.
  \<open>None\<close> is a failed assertion, an exception, an index out of range, or a call that never returns.
\<close>

section \<open>Data\<close>

text \<open>What the response callback and the timeout notifier capture.\<close>

record RpcKey =
  rk_pinst :: u64
  rk_entry :: u64
  rk_term :: u64

record RpcResponseMsg =
  rm_term :: u64
  rm_pinst :: u64
  rm_entry :: u64
  rm_msg :: "PaxosMsg option"

record Promise =
  pr_future :: "nat option"
  pr_set :: bool

record InstanceState =
  is_proposer_id :: u32
  is_last_chosen_from :: u32
  is_last_chosen_entry :: u64
  is_term :: u64
  is_ig :: IdGen
  is_vig :: IdGen
  is_state :: u8
  is_rsp_count :: u8
  is_valid_rsp_count :: u8
  is_ret :: Promise
  is_req :: "PaxosMsg option"
  is_lastv :: "PaxosMsg option"

text \<open>\<open>state_\<close> is not initialised: \<open>junk\<close> is what the memory held. \<open>now\<close> is the clock.\<close>

definition InstanceState_new :: "u8 \<Rightarrow> u64 \<Rightarrow> int \<Rightarrow> int \<Rightarrow> InstanceState option" where
  "InstanceState_new junk now pid proposer_count = do {
     vig \<leftarrow> IdGenByDate now 0xff 1;
     Some \<lparr>is_proposer_id = of_int pid, is_last_chosen_from = - 1, is_last_chosen_entry = 0, is_term = 0,
           is_ig = \<lparr>ig_id = of_int (pid + 1), ig_step = of_int proposer_count\<rparr>, is_vig = vig,
           is_state = junk, is_rsp_count = 0, is_valid_rsp_count = 0,
           is_ret = \<lparr>pr_future = None, pr_set = False\<rparr>, is_req = None, is_lastv = None\<rparr>
   }"

record 'conn Proposer =
  ps_conn :: "'conn ConnMng option"
  ps_config :: Configure
  ps_states :: "InstanceState list"
  ps_timeout :: "RpcKey TimingWheel"
  ps_wpool :: "RpcResponseMsg WorkerPool"
  ps_sent :: "('conn \<times> PaxosMsg \<times> RpcKey) list"
  ps_results :: "(nat option \<times> int) list"
  ps_futures :: nat

definition ps_at :: "'conn Proposer \<Rightarrow> u64 \<Rightarrow> InstanceState option" where
  "ps_at P i = (if unat i < length (ps_states P) then Some (ps_states P ! unat i) else None)"

definition ps_put :: "u64 \<Rightarrow> InstanceState \<Rightarrow> 'conn Proposer \<Rightarrow> 'conn Proposer" where
  "ps_put i s P = P\<lparr>ps_states := (ps_states P)[unat i := s]\<rparr>"

definition ps_slot :: "'conn Proposer \<Rightarrow> u64 \<Rightarrow> u64 option" where
  "ps_slot P pinst = (if ps_states P = [] then None else Some (pinst mod of_nat (length (ps_states P))))"

definition Proposer_new :: "u8 \<Rightarrow> u64 \<Rightarrow> Configure \<Rightarrow> 'conn Proposer option" where
  "Proposer_new junk now config = do {
     wheel \<leftarrow> TimingWheel_new (sint (cf_timeout config - 1));
     let svrid = sint (ai_id (cf_local config));
     let pcount = sint (cf_total_proposer config);
     (n, mapper) \<leftarrow> CreateGroup pcount;
     states \<leftarrow> those (map (\<lambda>i. InstanceState_new junk now (GetMemberIdBySvrId n mapper (of_nat i) svrid) pcount)
                        [0..<unat (cf_plog_inst_num config)]);
     Some \<lparr>ps_conn = None, ps_config = config, ps_states = states,
           ps_timeout = wheel\<lparr>tw_state := 1\<rparr>,
           ps_wpool = WorkerPool_StartWorker (unat (cf_proposer_worker_count config))
                        (cf_worker_msg_queue_sz config) WorkerPool_new,
           ps_sent = [], ps_results = [], ps_futures = 0\<rparr>
   }"

definition Proposer_SetConnMng :: "'conn ConnMng \<Rightarrow> 'conn Proposer \<Rightarrow> 'conn Proposer" where
  "Proposer_SetConnMng mng P = P\<lparr>ps_conn := Some mng\<rparr>"

text \<open>\<open>states_[pinst].ret_.set_value(v)\<close>\<close>

definition Proposer_set_value :: "u64 \<Rightarrow> int \<Rightarrow> 'conn Proposer \<Rightarrow> 'conn Proposer option" where
  "Proposer_set_value pinst v P = do {
     s \<leftarrow> ps_at P pinst;
     (if pr_set (is_ret s) then None
      else Some ((ps_put pinst (s\<lparr>is_ret := (is_ret s)\<lparr>pr_set := True\<rparr>\<rparr>) P)
                   \<lparr>ps_results := ps_results P @ [(pr_future (is_ret s), v)]\<rparr>))
   }"

section \<open>Ids and chosen entries\<close>

definition InstanceState_allocPaxosMsg ::
    "Configure \<Rightarrow> u64 \<Rightarrow> u64 \<Rightarrow> u32 \<Rightarrow> InstanceState \<Rightarrow> InstanceState \<times> PaxosMsg" where
  "InstanceState_allocPaxosMsg config pinst opaque value_size s =
     (let pm = AllocProposalMsg value_size;
          entry = is_last_chosen_entry s + 1;
          (ig, pid) = (if value_size \<noteq> 0
                       then (let (g, v) = IdGen_GetAndInc (is_ig s) in (g, v OR ucast (cf_pid_cookie config)))
                       else (is_ig s, 0));
          (vig, vid) = IdGen_GetAndInc (is_vig s);
          pp = (m_body pm)\<lparr>p_pid := pid, p_pinst := pinst, p_pentry := entry, p_opaque := opaque,
                 p_status := st kPaxosState_PREPARED, p_proposer := ucast (is_proposer_id s),
                 p_term := is_term s, p_value_id := vid, p_last_chosen := is_last_chosen_entry s,
                 p_last_chosen_from := ucast (is_last_chosen_from s)\<rparr>
      in (s\<lparr>is_ig := ig, is_vig := vig, is_term := is_term s + 1\<rparr>,
          pm\<lparr>m_from := ai_id (cf_local config), m_type := mt kMsgType_PREPARE_REQ,
             m_version := cf_msg_version config, m_body := pp\<rparr>))"

definition Proposer_UpdatePrepareId :: "u64 \<Rightarrow> u64 \<Rightarrow> 'conn Proposer \<Rightarrow> 'conn Proposer option" where
  "Proposer_UpdatePrepareId pinst pid P = do {
     s \<leftarrow> ps_at P pinst;
     (g, _) \<leftarrow> IdGen_SetGreaterThan pid (is_ig s);
     Some (ps_put pinst (s\<lparr>is_ig := g\<rparr>) P)
   }"

definition InstanceState_UpdateChosenInfo :: "u64 \<Rightarrow> u64 \<Rightarrow> InstanceState \<Rightarrow> InstanceState \<times> bool" where
  "InstanceState_UpdateChosenInfo chosen from s =
     (if chosen = 0 \<or> chosen = npos then (s, False)
      else if chosen < is_last_chosen_entry s then (s, False)
      else (s\<lparr>is_ig := IdGen_Reset (ucast (is_proposer_id s + 1)) (is_ig s),
              is_last_chosen_entry := chosen, is_last_chosen_from := ucast from\<rparr>, True))"

definition Proposer_UpdateChosenInfo :: "u64 \<Rightarrow> u64 \<Rightarrow> u64 \<Rightarrow> 'conn Proposer \<Rightarrow> ('conn Proposer \<times> bool) option" where
  "Proposer_UpdateChosenInfo pinst chosen from P = do {
     s \<leftarrow> ps_at P pinst;
     let (s', b) = InstanceState_UpdateChosenInfo chosen from s;
     Some (ps_put pinst s' P, b)
   }"

definition Proposer_OnEntryChosen :: "PaxosMsg \<Rightarrow> bool \<Rightarrow> 'conn Proposer \<Rightarrow> ('conn Proposer \<times> int) option" where
  "Proposer_OnEntryChosen msg from_plog P = do {
     let pp = m_body msg;
     pinst \<leftarrow> ps_slot P (p_pinst pp);
     s \<leftarrow> ps_at P pinst;
     (if from_plog \<and> is_proposer_id s \<noteq> 0 then Some (P, - 1)
      else do {
        (P', _) \<leftarrow> Proposer_UpdateChosenInfo pinst (p_pentry pp) (ucast (p_proposer pp)) P;
        Some (P', 0)
      })
   }"

definition InstanceState_canSkipPrepare :: "Proposal \<Rightarrow> InstanceState \<Rightarrow> bool" where
  "InstanceState_canSkipPrepare pp s \<longleftrightarrow>
     is_last_chosen_entry s = p_pentry pp - 1 \<and> is_last_chosen_from s = is_proposer_id s \<and>
     p_pid pp = ucast (is_proposer_id s + 1)"

section \<open>Requests, responses and timers\<close>

definition Proposer_addRpcResponse ::
    "u64 \<Rightarrow> u64 \<Rightarrow> PaxosMsg option \<Rightarrow> u64 \<Rightarrow> 'conn Proposer \<Rightarrow> ('conn Proposer \<times> int) option" where
  "Proposer_addRpcResponse pinst entry m term P = do {
     (wp, rc) \<leftarrow> WorkerPool_AddWork pinst
        \<lparr>rm_term = term, rm_pinst = pinst, rm_entry = entry, rm_msg = m\<rparr> (ps_wpool P);
     Some (P\<lparr>ps_wpool := wp\<rparr>,
           if rc \<noteq> 0 then err kErrCode_PROPOSER_QUEUE_FULL else err kErrCode_OK)
   }"

text \<open>What calling the callback of a request does.\<close>

definition Proposer_callback :: "RpcKey \<Rightarrow> PaxosMsg option \<Rightarrow> 'conn Proposer \<Rightarrow> ('conn Proposer \<times> int) option" where
  "Proposer_callback k m P = map_option (\<lambda>(P', _). (P', 0)) (Proposer_addRpcResponse (rk_pinst k) (rk_entry k) m (rk_term k) P)"

definition Proposer_doBatchRpcRequest :: "PaxosMsg \<Rightarrow> 'conn Proposer \<Rightarrow> ('conn Proposer \<times> int) option" where
  "Proposer_doBatchRpcRequest pm P = do {
     mng \<leftarrow> ps_conn P;
     let pinst = GetPLIdFromMsg pm;
     let key = \<lparr>rk_pinst = pinst, rk_entry = p_pentry (m_body pm), rk_term = p_term (m_body pm)\<rparr>;
     Some (P\<lparr>ps_sent := ps_sent P @ map (\<lambda>c. (c, pm, key)) (ConnMng_GetAllConn pinst mng)\<rparr>, err kErrCode_OK)
   }"

definition Proposer_addTimeout :: "u64 \<Rightarrow> u64 \<Rightarrow> u64 \<Rightarrow> 'conn Proposer \<Rightarrow> ('conn Proposer \<times> bool) option" where
  "Proposer_addTimeout pinst entry term P = do {
     (tw, b) \<leftarrow> TimingWheel_AddTimeout term (cf_timeout (ps_config P) * 2)
        \<lparr>rk_pinst = pinst, rk_entry = entry, rk_term = term\<rparr> (ps_timeout P);
     Some (P\<lparr>ps_timeout := tw\<rparr>, b)
   }"

text \<open>
  The notifier. It runs in the timer thread, which holds the wheel's lock: the \<open>addTimeout\<close> it
  makes when the queue is full waits for that lock for ever.
\<close>

definition Proposer_notify :: "RpcKey \<Rightarrow> u64 \<Rightarrow> 'conn Proposer \<Rightarrow> 'conn Proposer option" where
  "Proposer_notify k opaque P =
     (if rk_term k \<noteq> opaque then None
      else do {
        (P', rc) \<leftarrow> Proposer_addRpcResponse (rk_pinst k) (rk_entry k) None (rk_term k) P;
        (if rc \<noteq> err kErrCode_OK then None else Some P')
      })"

text \<open>One tick of the timer thread.\<close>

definition Proposer_tick :: "'conn Proposer \<Rightarrow> 'conn Proposer option" where
  "Proposer_tick P = do {
     (tw, P') \<leftarrow> TimingWheel_worker Proposer_notify (ps_timeout P) P;
     Some (P'\<lparr>ps_timeout := tw\<rparr>)
   }"

definition Proposer_setupWaitState ::
    "u64 \<Rightarrow> u64 \<Rightarrow> u32 \<Rightarrow> Promise option \<Rightarrow> PaxosMsg option \<Rightarrow> 'conn Proposer \<Rightarrow> 'conn Proposer option" where
  "Proposer_setupWaitState pinst entry state promise pm P = do {
     s \<leftarrow> ps_at P pinst;
     let s1 = s\<lparr>is_rsp_count := 0, is_valid_rsp_count := 0, is_state := ucast state,
                is_ret := (case promise of None \<Rightarrow> is_ret s | Some p \<Rightarrow> p)\<rparr>;
     (case pm of
        None \<Rightarrow> Some (ps_put pinst s1 P)
      | Some m \<Rightarrow> do {
          (P1, ok) \<leftarrow> Proposer_addTimeout pinst entry (p_term (m_body m)) (ps_put pinst (s1\<lparr>is_req := Some m\<rparr>) P);
          (if ok then Some P1 else Proposer_set_value pinst (err kErrCode_SETUP_TIMEOUT_FAIL) P1)
        })
   }"

section \<open>The three phases\<close>

definition Proposer_doPrepare :: "PaxosMsg \<Rightarrow> 'conn Proposer \<Rightarrow> ('conn Proposer \<times> int) option" where
  "Proposer_doPrepare pm P = do {
     (P', ret) \<leftarrow> Proposer_doBatchRpcRequest pm P;
     Some (P', if ret \<noteq> err kErrCode_OK then ret else err kErrCode_WORKING_IN_PROPGRESS)
   }"

definition Proposer_doAccept :: "PaxosMsg \<Rightarrow> 'conn Proposer \<Rightarrow> ('conn Proposer \<times> int) option" where
  "Proposer_doAccept pm P = do {
     (P', ret) \<leftarrow> Proposer_doBatchRpcRequest pm P;
     Some (P', if ret \<noteq> err kErrCode_OK then ret else err kErrCode_WORKING_IN_PROPGRESS)
   }"

definition Proposer_doChosen :: "PaxosMsg \<Rightarrow> 'conn Proposer \<Rightarrow> ('conn Proposer \<times> int) option" where
  "Proposer_doChosen pm P = map_option (\<lambda>(P', _). (P', err kErrCode_OK)) (Proposer_doBatchRpcRequest pm P)"

text \<open>The header of a message that becomes an accept request.\<close>

definition Proposer_accept_header :: "Configure \<Rightarrow> InstanceState \<Rightarrow> PaxosMsg \<Rightarrow> PaxosMsg" where
  "Proposer_accept_header config s m =
     m\<lparr>m_from := ai_id (cf_local config), m_type := mt kMsgType_ACCEPT_REQ,
       m_body := (m_body m)\<lparr>p_status := st kPaxosState_ACCEPTED, p_last_chosen := is_last_chosen_entry s,
                             p_last_chosen_from := ucast (is_last_chosen_from s)\<rparr>\<rparr>"

text \<open>The copy without the value that is sent in the prepare phase.\<close>

definition Proposer_without_value :: "PaxosMsg \<Rightarrow> u32 \<Rightarrow> PaxosMsg option" where
  "Proposer_without_value pm n =
     CloneProposalMsg (pm\<lparr>m_size := m_size pm - n, m_body := (m_body pm)\<lparr>p_size := p_size (m_body pm) - n\<rparr>\<rparr>)"

text \<open>\<open>ProposeAsync\<close>: the new state and the number of the returned future.\<close>

definition Proposer_ProposeAsync :: "u64 \<Rightarrow> u8 list \<Rightarrow> u64 \<Rightarrow> 'conn Proposer \<Rightarrow> ('conn Proposer \<times> nat) option" where
  "Proposer_ProposeAsync opaque val pinst0 P0 = do {
     _ \<leftarrow> ps_conn P0;
     let frt = ps_futures P0;
     let P = P0\<lparr>ps_futures := Suc frt\<rparr>;
     pinst \<leftarrow> ps_slot P pinst0;
     s \<leftarrow> ps_at P pinst;
     (if is_req s \<noteq> None
      then Some (P\<lparr>ps_results := ps_results P @ [(Some frt, err kErrCode_WORKING_IN_PROPGRESS)]\<rparr>, frt)
      else do {
        let sz = (of_nat (length val) :: u32);
        let (s1, pm0) = InstanceState_allocPaxosMsg (ps_config P) pinst opaque sz s;
        let P1 = ps_put pinst s1 P;
        (if length val > unat sz then None else Some ());
        let pm = pm0\<lparr>m_body := (m_body pm0)\<lparr>p_data := val\<rparr>\<rparr>;
        let entry = p_pentry (m_body pm);
        (P2, ret) \<leftarrow>
          (if val = [] \<or> \<not> InstanceState_canSkipPrepare (m_body pm) s1
           then do { pm2 \<leftarrow> Proposer_without_value pm sz; Proposer_doPrepare pm2 P1 }
           else Some (P1, err kErrCode_OK));
        (if ret = err kErrCode_WORKING_IN_PROPGRESS then do {
           P3 \<leftarrow> Proposer_setupWaitState pinst entry (st kPaxosState_PREPARING)
                   (Some \<lparr>pr_future = Some frt, pr_set = False\<rparr>) (Some pm) P2;
           Some (P3, frt)
         }
         else if ret \<noteq> err kErrCode_OK then Some (P2\<lparr>ps_results := ps_results P2 @ [(Some frt, ret)]\<rparr>, frt)
         else do {
           s2 \<leftarrow> ps_at P2 pinst;
           let apm = Proposer_accept_header (ps_config P2) s2 pm;
           (P3, ret2) \<leftarrow> Proposer_doAccept apm P2;
           (if ret2 = err kErrCode_WORKING_IN_PROPGRESS then do {
              P4 \<leftarrow> Proposer_setupWaitState pinst entry (st kPaxosState_ACCEPTING)
                      (Some \<lparr>pr_future = Some frt, pr_set = False\<rparr>) (Some apm) P3;
              Some (P4, frt)
            }
            else Some (P3\<lparr>ps_results := ps_results P3 @ [(Some frt, ret2)]\<rparr>, frt))
         })
      })
   }"

section \<open>Responses to prepare\<close>

text \<open>
  \<open>peer responses with last accepted vote\<close>: whether there is a last vote afterwards, and whether
  it is the first one.
\<close>

definition Proposer_last_vote ::
    "u64 \<Rightarrow> PaxosMsg \<Rightarrow> PaxosMsg \<Rightarrow> 'conn Proposer \<Rightarrow> ('conn Proposer \<times> bool \<times> bool) option" where
  "Proposer_last_vote pinst rsp req P = do {
     s \<leftarrow> ps_at P pinst;
     let has_last_vote = (is_state s AND 0x80 \<noteq> 0);
     let rp = m_body rsp;
     (if p_value_id rp = p_value_id (m_body req) then Some (P, has_last_vote, False)
      else if \<not> p_size rp > 0 then None
      else do {
        newer \<leftarrow> (if \<not> has_last_vote then Some True
                   else map_option (\<lambda>m. p_pid (m_body m) < p_pid rp) (is_lastv s));
        (if newer then do {
           npm \<leftarrow> CloneProposalMsg rsp;
           Some (ps_put pinst (s\<lparr>is_state := (if has_last_vote then is_state s else is_state s OR 0x80),
                                 is_lastv := Some npm\<rparr>) P, True, \<not> has_last_vote)
         }
         else Some (P, has_last_vote, False))
      })
   }"

text \<open>
  Enough promises: the accept request is sent, or a read probe is finished. Returns \<open>ret\<close>, if
  it is set, and \<open>done\<close>.
\<close>

definition Proposer_start_accept ::
    "u64 \<Rightarrow> PaxosMsg \<Rightarrow> bool \<Rightarrow> 'conn Proposer \<Rightarrow> ('conn Proposer \<times> int option \<times> bool) option" where
  "Proposer_start_accept pinst rsp has_last_vote P = do {
     s \<leftarrow> ps_at P pinst;
     (P2, ret2, entry) \<leftarrow>
       (if p_pid (m_body rsp) > 0 then do {
          m0 \<leftarrow> (if has_last_vote then is_lastv s else is_req s);
          let m = Proposer_accept_header (ps_config P) s m0;
          let P1 = ps_put pinst (if has_last_vote then s\<lparr>is_lastv := Some m\<rparr> else s\<lparr>is_req := Some m\<rparr>) P;
          (P2, ret2) \<leftarrow> Proposer_doAccept m P1;
          s2 \<leftarrow> ps_at P2 pinst;
          Some (ps_put pinst (s2\<lparr>is_lastv := None\<rparr>) P2, ret2, p_pentry (m_body m))
        }
        else Some (P, err kErrCode_OK, p_pentry (m_body rsp)));
     (if ret2 = err kErrCode_WORKING_IN_PROPGRESS then do {
        s3 \<leftarrow> ps_at P2 pinst;
        P3 \<leftarrow> Proposer_setupWaitState pinst entry
                (st kPaxosState_ACCEPTING OR ucast (is_state s3 AND 0x80)) None None P2;
        Some (P3, None, False)
      }
      else Some (P2, Some ret2, True))
   }"

text \<open>What follows the label \<open>out\<close>.\<close>

definition Proposer_prepare_out :: "u64 \<Rightarrow> int \<Rightarrow> bool \<Rightarrow> bool \<Rightarrow> 'conn Proposer \<Rightarrow> ('conn Proposer \<times> int) option" where
  "Proposer_prepare_out pinst ret done first_got_lastv P = do {
     s \<leftarrow> ps_at P pinst;
     P1 \<leftarrow> (if first_got_lastv \<and> is_state s AND 0x80 \<noteq> 0
            then Proposer_set_value pinst (err kErrCode_PREPARE_PEER_VALUE) P else Some P);
     (if done then do {
        let ret' = (if ret < 0 then err kErrCode_PREPARE_NOT_QUORAUM else ret);
        s1 \<leftarrow> ps_at P1 pinst;
        let P2 = ps_put pinst (s1\<lparr>is_req := None\<rparr>) P1;
        P3 \<leftarrow> (if is_state s1 AND 0x80 = 0 then Proposer_set_value pinst ret' P2 else Some P2);
        Some (P3, ret')
      }
      else Some (P1, ret))
   }"

definition Proposer_handlePrepareRsp :: "PaxosMsg \<Rightarrow> 'conn Proposer \<Rightarrow> ('conn Proposer \<times> int) option" where
  "Proposer_handlePrepareRsp rsp P = do {
     let rp = m_body rsp;
     let pinst = p_pinst rp;
     s \<leftarrow> ps_at P pinst;
     (case is_req s of
        None \<Rightarrow> Some (P, 0)
      | Some req \<Rightarrow>
          let total = cf_total_acceptor (ps_config P); majority = total div 2 + 1; ret = m_errcode rsp
          in if m_type rsp \<noteq> mt kMsgType_PREPARE_RSP then Proposer_prepare_out pinst (- 1) False False P
          else let s1 = s\<lparr>is_rsp_count := is_rsp_count s + 1\<rparr>;
                   P1 = ps_put pinst s1 P;
                   done = (ucast (is_rsp_count s1) = total)
          in if ret \<noteq> err kErrCode_OK then Proposer_prepare_out pinst ret done False P1
          else if p_status rp \<noteq> st kPaxosState_PROMISED then Proposer_prepare_out pinst (- 2) done False P1
          else let req1 = req\<lparr>m_body := fst (CopyProposalMeta (m_body req) rp)\<rparr>;
                   P2 = ps_put pinst (s1\<lparr>is_req := Some req1\<rparr>) P1
          in if p_pid rp > p_pid (m_body req1) then do {
               P3 \<leftarrow> Proposer_UpdatePrepareId (p_pinst (m_body req1)) (p_pid rp) P2;
               Proposer_prepare_out pinst (- 3) done False P3
             }
          else do {
            (P3, has_last_vote, first) \<leftarrow> Proposer_last_vote pinst rsp req1 P2;
            s3 \<leftarrow> ps_at P3 pinst;
            let s4 = s3\<lparr>is_valid_rsp_count := is_valid_rsp_count s3 + 1\<rparr>;
            let P4 = ps_put pinst s4 P3;
            let enough = (ucast (is_valid_rsp_count s4) \<ge> majority);
            (if (if has_last_vote \<and> enough then done else enough) then do {
               (P5, ret2, done2) \<leftarrow> Proposer_start_accept pinst rsp has_last_vote P4;
               Proposer_prepare_out pinst (case ret2 of None \<Rightarrow> ret | Some r \<Rightarrow> r) done2 first P5
             }
             else Proposer_prepare_out pinst ret done first P4)
          })
   }"

section \<open>Responses to accept\<close>

definition Proposer_accept_out :: "u64 \<Rightarrow> int \<Rightarrow> bool \<Rightarrow> 'conn Proposer \<Rightarrow> ('conn Proposer \<times> int) option" where
  "Proposer_accept_out pinst ret done P =
     (if done then do {
        s \<leftarrow> ps_at P pinst;
        let P1 = ps_put pinst (s\<lparr>is_req := None\<rparr>) P;
        P2 \<leftarrow> (if is_state s AND 0x80 = 0 then Proposer_set_value pinst ret P1 else Some P1);
        Some (P2, ret)
      }
      else Some (P, ret))"

text \<open>The response turned into the chosen message.\<close>

definition Proposer_chosen_msg :: "Configure \<Rightarrow> PaxosMsg \<Rightarrow> PaxosMsg" where
  "Proposer_chosen_msg config rsp =
     rsp\<lparr>m_size := m_size rsp - p_size (m_body rsp), m_from := ai_id (cf_local config),
         m_type := mt kMsgType_CHOSEN_REQ,
         m_body := (m_body rsp)\<lparr>p_size := 0, p_status := st kPaxosState_CHOSEN\<rparr>\<rparr>"

definition Proposer_handleAcceptRsp :: "PaxosMsg \<Rightarrow> 'conn Proposer \<Rightarrow> ('conn Proposer \<times> int) option" where
  "Proposer_handleAcceptRsp rsp P = do {
     let rp = m_body rsp;
     let pinst = p_pinst rp;
     s \<leftarrow> ps_at P pinst;
     (case is_req s of
        None \<Rightarrow> Some (P, 0)
      | Some req \<Rightarrow>
          let total = cf_total_acceptor (ps_config P); majority = total div 2 + 1; ret = m_errcode rsp
          in if m_type rsp \<noteq> mt kMsgType_ACCEPT_RSP
          then Proposer_accept_out pinst (err kErrCode_INVALID_ACCEPT_RSP) False P
          else let s1 = s\<lparr>is_rsp_count := is_rsp_count s + 1\<rparr>;
                   P1 = ps_put pinst s1 P;
                   done = (ucast (is_rsp_count s1) = total)
          in if ret \<noteq> err kErrCode_OK then Proposer_accept_out pinst ret done P1
          else if p_status rp \<noteq> st kPaxosState_ACCEPTED
          then Proposer_accept_out pinst (err kErrCode_PEER_ACCEPT_FAIL) done P1
          else let req1 = req\<lparr>m_body := fst (CopyProposalMeta (m_body req) rp)\<rparr>;
                   s2 = s1\<lparr>is_req := Some req1\<rparr>;
                   P2 = ps_put pinst s2 P1
          in if p_pid rp \<noteq> p_pid (m_body req1) then do {
               P3 \<leftarrow> Proposer_UpdatePrepareId (p_pinst (m_body req1)) (p_pid rp) P2;
               Proposer_accept_out pinst (err kErrCode_PEER_ACCEPT_REJECTED) done P3
             }
          else if p_value_id rp \<noteq> p_value_id (m_body req1)
          then Proposer_accept_out pinst (err kErrCode_PEER_ACCEPT_OTHER_VALUE) done P2
          else let s3 = s2\<lparr>is_valid_rsp_count := is_valid_rsp_count s2 + 1\<rparr>;
                   P3 = ps_put pinst s3 P2
          in if ucast (is_valid_rsp_count s3) \<ge> majority then do {
               (P4, _) \<leftarrow> Proposer_doChosen (Proposer_chosen_msg (ps_config P) rsp) P3;
               (P5, _) \<leftarrow> Proposer_UpdateChosenInfo pinst (p_pentry rp) (ucast (p_proposer rp)) P4;
               Proposer_accept_out pinst ret True P5
             }
          else Proposer_accept_out pinst ret done P3)
   }"

section \<open>Dispatch\<close>

definition Proposer_handleRpcResponse :: "RpcResponseMsg \<Rightarrow> 'conn Proposer \<Rightarrow> ('conn Proposer \<times> int) option" where
  "Proposer_handleRpcResponse m P = do {
     pinst \<leftarrow> ps_slot P (rm_pinst m);
     s \<leftarrow> ps_at P pinst;
     (if rm_term m \<noteq> is_term s - 1 \<or> is_req s = None then Some (P, err kErrCode_OK)
      else case rm_msg m of
        None \<Rightarrow> do {
          let P1 = ps_put pinst (s\<lparr>is_req := None, is_lastv := None\<rparr>) P;
          P2 \<leftarrow> (if is_state s AND 0x80 = 0 then Proposer_set_value pinst (err kErrCode_TIMEOUT) P1 else Some P1);
          Some (P2, err kErrCode_OK)
        }
      | Some msg \<Rightarrow>
          if is_state s AND 0x7f = ucast (st kPaxosState_PREPARING) then Proposer_handlePrepareRsp msg P
          else if is_state s AND 0x7f = ucast (st kPaxosState_ACCEPTING) then Proposer_handleAcceptRsp msg P
          else Some (P, err kErrCode_OK))
   }"

text \<open>One pass of worker \<open>i\<close> of the response pool.\<close>

definition Proposer_worker :: "nat \<Rightarrow> 'conn Proposer \<Rightarrow> 'conn Proposer option" where
  "Proposer_worker i P = do {
     (wp, req) \<leftarrow> WorkerPool_iter i (ps_wpool P);
     (case req of
        None \<Rightarrow> Some (P\<lparr>ps_wpool := wp\<rparr>)
      | Some m \<Rightarrow> do {
          (P1, _) \<leftarrow> Proposer_handleRpcResponse m (P\<lparr>ps_wpool := wp\<rparr>);
          Some (P1\<lparr>ps_wpool := WorkerPool_done i (ps_wpool P1)\<rparr>)
        })
   }"

end
