(* ===== verification/Proposer_Spec.thy ===== *)
theory Proposer_Spec
  imports Proposer
begin

unbundle bit_operations_syntax

text \<open>
  The proposer one instance at a time. The handlers of \<open>Proposer\<close> pass the whole object along;
  here each is a function on the state of one instance that also gives the messages to broadcast,
  the values to put into the promise and the return code, and the handlers are shown to do exactly
  that to the object (\<open>handlePrepareRsp_step\<close>, \<open>handleAcceptRsp_step\<close>, \<open>handleRpcResponse_step\<close>).
\<close>

section \<open>The state byte\<close>

definition notified :: "InstanceState \<Rightarrow> bool" where
  "notified s \<longleftrightarrow> is_state s AND 0x80 \<noteq> 0"

definition phase :: "InstanceState \<Rightarrow> u8" where
  "phase s = is_state s AND 0x7f"

abbreviation PREPARING :: u8 where "PREPARING \<equiv> 21"
abbreviation ACCEPTING :: u8 where "ACCEPTING \<equiv> 23"

lemma top_bit: "x AND 0x80 = (if bit x 7 then 0x80 else 0)" for x :: u8
proof -
  have e: "(0x80 :: u8) = 2 ^ 7" by simp
  show ?thesis unfolding e by (rule bit_word_eqI) (auto simp only: bit_and_iff bit_exp_iff bit_0_eq bot_apply bot_bool_def split: if_split)
qed

lemma low_bits: "x AND 0x7f = take_bit 7 x" for x :: u8
proof -
  have "take_bit 7 x = x AND mask 7" by (rule take_bit_eq_mask)
  then show ?thesis by (simp add: mask_numeral)
qed

lemma set_notified [simp]:
  "notified (s\<lparr>is_state := x OR 0x80\<rparr>)" "phase (s\<lparr>is_state := x OR 0x80\<rparr>) = x AND 0x7f"
  "notified (s\<lparr>is_state := ucast (st kPaxosState_ACCEPTING OR ucast (x AND 0x80))\<rparr>) \<longleftrightarrow> x AND 0x80 \<noteq> 0"
  "phase (s\<lparr>is_state := ucast (st kPaxosState_ACCEPTING OR ucast (x AND 0x80))\<rparr>) = ACCEPTING"
proof -
  have "bit (x OR 0x80) 7" by (simp add: bit_or_iff)
  then show "notified (s\<lparr>is_state := x OR 0x80\<rparr>)" by (simp add: notified_def top_bit)
  have "take_bit 7 (0x80 :: u8) = 0" by simp
  then show "phase (s\<lparr>is_state := x OR 0x80\<rparr>) = x AND 0x7f" by (simp add: phase_def low_bits take_bit_or)
qed (simp_all add: notified_def phase_def top_bit)

section \<open>Updates of one instance\<close>

text \<open>The instance replaced, messages sent and values set since.\<close>

definition ps_upd :: "u64 \<Rightarrow> InstanceState \<Rightarrow> ('conn \<times> PaxosMsg \<times> RpcKey) list \<Rightarrow> (nat option \<times> int) list \<Rightarrow>
    'conn Proposer \<Rightarrow> 'conn Proposer" where
  "ps_upd i s snt res P = P\<lparr>ps_states := (ps_states P)[unat i := s], ps_sent := ps_sent P @ snt,
     ps_results := ps_results P @ res\<rparr>"

definition bcast :: "'conn Proposer \<Rightarrow> PaxosMsg \<Rightarrow> ('conn \<times> PaxosMsg \<times> RpcKey) list" where
  "bcast P pm = (case ps_conn P of None \<Rightarrow> [] | Some mng \<Rightarrow>
     map (\<lambda>c. (c, pm, \<lparr>rk_pinst = p_pinst (m_body pm), rk_entry = p_pentry (m_body pm),
                       rk_term = p_term (m_body pm)\<rparr>)) (cm_conn mng))"

definition bcasts :: "'conn Proposer \<Rightarrow> PaxosMsg list \<Rightarrow> ('conn \<times> PaxosMsg \<times> RpcKey) list" where
  "bcasts P ms = concat (map (bcast P) ms)"

lemma bcasts_simps [simp]: "bcasts P [] = []" "bcasts P (m # ms) = bcast P m @ bcasts P ms"
  by (simp_all add: bcasts_def)

lemma ps_at_range: "ps_at P i = Some s \<Longrightarrow> unat i < length (ps_states P)"
  by (auto simp: ps_at_def split: if_splits)

lemma ps_upd_self: "ps_at P i = Some s \<Longrightarrow> ps_upd i s [] [] P = P"
  by (auto simp: ps_upd_def ps_at_def split: if_splits)

lemma ps_put_upd: "ps_put i s P = ps_upd i s [] [] P"
  by (simp add: ps_put_def ps_upd_def)

lemma ps_upd_upd [simp]:
  "ps_upd i s snt res (ps_upd i s' snt' res' P) = ps_upd i s (snt' @ snt) (res' @ res) P"
  by (simp add: ps_upd_def)

lemma ps_upd_fields [simp]: "ps_conn (ps_upd i s snt res P) = ps_conn P" "ps_config (ps_upd i s snt res P) = ps_config P"
  "ps_timeout (ps_upd i s snt res P) = ps_timeout P" "ps_wpool (ps_upd i s snt res P) = ps_wpool P"
  "ps_futures (ps_upd i s snt res P) = ps_futures P" "ps_sent (ps_upd i s snt res P) = ps_sent P @ snt"
  "ps_results (ps_upd i s snt res P) = ps_results P @ res"
  "length (ps_states (ps_upd i s snt res P)) = length (ps_states P)"
  by (simp_all add: ps_upd_def)

lemma ps_at_upd: "unat i < length (ps_states P) \<Longrightarrow>
    ps_at (ps_upd i s snt res P) j = (if j = i then Some s else ps_at P j)"
  by (auto simp: ps_at_def ps_upd_def nth_list_update word_unat_eq_iff)

lemma ps_at_upd_same: "ps_at P i = Some s0 \<Longrightarrow> ps_at (ps_upd i s snt res P) i = Some s"
  by (simp add: ps_at_upd ps_at_range)

definition settle :: "int \<Rightarrow> InstanceState \<Rightarrow> (InstanceState \<times> (nat option \<times> int) list) option" where
  "settle v s = (if pr_set (is_ret s) then None
     else Some (s\<lparr>is_ret := (is_ret s)\<lparr>pr_set := True\<rparr>\<rparr>, [(pr_future (is_ret s), v)]))"

lemma set_value_upd:
  assumes "unat i < length (ps_states P)"
  shows "Proposer_set_value i v (ps_upd i s snt res P) =
    map_option (\<lambda>(s', r). ps_upd i s' snt (res @ r) P) (settle v s)"
  using assms by (simp add: Proposer_set_value_def ps_at_upd settle_def ps_put_upd) (simp add: ps_upd_def)

lemma doBatchRpcRequest_upd:
  "ps_conn P \<noteq> None \<Longrightarrow>
   Proposer_doBatchRpcRequest pm (ps_upd i s snt res P) = Some (ps_upd i s (snt @ bcast P pm) res P, err kErrCode_OK)"
  by (auto simp: Proposer_doBatchRpcRequest_def bcast_def GetPLIdFromMsg_def ConnMng_GetAllConn_def ps_upd_def)

lemma UpdatePrepareId_upd:
  assumes "unat i < length (ps_states P)"
  shows "Proposer_UpdatePrepareId i pid (ps_upd i s snt res P) =
    map_option (\<lambda>(g, _). ps_upd i (s\<lparr>is_ig := g\<rparr>) snt res P) (IdGen_SetGreaterThan pid (is_ig s))"
  using assms by (simp add: Proposer_UpdatePrepareId_def ps_at_upd ps_put_upd split: Option.bind_split option.split prod.split)

lemma UpdateChosenInfo_upd:
  assumes "unat i < length (ps_states P)"
  shows "Proposer_UpdateChosenInfo i k f (ps_upd i s snt res P) =
    Some (ps_upd i (fst (InstanceState_UpdateChosenInfo k f s)) snt res P, snd (InstanceState_UpdateChosenInfo k f s))"
  using assms by (simp add: Proposer_UpdateChosenInfo_def ps_at_upd ps_put_upd split: prod.split)

section \<open>Prepare responses\<close>

datatype verdict = Malformed | Refused int | Higher | Granted

definition prepare_verdict :: "PaxosMsg \<Rightarrow> PaxosMsg \<Rightarrow> verdict" where
  "prepare_verdict req rsp =
     (if m_type rsp \<noteq> mt kMsgType_PREPARE_RSP then Malformed
      else if m_errcode rsp \<noteq> err kErrCode_OK then Refused (m_errcode rsp)
      else if p_status (m_body rsp) \<noteq> st kPaxosState_PROMISED then Refused (- 2)
      else if p_pid (m_body rsp) > p_pid (m_body req) then Higher
      else Granted)"

definition with_meta :: "PaxosMsg \<Rightarrow> PaxosMsg \<Rightarrow> PaxosMsg" where
  "with_meta rsp req = req\<lparr>m_body := fst (CopyProposalMeta (m_body req) (m_body rsp))\<rparr>"

text \<open>The new state, the messages to broadcast, the values set and the return code.\<close>

type_synonym step_result = "(InstanceState \<times> PaxosMsg list \<times> (nat option \<times> int) list \<times> int) option"

definition prepare_out_step :: "int \<Rightarrow> bool \<Rightarrow> bool \<Rightarrow> PaxosMsg list \<Rightarrow> InstanceState \<Rightarrow> step_result" where
  "prepare_out_step ret done first ms s = do {
     (s1, r1) \<leftarrow> (if first \<and> notified s then settle (err kErrCode_PREPARE_PEER_VALUE) s else Some (s, []));
     (if done then do {
        let ret' = (if ret < 0 then err kErrCode_PREPARE_NOT_QUORAUM else ret);
        let s2 = s1\<lparr>is_req := None\<rparr>;
        (s3, r2) \<leftarrow> (if notified s2 then Some (s2, []) else settle ret' s2);
        Some (s3, ms, r1 @ r2, ret')
      }
      else Some (s1, ms, r1, ret))
   }"

definition last_vote_step :: "PaxosMsg \<Rightarrow> PaxosMsg \<Rightarrow> InstanceState \<Rightarrow> (InstanceState \<times> bool \<times> bool) option" where
  "last_vote_step rsp req s =
     (if p_value_id (m_body rsp) = p_value_id (m_body req) then Some (s, notified s, False)
      else if \<not> p_size (m_body rsp) > 0 then None
      else do {
        newer \<leftarrow> (if \<not> notified s then Some True
                   else map_option (\<lambda>m. p_pid (m_body m) < p_pid (m_body rsp)) (is_lastv s));
        (if newer then do {
           npm \<leftarrow> CloneProposalMsg rsp;
           Some (s\<lparr>is_state := (if notified s then is_state s else is_state s OR 0x80), is_lastv := Some npm\<rparr>,
                 True, \<not> notified s)
         }
         else Some (s, notified s, False))
      })"

definition to_accepting :: "InstanceState \<Rightarrow> InstanceState" where
  "to_accepting s = s\<lparr>is_lastv := None, is_rsp_count := 0, is_valid_rsp_count := 0,
     is_state := ucast (st kPaxosState_ACCEPTING OR ucast (is_state s AND 0x80))\<rparr>"

definition prepare_step :: "Configure \<Rightarrow> PaxosMsg \<Rightarrow> PaxosMsg \<Rightarrow> InstanceState \<Rightarrow> step_result" where
  "prepare_step cf rsp req s =
     (let total = cf_total_acceptor cf;
          s1 = s\<lparr>is_rsp_count := is_rsp_count s + 1\<rparr>;
          done = (ucast (is_rsp_count s1) = total);
          req1 = with_meta rsp req;
          s2 = s1\<lparr>is_req := Some req1\<rparr>
      in case prepare_verdict req rsp of
           Malformed \<Rightarrow> prepare_out_step (- 1) False False [] s
         | Refused r \<Rightarrow> prepare_out_step r done False [] s1
         | Higher \<Rightarrow> do {
             (g, _) \<leftarrow> IdGen_SetGreaterThan (p_pid (m_body rsp)) (is_ig s2);
             prepare_out_step (- 3) done False [] (s2\<lparr>is_ig := g\<rparr>)
           }
         | Granted \<Rightarrow> do {
             (s3, has, first) \<leftarrow> last_vote_step rsp req1 s2;
             let s4 = s3\<lparr>is_valid_rsp_count := is_valid_rsp_count s3 + 1\<rparr>;
             let enough = (ucast (is_valid_rsp_count s4) \<ge> total div 2 + 1);
             (if (if has \<and> enough then done else enough)
              then if p_pid (m_body rsp) > 0 then do {
                     m0 \<leftarrow> (if has then is_lastv s4 else is_req s4);
                     let m = Proposer_accept_header cf s4 m0;
                     prepare_out_step (m_errcode rsp) False first [m]
                       (to_accepting (if has then s4 else s4\<lparr>is_req := Some m\<rparr>))
                   }
                   else prepare_out_step (err kErrCode_OK) True first [] s4
              else prepare_out_step (m_errcode rsp) done first [] s4)
           })"

definition lift_step :: "u64 \<Rightarrow> 'conn Proposer \<Rightarrow> step_result \<Rightarrow> ('conn Proposer \<times> int) option" where
  "lift_step i P r = map_option (\<lambda>(s, ms, res, ret). (ps_upd i s (bcasts P ms) res P, ret)) r"

lemma lift_step_simps [simp]: "lift_step i P None = None"
  "lift_step i P (Some (s, ms, res, ret)) = Some (ps_upd i s (bcasts P ms) res P, ret)"
  by (simp_all add: lift_step_def)

lemma prepare_out_upd:
  assumes "unat i < length (ps_states P)"
  shows "Proposer_prepare_out i ret done first (ps_upd i s (bcasts P ms) [] P) =
    lift_step i P (prepare_out_step ret done first ms s)"
  using assms
  by (auto simp: Proposer_prepare_out_def prepare_out_step_def ps_at_upd set_value_upd ps_put_upd notified_def
      settle_def lift_step_def Let_def)

lemma last_vote_upd:
  assumes "unat i < length (ps_states P)"
  shows "Proposer_last_vote i rsp req (ps_upd i s [] [] P) =
    map_option (\<lambda>(s', b). (ps_upd i s' [] [] P, b)) (last_vote_step rsp req s)"
  using assms
  by (auto simp: Proposer_last_vote_def last_vote_step_def ps_at_upd ps_put_upd notified_def Let_def
      split: Option.bind_splits option.splits)

lemma header_ps [simp]:
  "Proposer_accept_header cf (s\<lparr>is_req := x\<rparr>) m = Proposer_accept_header cf s m"
  by (simp add: Proposer_accept_header_def)

lemma start_accept_upd:
  assumes "unat i < length (ps_states P)" and "ps_conn P \<noteq> None"
  shows "Proposer_start_accept i rsp has (ps_upd i s [] [] P) =
    (if p_pid (m_body rsp) > 0
     then do {
       m0 \<leftarrow> (if has then is_lastv s else is_req s);
       let m = Proposer_accept_header (ps_config P) s m0;
       Some (ps_upd i (to_accepting (if has then s else s\<lparr>is_req := Some m\<rparr>)) (bcasts P [m]) [] P, None, False)
     }
     else Some (ps_upd i s [] [] P, Some (err kErrCode_OK), True))"
  using assms
  by (auto simp: Proposer_start_accept_def Proposer_doAccept_def Proposer_setupWaitState_def doBatchRpcRequest_upd
      ps_at_upd ps_put_upd to_accepting_def Let_def split: option.splits)

lemma handlePrepareRsp_step:
  assumes "ps_at P i = Some s" and "is_req s = Some req" and "p_pinst (m_body rsp) = i"
    and "p_pinst (m_body req) = i" and "ps_conn P \<noteq> None"
  shows "Proposer_handlePrepareRsp rsp P = lift_step i P (prepare_step (ps_config P) rsp req s)"
proof -
  have r: "unat i < length (ps_states P)" using assms(1) by (rule ps_at_range)
  have meta: "p_pid (m_body (with_meta rsp req)) = p_pid (m_body req)"
    "p_pinst (m_body (with_meta rsp req)) = i"
    using assms(4) by (simp_all add: with_meta_def CopyProposalMeta_def Let_def)
  have "Proposer_prepare_out i ret fin first P = lift_step i P (prepare_out_step ret fin first [] s)" for ret fin first
    using prepare_out_upd [OF r, of ret fin first s "[]"] by (simp add: ps_upd_self [OF assms(1)])
  note out = this prepare_out_upd [OF r, where ms = "[]", simplified] prepare_out_upd [OF r, where ms = "[m]" for m, simplified]
  show ?thesis
    using assms(1-3) meta
    by (auto simp: Proposer_handlePrepareRsp_def prepare_step_def prepare_verdict_def Let_def ps_put_upd
        out last_vote_upd [OF r] start_accept_upd [OF r assms(5)] UpdatePrepareId_upd [OF r] ps_at_upd [OF r]
        ps_upd_self simp flip: with_meta_def split: Option.bind_splits option.splits prod.splits if_splits)
qed

section \<open>Accept responses\<close>

datatype vote_verdict = VoteMalformed | VoteRefused int | VoteRejected | VoteOther | Voted

definition accept_verdict :: "PaxosMsg \<Rightarrow> PaxosMsg \<Rightarrow> vote_verdict" where
  "accept_verdict req rsp =
     (if m_type rsp \<noteq> mt kMsgType_ACCEPT_RSP then VoteMalformed
      else if m_errcode rsp \<noteq> err kErrCode_OK then VoteRefused (m_errcode rsp)
      else if p_status (m_body rsp) \<noteq> st kPaxosState_ACCEPTED then VoteRefused (err kErrCode_PEER_ACCEPT_FAIL)
      else if p_pid (m_body rsp) \<noteq> p_pid (m_body req) then VoteRejected
      else if p_value_id (m_body rsp) \<noteq> p_value_id (m_body req) then VoteOther
      else Voted)"

definition accept_out_step :: "int \<Rightarrow> bool \<Rightarrow> PaxosMsg list \<Rightarrow> InstanceState \<Rightarrow> step_result" where
  "accept_out_step ret done ms s =
     (if done then do {
        let s1 = s\<lparr>is_req := None\<rparr>;
        (s2, r) \<leftarrow> (if notified s1 then Some (s1, []) else settle ret s1);
        Some (s2, ms, r, ret)
      }
      else Some (s, ms, [], ret))"

definition accept_step :: "Configure \<Rightarrow> PaxosMsg \<Rightarrow> PaxosMsg \<Rightarrow> InstanceState \<Rightarrow> step_result" where
  "accept_step cf rsp req s =
     (let total = cf_total_acceptor cf;
          s1 = s\<lparr>is_rsp_count := is_rsp_count s + 1\<rparr>;
          done = (ucast (is_rsp_count s1) = total);
          s2 = s1\<lparr>is_req := Some (with_meta rsp req)\<rparr>;
          s3 = s2\<lparr>is_valid_rsp_count := is_valid_rsp_count s2 + 1\<rparr>
      in case accept_verdict req rsp of
           VoteMalformed \<Rightarrow> accept_out_step (err kErrCode_INVALID_ACCEPT_RSP) False [] s
         | VoteRefused r \<Rightarrow> accept_out_step r done [] s1
         | VoteRejected \<Rightarrow> do {
             (g, _) \<leftarrow> IdGen_SetGreaterThan (p_pid (m_body rsp)) (is_ig s2);
             accept_out_step (err kErrCode_PEER_ACCEPT_REJECTED) done [] (s2\<lparr>is_ig := g\<rparr>)
           }
         | VoteOther \<Rightarrow> accept_out_step (err kErrCode_PEER_ACCEPT_OTHER_VALUE) done [] s2
         | Voted \<Rightarrow>
             if ucast (is_valid_rsp_count s3) \<ge> total div 2 + 1
             then accept_out_step (m_errcode rsp) True [Proposer_chosen_msg cf rsp]
                    (fst (InstanceState_UpdateChosenInfo (p_pentry (m_body rsp)) (ucast (p_proposer (m_body rsp))) s3))
             else accept_out_step (m_errcode rsp) done [] s3)"

lemma accept_out_upd:
  assumes "unat i < length (ps_states P)"
  shows "Proposer_accept_out i ret done (ps_upd i s (bcasts P ms) [] P) = lift_step i P (accept_out_step ret done ms s)"
  using assms
  by (auto simp: Proposer_accept_out_def accept_out_step_def ps_at_upd set_value_upd ps_put_upd notified_def
      settle_def lift_step_def Let_def)

lemma handleAcceptRsp_step:
  assumes "ps_at P i = Some s" and "is_req s = Some req" and "p_pinst (m_body rsp) = i"
    and "p_pinst (m_body req) = i" and "ps_conn P \<noteq> None"
  shows "Proposer_handleAcceptRsp rsp P = lift_step i P (accept_step (ps_config P) rsp req s)"
proof -
  have r: "unat i < length (ps_states P)" using assms(1) by (rule ps_at_range)
  have meta: "p_pid (m_body (with_meta rsp req)) = p_pid (m_body req)"
    "p_value_id (m_body (with_meta rsp req)) = p_value_id (m_body req)"
    "p_pinst (m_body (with_meta rsp req)) = i"
    using assms(4) by (simp_all add: with_meta_def CopyProposalMeta_def Let_def)
  have "Proposer_accept_out i ret fin P = lift_step i P (accept_out_step ret fin [] s)" for ret fin
    using accept_out_upd [OF r, of ret fin s "[]"] by (simp add: ps_upd_self [OF assms(1)])
  note out = this accept_out_upd [OF r, where ms = "[]", simplified] accept_out_upd [OF r, where ms = "[m]" for m, simplified]
  show ?thesis
    using assms(1-3) meta
    by (auto simp: Proposer_handleAcceptRsp_def accept_step_def accept_verdict_def Let_def ps_put_upd
        out UpdatePrepareId_upd [OF r] UpdateChosenInfo_upd [OF r] ps_at_upd [OF r] Proposer_doChosen_def
        doBatchRpcRequest_upd [OF assms(5)] ps_upd_self simp flip: with_meta_def
        split: Option.bind_splits option.splits prod.splits if_splits)
qed

section \<open>Responses and timeouts\<close>

definition timeout_step :: "InstanceState \<Rightarrow> step_result" where
  "timeout_step s = do {
     let s1 = s\<lparr>is_req := None, is_lastv := None\<rparr>;
     (s2, r) \<leftarrow> (if notified s1 then Some (s1, []) else settle (err kErrCode_TIMEOUT) s1);
     Some (s2, [], r, err kErrCode_OK)
   }"

definition response_step :: "Configure \<Rightarrow> u64 \<Rightarrow> PaxosMsg option \<Rightarrow> InstanceState \<Rightarrow> step_result" where
  "response_step cf term msg s =
     (case is_req s of
        None \<Rightarrow> Some (s, [], [], err kErrCode_OK)
      | Some req \<Rightarrow>
          if term \<noteq> is_term s - 1 then Some (s, [], [], err kErrCode_OK)
          else case msg of
            None \<Rightarrow> timeout_step s
          | Some rsp \<Rightarrow>
              if phase s = PREPARING then prepare_step cf rsp req s
              else if phase s = ACCEPTING then accept_step cf rsp req s
              else Some (s, [], [], err kErrCode_OK))"

lemma ps_slot_range: "unat i < length (ps_states P) \<Longrightarrow> length (ps_states P) < 2 ^ 64 \<Longrightarrow> ps_slot P i = Some i"
  by (auto simp: ps_slot_def word_unat_eq_iff unat_mod unat_of_nat)

lemma handleRpcResponse_step:
  assumes "ps_at P i = Some s" and "length (ps_states P) < 2 ^ 64" and "rm_pinst m = i" and "ps_conn P \<noteq> None"
    and "\<forall>rsp. rm_msg m = Some rsp \<longrightarrow> p_pinst (m_body rsp) = i"
    and "\<forall>req. is_req s = Some req \<longrightarrow> p_pinst (m_body req) = i"
  shows "Proposer_handleRpcResponse m P = lift_step i P (response_step (ps_config P) (rm_term m) (rm_msg m) s)"
proof -
  have r: "unat i < length (ps_states P)" using assms(1) by (rule ps_at_range)
  have self: "ps_upd i s [] [] P = P" using assms(1) by (rule ps_upd_self)
  have codes: "ucast (st kPaxosState_PREPARING) = PREPARING" "ucast (st kPaxosState_ACCEPTING) = ACCEPTING"
    by simp_all
  show ?thesis
  proof (cases "is_req s")
    case None
    then show ?thesis
      using assms(1,3) by (simp add: Proposer_handleRpcResponse_def response_step_def ps_slot_range [OF r assms(2)] self)
  next
    case (Some req)
    have pi: "p_pinst (m_body req) = i" using assms(6) Some by simp
    show ?thesis
    proof (cases "rm_msg m")
      case None
      then show ?thesis
        using assms(1,3) Some r
        by (auto simp: Proposer_handleRpcResponse_def response_step_def ps_slot_range [OF r assms(2)] self
            timeout_step_def ps_put_upd set_value_upd settle_def notified_def Let_def lift_step_def)
    next
      case (Some rsp)
      then have "p_pinst (m_body rsp) = i" using assms(5) by simp
      from handlePrepareRsp_step [OF assms(1) \<open>is_req s = Some req\<close> this pi assms(4)]
        handleAcceptRsp_step [OF assms(1) \<open>is_req s = Some req\<close> this pi assms(4)] show ?thesis
        using assms(1,3) Some \<open>is_req s = Some req\<close>
        by (simp add: Proposer_handleRpcResponse_def response_step_def ps_slot_range [OF r assms(2)] self codes
            phase_def del: st.simps)
    qed
  qed
qed

end
