(* ===== verification/Proposer_Inv.thy ===== *)
theory Proposer_Inv
  imports Proposer_Spec
begin

unbundle bit_operations_syntax

text \<open>
  Invariants of the proposer: of one instance under a response or timeout, of the futures handed
  out to clients, and of the count of promises that leads to an accept request.
\<close>

section \<open>One instance\<close>

definition is_ok :: "u64 \<Rightarrow> InstanceState \<Rightarrow> bool" where
  "is_ok i s \<longleftrightarrow> ig_step (is_ig s) \<noteq> 0 \<and>
     (\<forall>req. is_req s = Some req \<longrightarrow> p_pinst (m_body req) = i \<and> pr_future (is_ret s) \<noteq> None \<and>
        (pr_set (is_ret s) \<longleftrightarrow> notified s) \<and>
        (phase s = PREPARING \<and> (notified s \<longrightarrow> is_lastv s \<noteq> None) \<or> phase s = ACCEPTING))"

text \<open>The future a client still waits for.\<close>

definition open_future :: "InstanceState \<Rightarrow> nat option" where
  "open_future s = (if is_req s \<noteq> None \<and> \<not> pr_set (is_ret s) then pr_future (is_ret s) else None)"

text \<open>A future stays open and nothing is set, or it is closed by exactly one value.\<close>

definition balanced :: "InstanceState \<Rightarrow> InstanceState \<Rightarrow> (nat option \<times> int) list \<Rightarrow> bool" where
  "balanced s s' res \<longleftrightarrow> open_future s' = open_future s \<and> res = [] \<or>
     (\<exists>f v. open_future s = Some f \<and> open_future s' = None \<and> res = [(Some f, v)])"

text \<open>
  Responses the handlers are written for: complete, and with a value if they carry another vote
  (otherwise an assertion fails).
\<close>

definition rsp_fine :: "PaxosMsg option \<Rightarrow> InstanceState \<Rightarrow> bool" where
  "rsp_fine msg s \<longleftrightarrow> (\<forall>rsp req. msg = Some rsp \<longrightarrow> wf_PaxosMsg rsp \<and>
     (is_req s = Some req \<and> prepare_verdict req rsp = Granted \<and> p_value_id (m_body rsp) \<noteq> p_value_id (m_body req) \<longrightarrow>
        p_size (m_body rsp) > 0))"

text \<open>What every step keeps.\<close>

definition step_ok :: "u64 \<Rightarrow> InstanceState \<Rightarrow> step_result \<Rightarrow> bool" where
  "step_ok i s r \<longleftrightarrow> (\<exists>s' ms res ret. r = Some (s', ms, res, ret) \<and> is_ok i s' \<and> balanced s s' res \<and>
     is_term s' = is_term s \<and> is_vig s' = is_vig s \<and> is_proposer_id s' = is_proposer_id s)"

lemma notified_cong [simp]: "notified (s\<lparr>is_req := a\<rparr>) = notified s" "notified (s\<lparr>is_ret := b\<rparr>) = notified s"
  "notified (s\<lparr>is_rsp_count := c\<rparr>) = notified s" "notified (s\<lparr>is_valid_rsp_count := d\<rparr>) = notified s"
  "notified (s\<lparr>is_ig := g\<rparr>) = notified s" "notified (s\<lparr>is_lastv := l\<rparr>) = notified s"
  "notified (s\<lparr>is_last_chosen_entry := e\<rparr>) = notified s" "notified (s\<lparr>is_last_chosen_from := f\<rparr>) = notified s"
  "phase (s\<lparr>is_req := a\<rparr>) = phase s" "phase (s\<lparr>is_ret := b\<rparr>) = phase s"
  "phase (s\<lparr>is_rsp_count := c\<rparr>) = phase s" "phase (s\<lparr>is_valid_rsp_count := d\<rparr>) = phase s"
  "phase (s\<lparr>is_ig := g\<rparr>) = phase s" "phase (s\<lparr>is_lastv := l\<rparr>) = phase s"
  "phase (s\<lparr>is_last_chosen_entry := e\<rparr>) = phase s" "phase (s\<lparr>is_last_chosen_from := f\<rparr>) = phase s"
  by (simp_all add: notified_def phase_def)

lemma with_meta_fields [simp]: "p_pinst (m_body (with_meta rsp req)) = p_pinst (m_body req)"
  "p_pid (m_body (with_meta rsp req)) = p_pid (m_body req)"
  "p_value_id (m_body (with_meta rsp req)) = p_value_id (m_body req)"
  "p_pentry (m_body (with_meta rsp req)) = p_pentry (m_body req)"
  "p_data (m_body (with_meta rsp req)) = p_data (m_body req)"
  "p_size (m_body (with_meta rsp req)) = p_size (m_body req)"
  by (simp_all add: with_meta_def CopyProposalMeta_def Let_def)

lemma accept_header_fields [simp]: "p_pinst (m_body (Proposer_accept_header cf s m)) = p_pinst (m_body m)"
  "p_pid (m_body (Proposer_accept_header cf s m)) = p_pid (m_body m)"
  "p_value_id (m_body (Proposer_accept_header cf s m)) = p_value_id (m_body m)"
  "p_pentry (m_body (Proposer_accept_header cf s m)) = p_pentry (m_body m)"
  "m_type (Proposer_accept_header cf s m) = mt kMsgType_ACCEPT_REQ"
  by (simp_all add: Proposer_accept_header_def)

lemma SetGreaterThan_total:
  "ig_step g \<noteq> 0 \<Longrightarrow> \<exists>g' v. IdGen_SetGreaterThan p g = Some (g', v) \<and> ig_step g' = ig_step g"
  by (auto simp: IdGen_SetGreaterThan_def Let_def)

lemma to_accepting_fields [simp]: "notified (to_accepting s) = notified s" "phase (to_accepting s) = ACCEPTING"
  "is_req (to_accepting s) = is_req s" "is_ret (to_accepting s) = is_ret s" "is_ig (to_accepting s) = is_ig s"
  "is_term (to_accepting s) = is_term s" "is_vig (to_accepting s) = is_vig s"
  "is_proposer_id (to_accepting s) = is_proposer_id s"
proof -
  show "notified (to_accepting s) = notified s" "phase (to_accepting s) = ACCEPTING"
    unfolding to_accepting_def by (simp_all only: set_notified notified_def [of s])
qed (simp_all add: to_accepting_def)

text \<open>The end of a prepare response keeps the invariant, with or without a first last vote.\<close>

lemma prepare_out_ok:
  assumes "is_req s' = Some req" and "p_pinst (m_body req) = i" and "pr_future (is_ret s) \<noteq> None"
    and "is_req s \<noteq> None" and "is_ret s' = is_ret s" and "ig_step (is_ig s') \<noteq> 0"
    and "is_term s' = is_term s" "is_vig s' = is_vig s" "is_proposer_id s' = is_proposer_id s"
    and "pr_set (is_ret s) \<longleftrightarrow> notified s' \<and> \<not> first" and "first \<longrightarrow> notified s'"
    and "phase s' = PREPARING \<and> (notified s' \<longrightarrow> is_lastv s' \<noteq> None) \<or> phase s' = ACCEPTING"
  shows "step_ok i s (prepare_out_step ret fin first ms s')"
  using assms
  by (auto simp: step_ok_def prepare_out_step_def settle_def is_ok_def balanced_def open_future_def Let_def
      split: if_splits)

lemma accept_out_ok:
  assumes "is_req s' = Some req" and "p_pinst (m_body req) = i" and "pr_future (is_ret s) \<noteq> None"
    and "is_req s \<noteq> None" and "is_ret s' = is_ret s" and "ig_step (is_ig s') \<noteq> 0"
    and "is_term s' = is_term s" "is_vig s' = is_vig s" "is_proposer_id s' = is_proposer_id s"
    and "pr_set (is_ret s) \<longleftrightarrow> notified s'"
    and "phase s' = PREPARING \<and> (notified s' \<longrightarrow> is_lastv s' \<noteq> None) \<or> phase s' = ACCEPTING"
  shows "step_ok i s (accept_out_step ret fin ms s')"
  using assms
  by (auto simp: step_ok_def accept_out_step_def settle_def is_ok_def balanced_def open_future_def Let_def
      split: if_splits)

lemma last_vote_cases:
  assumes "wf_PaxosMsg rsp" and "p_value_id (m_body rsp) \<noteq> p_value_id (m_body req) \<longrightarrow> p_size (m_body rsp) > 0"
    and "notified s \<longrightarrow> is_lastv s \<noteq> None"
  shows "\<exists>x l first. last_vote_step rsp req s = Some (s\<lparr>is_state := x, is_lastv := l\<rparr>, notified (s\<lparr>is_state := x\<rparr>), first) \<and>
     phase (s\<lparr>is_state := x\<rparr>) = phase s \<and> (notified (s\<lparr>is_state := x\<rparr>) \<longrightarrow> l \<noteq> None) \<and>
     (notified s \<longleftrightarrow> notified (s\<lparr>is_state := x\<rparr>) \<and> \<not> first) \<and> (first \<longrightarrow> notified (s\<lparr>is_state := x\<rparr>))"
proof -
  have self: "s\<lparr>is_state := is_state s, is_lastv := is_lastv s\<rparr> = s" "s\<lparr>is_state := is_state s\<rparr> = s"
    "s\<lparr>is_lastv := is_lastv s\<rparr> = s" by simp_all
  consider "p_value_id (m_body rsp) = p_value_id (m_body req)"
    | "p_value_id (m_body rsp) \<noteq> p_value_id (m_body req)" "\<not> notified s"
    | m where "p_value_id (m_body rsp) \<noteq> p_value_id (m_body req)" "notified s" "is_lastv s = Some m"
    using assms(3) by blast
  then show ?thesis
  proof cases
    case 1
    then show ?thesis using assms(3)
      by (intro exI [of _ "is_state s"] exI [of _ "is_lastv s"] exI [of _ False]) (simp add: last_vote_step_def)
  next
    case 2
    then show ?thesis using assms(1,2)
      by (intro exI [of _ "is_state s OR 0x80"] exI [of _ "Some rsp"] exI [of _ True])
        (simp add: last_vote_step_def phase_def [of s])
  next
    case 3
    then show ?thesis using assms(1,2)
      by (intro exI [of _ "is_state s"] exI [of _ "if p_pid (m_body m) < p_pid (m_body rsp) then Some rsp else is_lastv s"]
          exI [of _ False]) (simp add: last_vote_step_def)
  qed
qed

lemma prepare_step_ok:
  assumes "is_ok i s" and "is_req s = Some req" and "phase s = PREPARING" and "rsp_fine (Some rsp) s"
  shows "step_ok i s (prepare_step cf rsp req s)"
proof -
  have ok: "ig_step (is_ig s) \<noteq> 0" "p_pinst (m_body req) = i" "pr_future (is_ret s) \<noteq> None"
    "pr_set (is_ret s) \<longleftrightarrow> notified s" "notified s \<longrightarrow> is_lastv s \<noteq> None" "is_req s \<noteq> None"
    using assms(1-3) by (auto simp: is_ok_def)
  note out = prepare_out_ok [OF _ _ ok(3,6)]
  show ?thesis
  proof (cases "prepare_verdict req rsp")
    case Higher
    obtain g v where "IdGen_SetGreaterThan (p_pid (m_body rsp)) (is_ig s) = Some (g, v)" "ig_step g = ig_step (is_ig s)"
      using SetGreaterThan_total [OF ok(1)] by blast
    then show ?thesis using Higher ok assms(3) by (auto simp: prepare_step_def Let_def intro!: out)
  next
    case Granted
    let ?s = "s\<lparr>is_rsp_count := is_rsp_count s + 1, is_req := Some (with_meta rsp req)\<rparr>"
    have "wf_PaxosMsg rsp"
      "p_value_id (m_body rsp) \<noteq> p_value_id (m_body (with_meta rsp req)) \<longrightarrow> p_size (m_body rsp) > 0"
      using assms(2,4) Granted by (auto simp: rsp_fine_def)
    from last_vote_cases [OF this, of ?s] ok(5) obtain x l first where
      lv: "last_vote_step rsp (with_meta rsp req) ?s =
          Some (?s\<lparr>is_state := x, is_lastv := l\<rparr>, notified (?s\<lparr>is_state := x\<rparr>), first)"
        "phase (?s\<lparr>is_state := x\<rparr>) = phase ?s" "notified (?s\<lparr>is_state := x\<rparr>) \<longrightarrow> l \<noteq> None"
        "notified ?s \<longleftrightarrow> notified (?s\<lparr>is_state := x\<rparr>) \<and> \<not> first" "first \<longrightarrow> notified (?s\<lparr>is_state := x\<rparr>)"
      by auto
    have st: "notified (t\<lparr>is_state := x\<rparr>) = notified (?s\<lparr>is_state := x\<rparr>)"
      "phase (t\<lparr>is_state := x\<rparr>) = phase (?s\<lparr>is_state := x\<rparr>)" for t
      by (simp_all add: notified_def phase_def)
    let ?has = "notified (?s\<lparr>is_state := x\<rparr>)"
    have "\<exists>m0. (if ?has then l else Some (with_meta rsp req)) = Some m0"
      using lv(3) by (cases "?has") auto
    then show ?thesis
      using Granted ok assms(3) lv st
      by (auto simp: prepare_step_def Let_def intro!: out split: if_splits)
  qed (use ok assms(2,3) in \<open>auto simp: prepare_step_def Let_def intro!: out\<close>)
qed

lemma UpdateChosenInfo_keeps [simp]:
  "is_req (fst (InstanceState_UpdateChosenInfo k f s)) = is_req s"
  "is_ret (fst (InstanceState_UpdateChosenInfo k f s)) = is_ret s"
  "is_term (fst (InstanceState_UpdateChosenInfo k f s)) = is_term s"
  "is_vig (fst (InstanceState_UpdateChosenInfo k f s)) = is_vig s"
  "is_proposer_id (fst (InstanceState_UpdateChosenInfo k f s)) = is_proposer_id s"
  "is_lastv (fst (InstanceState_UpdateChosenInfo k f s)) = is_lastv s"
  "is_state (fst (InstanceState_UpdateChosenInfo k f s)) = is_state s"
  "notified (fst (InstanceState_UpdateChosenInfo k f s)) = notified s"
  "phase (fst (InstanceState_UpdateChosenInfo k f s)) = phase s"
  "ig_step (is_ig (fst (InstanceState_UpdateChosenInfo k f s))) = ig_step (is_ig s)"
  by (simp_all add: InstanceState_UpdateChosenInfo_def IdGen_Reset_def)

lemma accept_step_ok:
  assumes "is_ok i s" and "is_req s = Some req"
  shows "step_ok i s (accept_step cf rsp req s)"
proof -
  have ok: "ig_step (is_ig s) \<noteq> 0" "p_pinst (m_body req) = i" "pr_future (is_ret s) \<noteq> None"
    "pr_set (is_ret s) \<longleftrightarrow> notified s" "is_req s \<noteq> None"
    "phase s = PREPARING \<and> (notified s \<longrightarrow> is_lastv s \<noteq> None) \<or> phase s = ACCEPTING"
    using assms(1-2) by (auto simp: is_ok_def)
  note out = accept_out_ok [OF _ _ ok(3,5)]
  obtain g v where "IdGen_SetGreaterThan (p_pid (m_body rsp)) (is_ig s) = Some (g, v)" "ig_step g = ig_step (is_ig s)"
    using SetGreaterThan_total [OF ok(1)] by blast
  then show ?thesis
    using ok(1,2,4,6) assms(2)
    by (cases "accept_verdict req rsp") (auto simp: accept_step_def Let_def intro!: out)
qed

lemma response_step_ok:
  assumes "is_ok i s" and "rsp_fine msg s"
  shows "step_ok i s (response_step cf term msg s)"
proof -
  have same: "step_ok i s (Some (s, [], [], ret))" for ret
    using assms(1) by (simp add: step_ok_def balanced_def)
  show ?thesis
  proof (cases "is_req s")
    case (Some req)
    have "step_ok i s (timeout_step s)"
      using assms(1) Some
      by (auto simp: timeout_step_def step_ok_def is_ok_def balanced_def open_future_def settle_def Let_def)
    with Some prepare_step_ok [OF assms(1) Some] accept_step_ok [OF assms(1) Some] same assms(2) show ?thesis
      by (auto simp: response_step_def split: option.splits)
  qed (simp add: response_step_def same)
qed

section \<open>Futures\<close>

definition resolved :: "'conn Proposer \<Rightarrow> nat \<Rightarrow> nat" where
  "resolved P f = length (filter (\<lambda>r. fst r = Some f) (ps_results P))"

definition pending :: "'conn Proposer \<Rightarrow> nat \<Rightarrow> nat" where
  "pending P f = length (filter (\<lambda>s. open_future s = Some f) (ps_states P))"

text \<open>Every future handed out is pending in exactly one instance or has got exactly one value.\<close>

definition accounted :: "'conn Proposer \<Rightarrow> bool" where
  "accounted P \<longleftrightarrow> (\<forall>f. resolved P f + pending P f = (if f < ps_futures P then 1 else 0))"

definition ps_inv :: "'conn Proposer \<Rightarrow> bool" where
  "ps_inv P \<longleftrightarrow> ps_conn P \<noteq> None \<and> ps_states P \<noteq> [] \<and> length (ps_states P) < 2 ^ 32 \<and>
     (\<forall>i s. ps_at P i = Some s \<longrightarrow> is_ok i s) \<and> accounted P \<and>
     tw_inv (ps_timeout P) \<and>
     tw_rounded (cf_timeout (ps_config P) * 2) (tw_granularity_ms (ps_timeout P)) + length (tw_wheel (ps_timeout P)) < 2 ^ 32"

lemma length_filter_update:
  "i < length xs \<Longrightarrow> length (filter Q (xs[i := y])) + (if Q (xs ! i) then 1 else 0) =
     length (filter Q xs) + (if Q y then 1 else (0 :: nat))"
proof (induction xs arbitrary: i)
  case (Cons x xs)
  then show ?case by (cases i) auto
qed simp

lemma pending_upd:
  assumes "ps_at P i = Some s"
  shows "pending (ps_upd i s' snt res P) f + (if open_future s = Some f then 1 else 0) =
    pending P f + (if open_future s' = Some f then 1 else 0)"
  using assms length_filter_update [of "unat i" "ps_states P" "\<lambda>s. open_future s = Some f" s']
  by (auto simp: pending_def ps_upd_def ps_at_def split: if_splits)

lemma resolved_upd: "resolved (ps_upd i s' snt res P) f = resolved P f + length (filter (\<lambda>r. fst r = Some f) res)"
  by (simp add: resolved_def ps_upd_def)

lemma accounted_balanced:
  assumes "ps_at P i = Some s" and "balanced s s' res" and "accounted P"
  shows "accounted (ps_upd i s' snt res P)"
proof -
  have "resolved (ps_upd i s' snt res P) f + pending (ps_upd i s' snt res P) f = resolved P f + pending P f" for f
    using pending_upd [OF assms(1), of s' snt res f] resolved_upd [of i s' snt res P f] assms(2)
    by (auto simp: balanced_def)
  then show ?thesis using assms(3) by (simp add: accounted_def)
qed

lemma ps_inv_upd:
  assumes "ps_inv P" and "ps_at P i = Some s" and "is_ok i s'" and "balanced s s' res"
  shows "ps_inv (ps_upd i s' snt res P)"
  using assms accounted_balanced [OF assms(2,4)] ps_at_range [OF assms(2)]
  by (auto simp: ps_inv_def ps_at_upd split: if_splits) (simp_all add: ps_upd_def)

section \<open>A new proposal\<close>

text \<open>The request with its value, and the state of an instance that starts on it.\<close>

definition propose_msg :: "Configure \<Rightarrow> u64 \<Rightarrow> u64 \<Rightarrow> u8 list \<Rightarrow> InstanceState \<Rightarrow> PaxosMsg" where
  "propose_msg cf i opaque val s =
     (let pm = snd (InstanceState_allocPaxosMsg cf i opaque (of_nat (length val)) s)
      in pm\<lparr>m_body := (m_body pm)\<lparr>p_data := val\<rparr>\<rparr>)"

definition one_phase :: "Configure \<Rightarrow> u64 \<Rightarrow> u64 \<Rightarrow> u8 list \<Rightarrow> InstanceState \<Rightarrow> bool" where
  "one_phase cf i opaque val s \<longleftrightarrow> val \<noteq> [] \<and> InstanceState_canSkipPrepare (m_body (propose_msg cf i opaque val s)) s"

definition propose_sends :: "Configure \<Rightarrow> u64 \<Rightarrow> u64 \<Rightarrow> u8 list \<Rightarrow> InstanceState \<Rightarrow> PaxosMsg" where
  "propose_sends cf i opaque val s =
     (let pm = propose_msg cf i opaque val s
      in if one_phase cf i opaque val s then Proposer_accept_header cf s pm
         else pm\<lparr>m_size := m_size pm - of_nat (length val), m_body := (m_body pm)\<lparr>p_size := 0, p_data := []\<rparr>\<rparr>)"

definition propose_state :: "Configure \<Rightarrow> u64 \<Rightarrow> u64 \<Rightarrow> u8 list \<Rightarrow> nat \<Rightarrow> InstanceState \<Rightarrow> InstanceState" where
  "propose_state cf i opaque val f s =
     (let s1 = fst (InstanceState_allocPaxosMsg cf i opaque (of_nat (length val)) s); pm = propose_msg cf i opaque val s
      in s1\<lparr>is_rsp_count := 0, is_valid_rsp_count := 0,
            is_state := (if one_phase cf i opaque val s then ACCEPTING else PREPARING),
            is_ret := \<lparr>pr_future = Some f, pr_set = False\<rparr>,
            is_req := Some (if one_phase cf i opaque val s then Proposer_accept_header cf s pm else pm)\<rparr>)"

lemma alloc_keeps:
  "canSkip = InstanceState_canSkipPrepare pp \<Longrightarrow>
   canSkip (fst (InstanceState_allocPaxosMsg cf i opaque sz s)) = canSkip s"
  "Proposer_accept_header cf (fst (InstanceState_allocPaxosMsg cf i opaque sz s)) = Proposer_accept_header cf s"
  by (auto simp: InstanceState_allocPaxosMsg_def InstanceState_canSkipPrepare_def Proposer_accept_header_def Let_def
      IdGen_GetAndInc_def fun_eq_iff split: prod.split)

lemma alloc_msg [simp]: "p_size (m_body (snd (InstanceState_allocPaxosMsg cf i opaque sz s))) = sz"
  "p_pinst (m_body (snd (InstanceState_allocPaxosMsg cf i opaque sz s))) = i"
  "p_term (m_body (snd (InstanceState_allocPaxosMsg cf i opaque sz s))) = is_term s"
  "p_pentry (m_body (snd (InstanceState_allocPaxosMsg cf i opaque sz s))) = is_last_chosen_entry s + 1"
  "m_type (snd (InstanceState_allocPaxosMsg cf i opaque sz s)) = mt kMsgType_PREPARE_REQ"
  "p_opaque (m_body (snd (InstanceState_allocPaxosMsg cf i opaque sz s))) = opaque"
  by (simp_all add: InstanceState_allocPaxosMsg_def AllocProposalMsg_def Let_def IdGen_GetAndInc_def split: prod.split)

lemma alloc_state [simp]: "is_term (fst (InstanceState_allocPaxosMsg cf i opaque sz s)) = is_term s + 1"
  "is_req (fst (InstanceState_allocPaxosMsg cf i opaque sz s)) = is_req s"
  "ig_step (is_ig (fst (InstanceState_allocPaxosMsg cf i opaque sz s))) = ig_step (is_ig s)"
  by (simp_all add: InstanceState_allocPaxosMsg_def Let_def IdGen_GetAndInc_def split: prod.split)

lemma without_value:
  assumes "p_size (m_body pm) = n"
  shows "Proposer_without_value pm n = Some (pm\<lparr>m_size := m_size pm - n, m_body := (m_body pm)\<lparr>p_size := 0, p_data := []\<rparr>\<rparr>)"
  using assms by (simp add: Proposer_without_value_def CloneProposalMsg_def memcpy_Proposal_def AllocProposalMsg_def
      calloc_Proposal_def Let_def)

lemma ps_futures_at [simp]: "ps_at (P\<lparr>ps_futures := x\<rparr>) = ps_at P" "ps_slot (P\<lparr>ps_futures := x\<rparr>) = ps_slot P"
  "bcast (P\<lparr>ps_futures := x\<rparr>) = bcast P"
  by (simp_all add: ps_at_def ps_slot_def bcast_def fun_eq_iff)

lemma ps_timeout_at [simp]: "ps_at (P\<lparr>ps_timeout := x\<rparr>) = ps_at P"
  by (simp add: ps_at_def fun_eq_iff)

lemma setupWaitState_upd:
  assumes "ps_at P i = Some s0"
    and "TimingWheel_AddTimeout (p_term (m_body m)) (cf_timeout (ps_config P) * 2)
      \<lparr>rk_pinst = i, rk_entry = k, rk_term = p_term (m_body m)\<rparr> (ps_timeout P) = Some (tw, True)"
  shows "Proposer_setupWaitState i k x (Some p) (Some m) (ps_upd i s snt res P) =
    Some ((ps_upd i (s\<lparr>is_rsp_count := 0, is_valid_rsp_count := 0, is_state := ucast x, is_ret := p, is_req := Some m\<rparr>)
            snt res P)\<lparr>ps_timeout := tw\<rparr>)"
  using assms(2)
  by (simp add: Proposer_setupWaitState_def ps_at_upd_same [OF assms(1)] ps_put_upd Proposer_addTimeout_def)

lemma ProposeAsync_idle:
  assumes "ps_conn P \<noteq> None" and "ps_slot P pinst = Some i" and "ps_at P i = Some s" and "is_req s = None"
    and "length val < 2 ^ 32"
    and "TimingWheel_AddTimeout (is_term s) (cf_timeout (ps_config P) * 2)
      \<lparr>rk_pinst = i, rk_entry = is_last_chosen_entry s + 1, rk_term = is_term s\<rparr> (ps_timeout P) = Some (tw, True)"
  shows "Proposer_ProposeAsync opaque val pinst P =
    Some ((ps_upd i (propose_state (ps_config P) i opaque val (ps_futures P) s)
             (bcast P (propose_sends (ps_config P) i opaque val s)) [] (P\<lparr>ps_futures := Suc (ps_futures P)\<rparr>))
            \<lparr>ps_timeout := tw\<rparr>, ps_futures P)"
proof -
  let ?Q = "P\<lparr>ps_futures := Suc (ps_futures P)\<rparr>" and ?cf = "ps_config P"
  let ?n = "of_nat (length val) :: u32"
  let ?s1 = "fst (InstanceState_allocPaxosMsg ?cf i opaque ?n s)" and ?pm = "propose_msg ?cf i opaque val s"
  have n: "unat ?n = length val" using assms(5) by (simp add: unat_of_nat)
  have Q: "ps_at ?Q i = Some s" "ps_conn ?Q \<noteq> None" using assms(1,3) by simp_all
  have pm: "p_size (m_body ?pm) = ?n" "p_term (m_body ?pm) = is_term s" "p_pinst (m_body ?pm) = i"
    "p_pentry (m_body ?pm) = is_last_chosen_entry s + 1"
    by (simp_all add: propose_msg_def Let_def)
  have body: "snd (InstanceState_allocPaxosMsg ?cf i opaque ?n s)
      \<lparr>m_body := (m_body (snd (InstanceState_allocPaxosMsg ?cf i opaque ?n s)))\<lparr>p_data := val\<rparr>\<rparr> = ?pm"
    "(m_body (snd (InstanceState_allocPaxosMsg ?cf i opaque ?n s)))\<lparr>p_data := val\<rparr> = m_body ?pm"
    "snd (InstanceState_allocPaxosMsg ?cf i opaque ?n s)\<lparr>m_body := m_body ?pm\<rparr> = ?pm"
    by (simp_all add: propose_msg_def Let_def)
  have acc: "p_term (m_body (Proposer_accept_header ?cf s ?pm)) = is_term s"
    using pm(2) by (simp add: Proposer_accept_header_def)
  have wait: "Proposer_setupWaitState i (is_last_chosen_entry s + 1) x (Some p) (Some m) (ps_upd i s' snt res ?Q) =
      Some ((ps_upd i (s'\<lparr>is_rsp_count := 0, is_valid_rsp_count := 0, is_state := ucast x, is_ret := p,
        is_req := Some m\<rparr>) snt res ?Q)\<lparr>ps_timeout := tw\<rparr>)"
    if "p_term (m_body m) = is_term s" for x p m s' snt res
    using that assms(6) by (intro setupWaitState_upd [OF Q(1)]) simp
  show ?thesis
  proof (cases "one_phase ?cf i opaque val s")
    case True
    then have nz: "val \<noteq> []" and skip: "InstanceState_canSkipPrepare (m_body ?pm) ?s1"
      by (simp_all add: one_phase_def alloc_keeps(1) [OF refl])
    show ?thesis
      using assms(1-4) n nz skip True
      by (auto simp: Proposer_ProposeAsync_def Let_def split_beta ps_put_upd Proposer_doAccept_def
          doBatchRpcRequest_upd [OF Q(2)] ps_at_upd_same [OF Q(1)] alloc_keeps(2) wait [OF acc] pm body
          propose_state_def propose_sends_def)
  next
    case False
    then have skip: "val = [] \<or> \<not> InstanceState_canSkipPrepare (m_body ?pm) ?s1"
      by (auto simp: one_phase_def alloc_keeps(1) [OF refl])
    show ?thesis
      using assms(1-4) n skip False
      by (auto simp: Proposer_ProposeAsync_def Let_def split_beta ps_put_upd Proposer_doPrepare_def
          doBatchRpcRequest_upd [OF Q(2)] wait [OF pm(2)] pm body without_value [OF pm(1)]
          propose_state_def propose_sends_def)
  qed
qed

lemma ProposeAsync_busy:
  assumes "ps_conn P \<noteq> None" and "ps_slot P pinst = Some i" and "ps_at P i = Some s" and "is_req s \<noteq> None"
  shows "Proposer_ProposeAsync opaque val pinst P = Some (P\<lparr>ps_futures := Suc (ps_futures P),
    ps_results := ps_results P @ [(Some (ps_futures P), err kErrCode_WORKING_IN_PROPGRESS)]\<rparr>, ps_futures P)"
  using assms by (auto simp: Proposer_ProposeAsync_def Let_def)

section \<open>Sequences of calls\<close>

datatype proposer_event = Propose u64 "u8 list" u64 | Respond RpcResponseMsg | Learn PaxosMsg bool

fun proposer_step :: "proposer_event \<Rightarrow> 'conn Proposer \<Rightarrow> 'conn Proposer option" where
  "proposer_step (Propose opaque val pinst) P = map_option fst (Proposer_ProposeAsync opaque val pinst P)"
| "proposer_step (Respond m) P = map_option fst (Proposer_handleRpcResponse m P)"
| "proposer_step (Learn msg from_plog) P = map_option fst (Proposer_OnEntryChosen msg from_plog P)"

fun proposer_run :: "proposer_event list \<Rightarrow> 'conn Proposer \<Rightarrow> 'conn Proposer option" where
  "proposer_run [] P = Some P"
| "proposer_run (e # es) P = (case proposer_step e P of None \<Rightarrow> None | Some P' \<Rightarrow> proposer_run es P')"

text \<open>What the callback of a request queues when the answer arrives.\<close>

definition answer_to :: "RpcKey \<Rightarrow> PaxosMsg \<Rightarrow> RpcResponseMsg" where
  "answer_to k rsp = \<lparr>rm_term = rk_term k, rm_pinst = rk_pinst k, rm_entry = rk_entry k, rm_msg = Some rsp\<rparr>"

text \<open>Values below 4 GB, and responses about the instance they are delivered for.\<close>

fun event_fine :: "proposer_event \<Rightarrow> 'conn Proposer \<Rightarrow> bool" where
  "event_fine (Propose opaque val pinst) P \<longleftrightarrow> length val < 2 ^ 32"
| "event_fine (Respond m) P \<longleftrightarrow>
     (case ps_at P (rm_pinst m) of
        None \<Rightarrow> False
      | Some s \<Rightarrow> rsp_fine (rm_msg m) s \<and>
          (case rm_msg m of None \<Rightarrow> True | Some rsp \<Rightarrow> p_pinst (m_body rsp) = rm_pinst m))"
| "event_fine (Learn msg from_plog) P \<longleftrightarrow> True"

fun events_fine :: "proposer_event list \<Rightarrow> 'conn Proposer \<Rightarrow> bool" where
  "events_fine [] P \<longleftrightarrow> True"
| "events_fine (e # es) P \<longleftrightarrow> event_fine e P \<and>
     (case proposer_step e P of None \<Rightarrow> True | Some P' \<Rightarrow> events_fine es P')"

lemma ps_slot_inv:
  assumes "ps_inv P"
  shows "\<exists>i s. ps_slot P p = Some i \<and> ps_at P i = Some s \<and> is_ok i s"
proof -
  let ?n = "length (ps_states P)"
  have n: "0 < ?n" "?n < 2 ^ 32" using assms by (simp_all add: ps_inv_def)
  then have "unat (of_nat ?n :: u64) = ?n" by (simp add: unat_of_nat)
  then have "unat (p mod of_nat ?n) < ?n" using n by (simp add: unat_mod)
  then have "ps_at P (p mod of_nat ?n) = Some (ps_states P ! unat (p mod of_nat ?n))" by (simp add: ps_at_def)
  moreover have "ps_slot P p = Some (p mod of_nat ?n)" using n by (simp add: ps_slot_def)
  ultimately show ?thesis using assms by (auto simp: ps_inv_def)
qed

lemma handleRpcResponse_inv:
  assumes "ps_inv P" and "event_fine (Respond m) P"
  shows "\<exists>s s' ms res ret. ps_at P (rm_pinst m) = Some s \<and>
    response_step (ps_config P) (rm_term m) (rm_msg m) s = Some (s', ms, res, ret) \<and>
    Proposer_handleRpcResponse m P = Some (ps_upd (rm_pinst m) s' (bcasts P ms) res P, ret) \<and>
    is_ok (rm_pinst m) s' \<and> balanced s s' res"
proof -
  let ?i = "rm_pinst m"
  from assms(2) obtain s where s: "ps_at P ?i = Some s" "rsp_fine (rm_msg m) s"
    and pi: "\<forall>rsp. rm_msg m = Some rsp \<longrightarrow> p_pinst (m_body rsp) = ?i"
    by (auto split: option.splits)
  have ok: "is_ok ?i s" using assms(1) s(1) by (simp add: ps_inv_def)
  then have "\<forall>req. is_req s = Some req \<longrightarrow> p_pinst (m_body req) = ?i" by (simp add: is_ok_def)
  moreover have "length (ps_states P) < 2 ^ 64" "ps_conn P \<noteq> None" using assms(1) by (simp_all add: ps_inv_def)
  ultimately have "Proposer_handleRpcResponse m P = lift_step ?i P (response_step (ps_config P) (rm_term m) (rm_msg m) s)"
    using handleRpcResponse_step [OF s(1) _ refl _ pi] by blast
  then show ?thesis
    using response_step_ok [OF ok s(2), of "ps_config P" "rm_term m"] s(1) by (auto simp: step_ok_def)
qed

lemma ProposeAsync_inv:
  assumes "ps_inv P" and "length val < 2 ^ 32"
  shows "\<exists>P'. Proposer_ProposeAsync opaque val pinst P = Some (P', ps_futures P) \<and> ps_inv P'"
proof -
  obtain i s where i: "ps_slot P pinst = Some i" "ps_at P i = Some s" "is_ok i s"
    using ps_slot_inv [OF assms(1)] by blast
  let ?f = "ps_futures P" and ?cf = "ps_config P"
  have fresh: "resolved P ?f + pending P ?f = 0" using assms(1) by (simp add: ps_inv_def accounted_def)
  show ?thesis
  proof (cases "is_req s")
    case None
    let ?tw = "ps_timeout P" and ?s' = "propose_state ?cf i opaque val ?f s"
    obtain tw where tw: "TimingWheel_AddTimeout (is_term s) (cf_timeout ?cf * 2)
        \<lparr>rk_pinst = i, rk_entry = is_last_chosen_entry s + 1, rk_term = is_term s\<rparr> ?tw = Some (tw, True)"
      "tw_inv tw" "length (tw_wheel tw) = length (tw_wheel ?tw)" "tw_granularity_ms tw = tw_granularity_ms ?tw"
      using TimingWheel_AddTimeout_due [of ?tw] assms(1) unfolding ps_inv_def by blast
    let ?Q = "(ps_upd i ?s' (bcast P (propose_sends ?cf i opaque val s)) [] (P\<lparr>ps_futures := Suc ?f\<rparr>))\<lparr>ps_timeout := tw\<rparr>"
    have "Proposer_ProposeAsync opaque val pinst P = Some (?Q, ?f)"
      using assms i(1,2) None tw(1) by (intro ProposeAsync_idle) (simp_all add: ps_inv_def)
    moreover have "ps_inv ?Q"
    proof -
      have "is_ok i ?s'" and new: "open_future ?s' = Some ?f"
        using i(3) by (auto simp: is_ok_def propose_state_def propose_msg_def open_future_def Let_def notified_def phase_def)
      have "open_future s = None" using None by (simp add: open_future_def)
      then have "pending ?Q g = pending P g + (if g = ?f then 1 else 0)" for g
        using pending_upd [of "P\<lparr>ps_futures := Suc ?f\<rparr>" i s ?s' "bcast P (propose_sends ?cf i opaque val s)" "[]" g]
          i(2) new by (auto simp: pending_def)
      moreover have "resolved ?Q g = resolved P g" for g by (simp add: resolved_def)
      ultimately have "accounted ?Q"
        using assms(1) fresh by (auto simp: ps_inv_def accounted_def less_Suc_eq)
      moreover have "\<forall>j t. ps_at ?Q j = Some t \<longrightarrow> is_ok j t"
        using assms(1) \<open>is_ok i ?s'\<close> ps_at_range [OF i(2)] by (auto simp: ps_at_upd ps_inv_def split: if_splits)
      ultimately show ?thesis
        using assms(1) tw(2-4) by (auto simp: ps_inv_def) (simp add: ps_upd_def)
    qed
    ultimately show ?thesis by blast
  next
    case (Some req)
    let ?Q = "P\<lparr>ps_futures := Suc ?f, ps_results := ps_results P @ [(Some ?f, err kErrCode_WORKING_IN_PROPGRESS)]\<rparr>"
    have "Proposer_ProposeAsync opaque val pinst P = Some (?Q, ?f)"
      using assms(1) i(1,2) Some by (auto simp: Proposer_ProposeAsync_def ps_inv_def Let_def)
    moreover have "ps_inv ?Q"
      using assms(1) fresh
      by (auto simp: ps_inv_def accounted_def resolved_def pending_def less_Suc_eq ps_at_def split: if_splits)
    ultimately show ?thesis by blast
  qed
qed

lemma OnEntryChosen_inv:
  assumes "ps_inv P"
  shows "\<exists>P' r. Proposer_OnEntryChosen msg from_plog P = Some (P', r) \<and> ps_inv P'"
proof -
  let ?pp = "m_body msg"
  obtain i s where i: "ps_slot P (p_pinst ?pp) = Some i" "ps_at P i = Some s" "is_ok i s"
    using ps_slot_inv [OF assms] by blast
  let ?s = "fst (InstanceState_UpdateChosenInfo (p_pentry ?pp) (ucast (p_proposer ?pp)) s)"
  have "is_ok i ?s" "balanced s ?s []" using i(3) by (simp_all add: is_ok_def balanced_def open_future_def)
  then have "ps_inv (ps_upd i ?s [] [] P)" using ps_inv_upd [OF assms i(2)] by blast
  moreover have "Proposer_UpdateChosenInfo i (p_pentry ?pp) (ucast (p_proposer ?pp)) P =
      Some (ps_upd i ?s [] [] P, snd (InstanceState_UpdateChosenInfo (p_pentry ?pp) (ucast (p_proposer ?pp)) s))"
    using UpdateChosenInfo_upd [OF ps_at_range [OF i(2)], of _ _ s "[]" "[]"] ps_upd_self [OF i(2)] by simp
  ultimately show ?thesis using i assms by (auto simp: Proposer_OnEntryChosen_def Let_def)
qed

lemma proposer_step_inv: "ps_inv P \<Longrightarrow> event_fine e P \<Longrightarrow> \<exists>P'. proposer_step e P = Some P' \<and> ps_inv P'"
proof (cases e)
  case (Propose opaque val pinst)
  assume "ps_inv P" "event_fine e P"
  with ProposeAsync_inv [of P val opaque pinst] Propose show ?thesis by auto
next
  case (Respond m)
  assume "ps_inv P" "event_fine e P"
  with handleRpcResponse_inv [of P m] ps_inv_upd [of P] Respond show ?thesis by fastforce
next
  case (Learn msg from_plog)
  assume "ps_inv P"
  with OnEntryChosen_inv [of P msg from_plog] Learn show ?thesis by auto
qed

lemma proposer_run_inv: "ps_inv P \<Longrightarrow> events_fine es P \<Longrightarrow> \<exists>P'. proposer_run es P = Some P' \<and> ps_inv P'"
proof (induction es arbitrary: P)
  case (Cons e es)
  then obtain P' where "proposer_step e P = Some P'" "ps_inv P'" using proposer_step_inv [of P e] by auto
  with Cons show ?case by auto
qed simp

section \<open>Promises before the accept phase\<close>

text \<open>A response that counts as a promise for id \<open>p\<close>.\<close>

definition grants :: "u64 \<Rightarrow> PaxosMsg \<Rightarrow> bool" where
  "grants p rsp \<longleftrightarrow> m_type rsp = mt kMsgType_PREPARE_RSP \<and> m_errcode rsp = err kErrCode_OK \<and>
     p_status (m_body rsp) = st kPaxosState_PROMISED \<and> p_pid (m_body rsp) \<le> p"

definition granted :: "u64 \<Rightarrow> RpcResponseMsg list \<Rightarrow> nat" where
  "granted p ms = length (filter (\<lambda>m. case rm_msg m of None \<Rightarrow> False | Some rsp \<Rightarrow> grants p rsp) ms)"

lemma prepare_verdict_grants: "prepare_verdict req rsp = Granted \<longleftrightarrow> grants (p_pid (m_body req)) rsp"
  by (auto simp: prepare_verdict_def grants_def)

text \<open>
  Still preparing with id \<open>p\<close> and at most \<open>n\<close> promises counted, or idle.
\<close>

definition collecting :: "u64 \<Rightarrow> u64 \<Rightarrow> nat \<Rightarrow> InstanceState \<Rightarrow> bool" where
  "collecting i p n s \<longleftrightarrow> (\<forall>req. is_req s = Some req \<longrightarrow> phase s = PREPARING \<and> p_pinst (m_body req) = i \<and>
     p_pid (m_body req) = p \<and> unat (is_valid_rsp_count s) \<le> n)"

lemma prepare_out_shape:
  assumes "prepare_out_step ret fin first ms s = Some (s', ms', res, ret')"
  shows "ms' = ms" and "collecting i p n s \<Longrightarrow> collecting i p n s'"
  using assms
  by (auto simp: prepare_out_step_def collecting_def settle_def Let_def split: if_splits)

lemma last_vote_shape:
  assumes "last_vote_step rsp req s = Some (s', has, first)"
  shows "is_req s' = is_req s" "phase s' = phase s" "is_valid_rsp_count s' = is_valid_rsp_count s"
  using assms
  by (auto simp: last_vote_step_def split: if_splits Option.bind_splits)
    (auto simp: phase_def)

lemma unat_ucast_u8: "unat (ucast x :: u32) = unat x" for x :: u8
proof -
  have "unat x < 2 ^ LENGTH(8)" by (rule unsigned_less)
  then show ?thesis by (simp add: unsigned_ucast_eq take_bit_nat_eq_self)
qed

lemma count_up: "unat (x + 1) \<le> unat x + 1" for x :: u8
  by (simp add: unat_word_ariths mod_less_eq_dividend)

text \<open>One response: no accept request yet and the count is kept, or it completes a majority.\<close>

lemma prepare_step_counts:
  assumes "is_req s = Some req" and "collecting i p n s" and "prepare_step cf rsp req s = Some (s', ms, res, ret)"
  shows "ms = [] \<and> collecting i p (n + (if grants p rsp then 1 else 0)) s' \<or>
    grants p rsp \<and> unat (cf_total_acceptor cf div 2 + 1) \<le> n + 1"
proof -
  have c: "phase s = PREPARING" "p_pinst (m_body req) = i" "p_pid (m_body req) = p" "unat (is_valid_rsp_count s) \<le> n"
    using assms(1,2) by (simp_all add: collecting_def)
  show ?thesis
  proof (cases "prepare_verdict req rsp = Granted")
    case False
    have same: "collecting i p n (s\<lparr>is_rsp_count := x\<rparr>)"
      "collecting i p n (s\<lparr>is_rsp_count := x, is_req := Some (with_meta rsp req)\<rparr>)"
      "collecting i p n (s\<lparr>is_rsp_count := x, is_req := Some (with_meta rsp req), is_ig := g\<rparr>)" for x g
      using assms(1) c by (simp_all add: collecting_def)
    from False have "\<not> grants p rsp" using c(3) prepare_verdict_grants by blast
    moreover have "ms = [] \<and> collecting i p n s'"
      using assms(2,3) False same
      by (cases "prepare_verdict req rsp")
        (auto simp: prepare_step_def Let_def dest: prepare_out_shape(1) intro: prepare_out_shape(2)
          split: Option.bind_splits)
    ultimately show ?thesis by simp
  next
    case True
    then have g: "grants p rsp" using c(3) prepare_verdict_grants by blast
    let ?s = "s\<lparr>is_rsp_count := is_rsp_count s + 1, is_req := Some (with_meta rsp req)\<rparr>"
    obtain s3 has first where lv: "last_vote_step rsp (with_meta rsp req) ?s = Some (s3, has, first)"
      using assms(3) True by (auto simp: prepare_step_def Let_def split: Option.bind_splits)
    let ?v = "is_valid_rsp_count s3 + 1"
    have v: "unat ?v \<le> n + 1" using last_vote_shape(3) [OF lv] c(4) count_up [of "is_valid_rsp_count s"] by simp
    have keep: "collecting i p (n + 1) (s3\<lparr>is_valid_rsp_count := ?v\<rparr>)"
      using last_vote_shape [OF lv] c v by (simp add: collecting_def)
    show ?thesis
    proof (cases "cf_total_acceptor cf div 2 + 1 \<le> ucast ?v")
      case True
      then have "unat (cf_total_acceptor cf div 2 + 1) \<le> unat (ucast ?v :: u32)" by (simp add: word_le_nat_alt)
      also have "\<dots> = unat ?v" by (rule unat_ucast_u8)
      finally show ?thesis using v g by simp
    next
      case few: False
      then show ?thesis
        using assms(3) True lv keep g
        by (auto simp: prepare_step_def Let_def dest: prepare_out_shape split: if_splits)
    qed
  qed
qed

lemma response_step_counts:
  assumes "collecting i p n s" and "response_step cf term msg s = Some (s', ms, res, ret)"
  shows "ms = [] \<and> collecting i p (n + (case msg of None \<Rightarrow> 0 | Some rsp \<Rightarrow> if grants p rsp then 1 else 0)) s' \<or>
    (\<exists>rsp. msg = Some rsp \<and> grants p rsp) \<and> unat (cf_total_acceptor cf div 2 + 1) \<le> n + 1"
proof (cases "is_req s")
  case None
  then show ?thesis using assms by (auto simp: response_step_def collecting_def split: option.splits)
next
  case (Some req)
  have more: "collecting i p (n + k) s" for k using assms(1) by (auto simp: collecting_def)
  have ph: "phase s = PREPARING" using assms(1) Some by (simp add: collecting_def)
  have "collecting i p n s'" "ms = []" if "timeout_step s = Some (s', ms, res, ret)"
    using that by (auto simp: timeout_step_def collecting_def settle_def Let_def split: if_splits)
  moreover note prepare_step_counts [OF Some assms(1), of cf "the msg" s' ms res ret]
  ultimately show ?thesis
    using assms(2) Some ph more [of 0] more [of 1] by (cases msg) (auto simp: response_step_def split: if_splits)
qed

section \<open>A new proposer\<close>

lemma InstanceState_new_ok:
  assumes "(of_int n :: u64) \<noteq> 0"
  shows "\<exists>s. InstanceState_new junk now pid n = Some s \<and> (\<forall>i. is_ok i s) \<and> is_req s = None"
proof -
  obtain g where "IdGenByDate now 0xff 1 = Some g"
    using SetGreaterThan_total [of "\<lparr>ig_id = 1, ig_step = 1\<rparr>" "now AND 0xff"] by (auto simp: IdGenByDate_def)
  then show ?thesis using assms by (simp add: InstanceState_new_def is_ok_def)
qed

lemma those_map_Some:
  "\<forall>x \<in> set xs. \<exists>y. f x = Some y \<and> Q y \<Longrightarrow> \<exists>ys. those (map f xs) = Some ys \<and> length ys = length xs \<and> (\<forall>y \<in> set ys. Q y)"
  by (induction xs) auto

lemma CreateGroup_Some: "n = 3 \<or> n = 5 \<Longrightarrow> \<exists>k g. CreateGroup n = Some (k, g)"
  using PaxosGroup3_defined PaxosGroup5_defined by (auto simp: CreateGroup_def)

lemma all_idle_accounted:
  assumes "\<forall>s \<in> set (ps_states P). is_req s = None" and "ps_results P = []" and "ps_futures P = 0"
  shows "accounted P"
proof -
  have "filter (\<lambda>s. open_future s = Some f) (ps_states P) = []" for f
    using assms(1) by (auto simp: filter_empty_conv open_future_def)
  then show ?thesis using assms(2,3) by (simp add: accounted_def resolved_def pending_def)
qed

lemma Proposer_new_inv:
  assumes "2 \<le> unat (cf_timeout config)" and "unat (cf_timeout config) \<le> 4001"
    and "cf_total_proposer config = 3 \<or> cf_total_proposer config = 5" and "0 < unat (cf_plog_inst_num config)"
  shows "\<exists>P. Proposer_new junk now config = Some P \<and> ps_inv (Proposer_SetConnMng mng P) \<and>
    (\<forall>s \<in> set (ps_states P). is_req s = None) \<and> length (ps_states P) = unat (cf_plog_inst_num config)"
proof -
  let ?T = "cf_timeout config" and ?n = "sint (cf_total_proposer config)" and ?m = "unat (cf_plog_inst_num config)"
  have T1: "unat (?T - 1) = unat ?T - 1" using assms(1) by (simp add: unat_sub word_le_nat_alt)
  then have g: "sint (?T - 1) = int (unat ?T - 1)" using assms(2) by (simp add: sint_small)
  then have "0 < sint (?T - 1)" "sint (?T - 1) \<le> 4000" using assms(1,2) by linarith+
  from tw_inv_new [OF this] obtain tw :: "RpcKey TimingWheel" where
    tw: "TimingWheel_new (sint (?T - 1)) = Some tw" "tw_inv tw" "tw_granularity_ms tw = sint (?T - 1)" by blast
  have n: "?n = 3 \<or> ?n = 5" using assms(3) by auto
  obtain k gr where gr: "CreateGroup ?n = Some (k, gr)" using CreateGroup_Some [OF n] by blast
  let ?f = "\<lambda>i. InstanceState_new junk now (GetMemberIdBySvrId k gr (of_nat i) (sint (ai_id (cf_local config)))) ?n"
  have "(of_int ?n :: u64) \<noteq> 0" using assms(3) by auto
  then have "\<forall>i \<in> set [0..<?m]. \<exists>s. ?f i = Some s \<and> (\<forall>j. is_ok j s) \<and> is_req s = None"
    using InstanceState_new_ok by blast
  from those_map_Some [OF this] obtain sts where
    sts: "those (map ?f [0..<?m]) = Some sts" "length sts = ?m" "\<forall>s \<in> set sts. (\<forall>j. is_ok j s) \<and> is_req s = None"
    by auto
  let ?P = "\<lparr>ps_conn = None, ps_config = config, ps_states = sts, ps_timeout = tw\<lparr>tw_state := 1\<rparr>,
     ps_wpool = WorkerPool_StartWorker (unat (cf_proposer_worker_count config)) (cf_worker_msg_queue_sz config) WorkerPool_new,
     ps_sent = [], ps_results = [], ps_futures = 0\<rparr>"
  have "Proposer_new junk now config = Some ?P" using tw(1) gr sts(1) by (simp add: Proposer_new_def)
  moreover have "ps_inv (Proposer_SetConnMng mng ?P)"
  proof -
    have "accounted (Proposer_SetConnMng mng ?P)"
      using sts(3) by (intro all_idle_accounted) (simp_all add: Proposer_SetConnMng_def)
    moreover have "tw_rounded (?T * 2) (sint (?T - 1)) + length (tw_wheel tw) < 2 ^ 32"
    proof -
      have "unat (?T * 2) = unat ?T * 2" using assms(2) by (simp add: unat_word_ariths)
      moreover have "tw_rounded (?T * 2) (sint (?T - 1)) \<le> unat (?T * 2) + nat (sint (?T - 1)) - 1"
        by (simp add: tw_rounded_def)
      moreover have "length (tw_wheel tw) \<le> 4000" using tw(2) by (simp add: tw_inv_def)
      moreover have "nat (sint (?T - 1)) \<le> 4001" using g assms(2) by simp
      ultimately have "tw_rounded (?T * 2) (sint (?T - 1)) + length (tw_wheel tw) < 4294967296"
        using assms(2) by linarith
      then show ?thesis by simp
    qed
    ultimately show ?thesis
      using tw sts assms(4) unat_u32_less [of "cf_plog_inst_num config"]
      by (auto simp: ps_inv_def Proposer_SetConnMng_def ps_at_def split: if_splits simp del: unat_u32_less)
  qed
  ultimately show ?thesis using sts by auto
qed

end
