(* ===== verification/Example_Proposer.thy ===== *)
theory Example_Proposer
  imports Proposer_Inv Example_Node
begin

text \<open>
  A small concrete proposer, on which the properties of the proposer are run: server 1 of a group
  of three, with two log instances and connections 0, 1 and 2.
\<close>

definition example_proposer :: "nat Proposer" where
  "example_proposer = Proposer_SetConnMng \<lparr>cm_config = example_config, cm_conn = [0, 1, 2]\<rparr>
     (the (Proposer_new 0 5 example_config))"

lemma example_proposer_inv: "ps_inv example_proposer" "length (ps_states example_proposer) = 2"
  "\<forall>s \<in> set (ps_states example_proposer). is_req s = None"
proof -
  have "2 \<le> unat (cf_timeout example_config)" "unat (cf_timeout example_config) \<le> 4001"
    "cf_total_proposer example_config = 3 \<or> cf_total_proposer example_config = 5"
    "0 < unat (cf_plog_inst_num example_config)" "unat (cf_plog_inst_num example_config) = 2"
    by (simp_all add: example_config_def Configure_default_def)
  from Proposer_new_inv [OF this(1-4), of 0 5 "\<lparr>cm_config = example_config, cm_conn = [0 :: nat, 1, 2]\<rparr>"] this(5)
  show "ps_inv example_proposer" "length (ps_states example_proposer) = 2"
    "\<forall>s \<in> set (ps_states example_proposer). is_req s = None"
    unfolding example_proposer_def by (auto simp: Proposer_SetConnMng_def)
qed

text \<open>A response to the first request of instance 0.\<close>

definition example_rsp :: "PaxosMsgType \<Rightarrow> int \<Rightarrow> PaxosState \<Rightarrow> u64 \<Rightarrow> RpcResponseMsg" where
  "example_rsp t errcode status pid =
     \<lparr>rm_term = 0, rm_pinst = 0, rm_entry = 1, rm_msg = Some ((AllocProposalMsg 0)\<lparr>m_type := mt t, m_errcode := errcode,
        m_body := (AllocProposal 0)\<lparr>p_pid := pid, p_pentry := 1, p_value_id := 5, p_proposer := 1, p_status := st status\<rparr>\<rparr>)\<rparr>"

lemma rsp_fine_code [code]:
  "rsp_fine msg s = (case msg of None \<Rightarrow> True | Some rsp \<Rightarrow> (case is_req s of
      None \<Rightarrow> wf_PaxosMsg rsp
    | Some req \<Rightarrow> wf_PaxosMsg rsp \<and> (prepare_verdict req rsp = Granted \<longrightarrow>
        p_value_id (m_body rsp) \<noteq> p_value_id (m_body req) \<longrightarrow> p_size (m_body rsp) > 0)))"
  by (auto simp: rsp_fine_def split: option.splits)

lemma event_fine_code [code]:
  "event_fine (Propose opaque val pinst) P \<longleftrightarrow> int (length val) < 2 ^ 32"
  "event_fine (Respond m) P \<longleftrightarrow>
     (case ps_at P (rm_pinst m) of
        None \<Rightarrow> False
      | Some s \<Rightarrow> rsp_fine (rm_msg m) s \<and>
          (case rm_msg m of None \<Rightarrow> True | Some rsp \<Rightarrow> p_pinst (m_body rsp) = rm_pinst m))"
  "event_fine (Learn msg from_plog) P \<longleftrightarrow> True"
  by auto

definition example_run :: "proposer_event list \<Rightarrow> nat Proposer" where
  "example_run es = the (proposer_run es example_proposer)"

lemma example_idle: "ps_slot example_proposer 0 = Some 0"
  "ps_at example_proposer 0 = Some (ps_states example_proposer ! 0)" "is_req (ps_states example_proposer ! 0) = None"
  using example_proposer_inv(2,3) by (auto simp: ps_slot_def ps_at_def)

end
