(* ===== verification/Proposer_Properties.thy ===== *)
theory Proposer_Properties
  imports Example_Proposer Synod
begin

text \<open>
  When the proposer sends an accept request: alone, and together with the acceptors whose answers
  it counts.
\<close>

section \<open>Messages are only added\<close>

lemma sends_set_value: "Proposer_set_value i v P = Some P' \<Longrightarrow> ps_sent P' = ps_sent P"
  by (auto simp: Proposer_set_value_def ps_put_def split: if_splits Option.bind_splits)

lemma sends_setupWaitState: "Proposer_setupWaitState i k x p None P = Some P' \<Longrightarrow> ps_sent P' = ps_sent P"
  by (auto simp: Proposer_setupWaitState_def ps_put_def Let_def split: Option.bind_splits)

lemma sends_batch: "Proposer_doBatchRpcRequest m P = Some (P', r) \<Longrightarrow> \<exists>x. ps_sent P' = ps_sent P @ x"
  by (auto simp: Proposer_doBatchRpcRequest_def Let_def split: Option.bind_splits)

lemma sends_put [simp]: "ps_sent (ps_put i s P) = ps_sent P"
  by (simp add: ps_put_def)

lemma sends_prepare_out: "Proposer_prepare_out i r b f P = Some (P', x) \<Longrightarrow> ps_sent P' = ps_sent P"
  by (auto simp: Proposer_prepare_out_def Let_def dest!: sends_set_value split: if_splits Option.bind_splits)

lemma sends_accept_out: "Proposer_accept_out i r b P = Some (P', x) \<Longrightarrow> ps_sent P' = ps_sent P"
  by (auto simp: Proposer_accept_out_def Let_def dest!: sends_set_value split: if_splits Option.bind_splits)

lemma sends_last_vote: "Proposer_last_vote i rsp req P = Some (P', x) \<Longrightarrow> ps_sent P' = ps_sent P"
  by (auto simp: Proposer_last_vote_def Let_def split: if_splits Option.bind_splits)

lemma sends_start_accept: "Proposer_start_accept i rsp h P = Some (P', x) \<Longrightarrow> \<exists>y. ps_sent P' = ps_sent P @ y"
  by (auto simp: Proposer_start_accept_def Proposer_doAccept_def Let_def
      dest!: sends_batch sends_setupWaitState split: if_splits Option.bind_splits)

lemma sends_UpdateId: "Proposer_UpdatePrepareId i p P = Some P' \<Longrightarrow> ps_sent P' = ps_sent P"
  by (auto simp: Proposer_UpdatePrepareId_def split: Option.bind_splits)

lemma sends_prepare: "Proposer_handlePrepareRsp rsp P = Some (P', r) \<Longrightarrow> \<exists>y. ps_sent P' = ps_sent P @ y"
  by (auto simp: Proposer_handlePrepareRsp_def Let_def
      dest!: sends_prepare_out sends_last_vote sends_start_accept sends_UpdateId
      split: if_splits Option.bind_splits option.splits)

lemma sends_accept: "Proposer_handleAcceptRsp rsp P = Some (P', r) \<Longrightarrow> \<exists>y. ps_sent P' = ps_sent P @ y"
  by (auto simp: Proposer_handleAcceptRsp_def Proposer_doChosen_def Proposer_UpdateChosenInfo_def Let_def
      dest!: sends_accept_out sends_batch sends_UpdateId split: if_splits Option.bind_splits option.splits prod.splits)

lemma proposer_run_sends:
  "proposer_run (map Respond ms) P = Some P' \<Longrightarrow> \<exists>y. ps_sent P' = ps_sent P @ y"
proof (induction ms arbitrary: P)
  case (Cons m ms)
  then obtain P1 r where P1: "Proposer_handleRpcResponse m P = Some (P1, r)" "proposer_run (map Respond ms) P1 = Some P'"
    by (auto split: option.splits)
  then have "\<exists>y. ps_sent P1 = ps_sent P @ y"
    by (auto simp: Proposer_handleRpcResponse_def Let_def dest: sends_prepare sends_accept dest!: sends_set_value
        split: if_splits Option.bind_splits option.splits)
  with Cons.IH [OF P1(2)] show ?case by auto
qed simp

section \<open>Promises before accept requests\<close>

lemma responses_count:
  assumes "ps_at P i = Some s" and "collecting i p n s" and "length (ps_states P) < 2 ^ 64" and "ps_conn P \<noteq> None"
    and "\<forall>m \<in> set ms. rm_pinst m = i \<and> (\<forall>rsp. rm_msg m = Some rsp \<longrightarrow> p_pinst (m_body rsp) = i)"
    and "proposer_run (map Respond ms) P = Some P'"
    and "(c, a, k) \<in> set (drop (length (ps_sent P)) (ps_sent P'))" and "m_type a = mt kMsgType_ACCEPT_REQ"
  shows "unat (cf_total_acceptor (ps_config P) div 2 + 1) \<le> n + granted p ms"
  using assms
proof (induction ms arbitrary: P s n)
  case (Cons m ms)
  let ?cf = "ps_config P"
  have "\<forall>req. is_req s = Some req \<longrightarrow> p_pinst (m_body req) = i" using Cons.prems(2) by (simp add: collecting_def)
  then have h: "Proposer_handleRpcResponse m P = lift_step i P (response_step ?cf (rm_term m) (rm_msg m) s)"
    using Cons.prems(1,3-5) by (intro handleRpcResponse_step) simp_all
  then obtain s' out res ret where r: "response_step ?cf (rm_term m) (rm_msg m) s = Some (s', out, res, ret)"
    "proposer_run (map Respond ms) (ps_upd i s' (bcasts P out) res P) = Some P'"
    using Cons.prems(6) by (auto simp: lift_step_def split: option.splits)
  have g: "granted p (m # ms) = (case rm_msg m of None \<Rightarrow> 0 | Some rsp \<Rightarrow> if grants p rsp then 1 else 0) + granted p ms"
    by (auto simp: granted_def split: option.splits)
  from response_step_counts [OF Cons.prems(2) r(1)] show ?case
  proof
    assume c: "out = [] \<and> collecting i p (n + (case rm_msg m of None \<Rightarrow> 0 | Some rsp \<Rightarrow> if grants p rsp then 1 else 0)) s'"
    let ?P = "ps_upd i s' [] res P"
    have "ps_at ?P i = Some s'" using Cons.prems(1) by (simp add: ps_at_upd_same)
    from Cons.IH [OF this conjunct2 [OF c]] c r(2) Cons.prems(3-5,7,8) show ?thesis by (simp add: g add.assoc)
  next
    assume "(\<exists>rsp. rm_msg m = Some rsp \<and> grants p rsp) \<and> unat (cf_total_acceptor ?cf div 2 + 1) \<le> n + 1"
    then show ?thesis by (auto simp: g)
  qed
qed simp

lemma propose_collecting:
  assumes "ps_inv P" and "ps_slot P pinst = Some i" and "ps_at P i = Some s" and "is_req s = None"
    and "length val < 2 ^ 32" and "\<not> one_phase (ps_config P) i opaque val s"
  obtains P' s' where "proposer_step (Propose opaque val pinst) P = Some P'" "ps_at P' i = Some s'"
    "collecting i (p_pid (m_body (propose_msg (ps_config P) i opaque val s))) 0 s'"
    "ps_sent P' = ps_sent P @ bcast P (propose_sends (ps_config P) i opaque val s)" "ps_config P' = ps_config P"
    "ps_conn P' \<noteq> None" "length (ps_states P') < 2 ^ 64"
proof -
  obtain tw where tw: "TimingWheel_AddTimeout (is_term s) (cf_timeout (ps_config P) * 2)
      \<lparr>rk_pinst = i, rk_entry = is_last_chosen_entry s + 1, rk_term = is_term s\<rparr> (ps_timeout P) = Some (tw, True)"
    using TimingWheel_AddTimeout_due [of "ps_timeout P"] assms(1) unfolding ps_inv_def by blast
  have c: "ps_conn P \<noteq> None" "length (ps_states P) < 2 ^ 64" using assms(1) by (simp_all add: ps_inv_def)
  let ?s = "propose_state (ps_config P) i opaque val (ps_futures P) s"
  have "collecting i (p_pid (m_body (propose_msg (ps_config P) i opaque val s))) 0 ?s"
    using assms(6) by (simp add: collecting_def propose_state_def phase_def Let_def) (simp add: propose_msg_def Let_def)
  with ProposeAsync_idle [OF c(1) assms(2-5) tw, of opaque] c ps_at_range [OF assms(3)] show thesis
    by (intro that [of "(ps_upd i ?s (bcast P (propose_sends (ps_config P) i opaque val s)) []
      (P\<lparr>ps_futures := Suc (ps_futures P)\<rparr>))\<lparr>ps_timeout := tw\<rparr>" ?s]) (auto simp: ps_at_upd)
qed

lemma accept_after_promises:
  assumes "ps_inv P" and "ps_slot P pinst = Some i" and "ps_at P i = Some s" and "is_req s = None"
    and "length val < 2 ^ 32" and "\<not> one_phase (ps_config P) i opaque val s"
    and "\<forall>m \<in> set ms. rm_pinst m = i \<and> (\<forall>rsp. rm_msg m = Some rsp \<longrightarrow> p_pinst (m_body rsp) = i)"
    and "proposer_run (Propose opaque val pinst # map Respond ms) P = Some P'"
    and "(c, a, k) \<in> set (drop (length (ps_sent P)) (ps_sent P'))" and "m_type a = mt kMsgType_ACCEPT_REQ"
  shows "unat (cf_total_acceptor (ps_config P) div 2 + 1) \<le>
    granted (p_pid (m_body (propose_msg (ps_config P) i opaque val s))) ms"
proof -
  let ?p = "p_pid (m_body (propose_msg (ps_config P) i opaque val s))"
  obtain P1 s1 where P1: "proposer_step (Propose opaque val pinst) P = Some P1" "ps_at P1 i = Some s1"
    "collecting i ?p 0 s1" "ps_sent P1 = ps_sent P @ bcast P (propose_sends (ps_config P) i opaque val s)"
    "ps_config P1 = ps_config P" "ps_conn P1 \<noteq> None" "length (ps_states P1) < 2 ^ 64"
    by (rule propose_collecting [OF assms(1-6)])
  have run: "proposer_run (map Respond ms) P1 = Some P'" using assms(8) P1(1) by (simp del: proposer_step.simps)
  have "m_type (propose_sends (ps_config P) i opaque val s) = mt kMsgType_PREPARE_REQ"
    using assms(6) by (simp add: propose_sends_def propose_msg_def Let_def)
  then have "(c, a, k) \<notin> set (bcast P (propose_sends (ps_config P) i opaque val s))"
    using assms(10) by (auto simp: bcast_def split: option.splits)
  then have "(c, a, k) \<in> set (drop (length (ps_sent P1)) (ps_sent P'))"
    using assms(9) P1(4) proposer_run_sends [OF run] by auto
  from responses_count [OF P1(2,3,7,6) assms(7) run this assms(10)] P1(5) show ?thesis by simp
qed



lemma promised_id_bound:
  assumes "ac_inv S ac" and "wf_PaxosMsg msg" and "m_type msg = mt kMsgType_PREPARE_REQ"
    and "Acceptor_doHandleMsg S \<lparr>rq_cb = cb, rq_msg = msg\<rparr> ac = Some (ac', Some (cb', rsp))"
    and "p_status (m_body rsp) = st kPaxosState_PROMISED"
  shows "p_pid (m_body msg) \<le> p_pid (m_body rsp)" and "answer_promise msg rsp = Some (p_pid (m_body rsp))"
proof -
  show a: "answer_promise msg rsp = Some (p_pid (m_body rsp))" using assms(3,5) by (simp add: answer_promise_def)
  from handles_msg [OF assms(1,2), of cb] assms(4) a obtain w e where
    "entry_promise (w, msg) e = Some (p_pid (m_body rsp))"
    by (auto simp: handles_def handled_def Let_def split: if_splits)
  then show "p_pid (m_body msg) \<le> p_pid (m_body rsp)"
    using assms(3) by (auto simp: prepare_answer_def split: option.splits if_splits)
qed

text \<open>
  What the responses of a round are: \<open>a\<close> is the acceptor that gave the response, to a prepare
  request with id \<open>p\<close>, and the log has it.
\<close>

definition answered :: "'db plog_env \<Rightarrow> answer list \<Rightarrow> u64 \<Rightarrow> nat \<Rightarrow> PaxosMsg \<Rightarrow> bool" where
  "answered S log p a rsp \<longleftrightarrow> (\<exists>(ac :: ('db, nat) Acceptor) msg cb ac' cb'.
     ac_inv S ac \<and> wf_PaxosMsg msg \<and> m_type msg = mt kMsgType_PREPARE_REQ \<and> p_pid (m_body msg) = p \<and>
     Acceptor_doHandleMsg S \<lparr>rq_cb = cb, rq_msg = msg\<rparr> ac = Some (ac', Some (cb', rsp)) \<and> (a, msg, rsp) \<in> set log)"

text \<open>
  The proposer obeys the rule under which the group agrees. If the responses it counts are
  the answers of acceptors to its prepare request, at most one from each acceptor, then when it
  sends an accept request a majority of the acceptors has promised exactly its id.
\<close>

theorem proposer_obeys_accept_rule:
  assumes "ps_inv P" and "ps_slot P pinst = Some i" and "ps_at P i = Some s" and "is_req s = None"
    and "length val < 2 ^ 32" and "\<not> one_phase (ps_config P) i opaque val s"
    and "\<forall>m \<in> set (map snd ts). rm_pinst m = i \<and> (\<forall>rsp. rm_msg m = Some rsp \<longrightarrow> p_pinst (m_body rsp) = i)"
    and "proposer_run (Propose opaque val pinst # map (Respond \<circ> snd) ts) P = Some P'"
    and "(c, x, k) \<in> set (drop (length (ps_sent P)) (ps_sent P'))" and "m_type x = mt kMsgType_ACCEPT_REQ"
    and "p = p_pid (m_body (propose_msg (ps_config P) i opaque val s))"
    and "distinct (map fst ts)" and "\<forall>(a, m) \<in> set ts. a < unat (cf_total_acceptor (ps_config P)) \<and>
      (\<forall>rsp. rm_msg m = Some rsp \<longrightarrow> answered S log p a rsp)"
    and "cf_total_acceptor (ps_config P) < 2 ^ 31"
  shows "majority (unat (cf_total_acceptor (ps_config P))) (promisers log p)"
proof -
  let ?N = "unat (cf_total_acceptor (ps_config P))"
  let ?ok = "\<lambda>m. case rm_msg m of None \<Rightarrow> False | Some rsp \<Rightarrow> grants p rsp"
  let ?ts = "filter (\<lambda>t. ?ok (snd t)) ts"
  have "unat (cf_total_acceptor (ps_config P) div 2 + 1) = ?N div 2 + 1"
    using assms(14) by (subst unat_add_noover) (simp_all add: unat_div word_less_nat_alt)
  moreover have "proposer_run (Propose opaque val pinst # map Respond (map snd ts)) P = Some P'"
    using assms(8) by (simp add: comp_def del: proposer_run.simps)
  ultimately have "?N div 2 + 1 \<le> granted p (map snd ts)"
    using accept_after_promises [OF assms(1-7) _ assms(9,10)] assms(11) by simp
  also have "\<dots> = length ?ts" by (simp add: granted_def filter_map comp_def)
  also have "\<dots> = card (fst ` set ?ts)"
  proof -
    have "distinct (map fst ?ts)" using assms(12) by (simp add: distinct_map_filter)
    then show ?thesis by (metis distinct_card length_map set_map)
  qed
  also have "\<dots> \<le> card (promisers log p \<inter> {..<?N})"
  proof (rule card_mono)
    show "fst ` set ?ts \<subseteq> promisers log p \<inter> {..<?N}"
    proof clarify
      fix a m assume t: "(a, m) \<in> set ?ts"
      then obtain rsp where r: "rm_msg m = Some rsp" "grants p rsp" by (auto split: option.splits)
      with t assms(13) have "answered S log p a rsp" "a < ?N" by auto
      then obtain ac :: "('b, nat) Acceptor" and msg cb ac' cb' where
        h: "ac_inv S ac" "wf_PaxosMsg msg" "m_type msg = mt kMsgType_PREPARE_REQ" "p_pid (m_body msg) = p"
          "Acceptor_doHandleMsg S \<lparr>rq_cb = cb, rq_msg = msg\<rparr> ac = Some (ac', Some (cb', rsp))" "(a, msg, rsp) \<in> set log"
        by (auto simp: answered_def)
      from promised_id_bound [OF h(1-3,5)] r(2) h(4) have "answer_promise msg rsp = Some p" by (auto simp: grants_def)
      then have "a \<in> promisers log p" using h(6) by (force simp: promisers_def)
      with \<open>a < ?N\<close> show "fst (a, m) \<in> promisers log p \<inter> {..<?N}" by simp
    qed
  qed simp
  finally show ?thesis by (simp add: majority_def)
qed

text \<open>The prepare request of the concrete proposer, and what the concrete acceptor answers.\<close>

definition example_prepare :: PaxosMsg where
  "example_prepare = propose_sends example_config 0 7 [65] (ps_states example_proposer ! 0)"

definition example_answer :: PaxosMsg where
  "example_answer = snd (the (snd (the (Acceptor_doHandleMsg null_store
     \<lparr>rq_cb = None, rq_msg = example_prepare\<rparr> example_acceptor))))"

definition example_response :: RpcResponseMsg where
  "example_response = \<lparr>rm_term = 0, rm_pinst = 0, rm_entry = 1, rm_msg = Some example_answer\<rparr>"

lemma example_answered:
  "a < 2 \<Longrightarrow> answered null_store [(0, example_prepare, example_answer), (1, example_prepare, example_answer)]
     (p_pid (m_body example_prepare)) a example_answer"
proof -
  assume "a < 2"
  moreover have "Acceptor_doHandleMsg null_store \<lparr>rq_cb = None, rq_msg = example_prepare\<rparr> example_acceptor =
      Some (fst (the (Acceptor_doHandleMsg null_store \<lparr>rq_cb = None, rq_msg = example_prepare\<rparr> example_acceptor)),
        Some (None, example_answer))"
    "wf_PaxosMsg example_prepare" "m_type example_prepare = mt kMsgType_PREPARE_REQ"
    by code_simp+
  ultimately show ?thesis using ac_inv_example(1) unfolding answered_def by (fastforce simp: less_2_cases_iff)
qed

theorem proposer_obeys_accept_rule_witness:
  "majority (unat (cf_total_acceptor (ps_config example_proposer)))
     (promisers [(0, example_prepare, example_answer), (1, example_prepare, example_answer)]
       (p_pid (m_body (propose_msg (ps_config example_proposer) 0 7 [65] (ps_states example_proposer ! 0)))))"
proof (rule proposer_obeys_accept_rule [OF example_proposer_inv(1) example_idle, where val = "[65]" and S = null_store
    and ts = "[(0, example_response), (1, example_response)]"])
  let ?es = "Propose 7 [65] 0 # map (Respond \<circ> snd) [(0 :: nat, example_response), (1, example_response)]"
  let ?m = "ps_sent (example_run ?es) ! 3"
  show "proposer_run ?es example_proposer = Some (example_run ?es)" by code_simp
  show "(fst ?m, fst (snd ?m), snd (snd ?m)) \<in> set (drop (length (ps_sent example_proposer)) (ps_sent (example_run ?es)))"
    by code_simp
  show "m_type (fst (snd ?m)) = mt kMsgType_ACCEPT_REQ" by code_simp
  show "\<not> one_phase (ps_config example_proposer) 0 7 [65] (ps_states example_proposer ! 0)" by code_simp
  have "p_pinst (m_body example_answer) = 0" by code_simp
  then show "\<forall>m \<in> set (map snd [(0, example_response), (1, example_response)]).
      rm_pinst m = 0 \<and> (\<forall>rsp. rm_msg m = Some rsp \<longrightarrow> p_pinst (m_body rsp) = 0)"
    by (simp add: example_response_def)
  have "p_pid (m_body (propose_msg (ps_config example_proposer) 0 7 [65] (ps_states example_proposer ! 0))) =
      p_pid (m_body example_prepare)" "unat (cf_total_acceptor (ps_config example_proposer)) = 3" by code_simp+
  with example_answered show "\<forall>(a, m) \<in> set [(0, example_response), (1, example_response)].
      a < unat (cf_total_acceptor (ps_config example_proposer)) \<and> (\<forall>rsp. rm_msg m = Some rsp \<longrightarrow>
        answered null_store [(0, example_prepare, example_answer), (1, example_prepare, example_answer)]
          (p_pid (m_body (propose_msg (ps_config example_proposer) 0 7 [65] (ps_states example_proposer ! 0)))) a rsp)"
    by (simp add: example_response_def)
  show "cf_total_acceptor (ps_config example_proposer) < 2 ^ 31" by code_simp
qed simp_all

end
