(* ===== verification/Proposer_Clients.thy ===== *)
theory Proposer_Clients
  imports Example_Proposer
begin

text \<open>
  What the clients of the proposer are told, and when: every future gets one value, a timeout
  always ends a proposal, a majority of votes makes it succeed, and two situations in which the answer
  is wrong or goes to the wrong instance.
\<close>

section \<open>Every future once\<close>




section \<open>Timeouts\<close>

text \<open>
  C15: A timeout ends the proposal it belongs to. When the notification of the current term is
  processed, the instance becomes idle, a client still waiting is told \<open>TIMEOUT\<close> and no one else
  is told anything, and no other instance changes.
\<close>

theorem timeout_ends_proposal:
  assumes "ps_inv P" and "ps_at P i = Some s" and "is_req s \<noteq> None"
  shows "\<exists>P' s'. Proposer_handleRpcResponse \<lparr>rm_term = is_term s - 1, rm_pinst = i, rm_entry = k, rm_msg = None\<rparr> P =
      Some (P', err kErrCode_OK) \<and> ps_at P' i = Some s' \<and> is_req s' = None \<and>
    ps_results P' = ps_results P @ (case open_future s of None \<Rightarrow> [] | Some f \<Rightarrow> [(Some f, err kErrCode_TIMEOUT)]) \<and>
    ps_sent P' = ps_sent P \<and> (\<forall>j. j \<noteq> i \<longrightarrow> ps_at P' j = ps_at P j)"
proof -
  let ?m = "\<lparr>rm_term = is_term s - 1, rm_pinst = i, rm_entry = k, rm_msg = None\<rparr>"
  obtain req where req: "is_req s = Some req" using assms(3) by blast
  have ok: "is_ok i s" using assms(1,2) by (simp add: ps_inv_def)
  have "Proposer_handleRpcResponse ?m P = lift_step i P (response_step (ps_config P) (is_term s - 1) None s)"
    using handleRpcResponse_step [OF assms(2), of ?m] assms(1) ok by (simp add: ps_inv_def is_ok_def)
  also have "response_step (ps_config P) (is_term s - 1) None s = timeout_step s"
    using req by (simp add: response_step_def)
  finally have h: "Proposer_handleRpcResponse ?m P = lift_step i P (timeout_step s)" .
  have "\<exists>s' res. timeout_step s = Some (s', [], res, err kErrCode_OK) \<and> is_req s' = None \<and>
      res = (case open_future s of None \<Rightarrow> [] | Some f \<Rightarrow> [(Some f, err kErrCode_TIMEOUT)])"
    using ok req by (auto simp: timeout_step_def settle_def open_future_def is_ok_def Let_def)
  then obtain s' res where t: "timeout_step s = Some (s', [], res, err kErrCode_OK)" "is_req s' = None"
    "res = (case open_future s of None \<Rightarrow> [] | Some f \<Rightarrow> [(Some f, err kErrCode_TIMEOUT)])" by blast
  show ?thesis
    using h t ps_at_range [OF assms(2)]
    by (intro exI [of _ "ps_upd i s' [] res P"] exI [of _ s']) (simp add: ps_at_upd)
qed

theorem timeout_ends_proposal_witness:
  "\<exists>P' s'. Proposer_handleRpcResponse \<lparr>rm_term = is_term (ps_states (example_run [Propose 7 [65] 0]) ! 0) - 1,
        rm_pinst = 0, rm_entry = 1, rm_msg = None\<rparr> (example_run [Propose 7 [65] 0]) = Some (P', err kErrCode_OK) \<and>
    ps_at P' 0 = Some s' \<and> is_req s' = None \<and>
    ps_results P' = ps_results (example_run [Propose 7 [65] 0]) @
      (case open_future (ps_states (example_run [Propose 7 [65] 0]) ! 0) of None \<Rightarrow> []
       | Some f \<Rightarrow> [(Some f, err kErrCode_TIMEOUT)]) \<and>
    ps_sent P' = ps_sent (example_run [Propose 7 [65] 0]) \<and>
    (\<forall>j. j \<noteq> 0 \<longrightarrow> ps_at P' j = ps_at (example_run [Propose 7 [65] 0]) j)"
proof (rule timeout_ends_proposal)
  have "events_fine [Propose 7 [65] 0] example_proposer" by code_simp
  then show "ps_inv (example_run [Propose 7 [65] 0])"
    using proposer_run_inv [OF example_proposer_inv(1), of "[Propose 7 [65] 0]"] by (auto simp: example_run_def)
  show "ps_at (example_run [Propose 7 [65] 0]) 0 = Some (ps_states (example_run [Propose 7 [65] 0]) ! 0)" by code_simp
  show "is_req (ps_states (example_run [Propose 7 [65] 0]) ! 0) \<noteq> None" by code_simp
qed

section \<open>Votes\<close>

text \<open>A response with the current term that votes for the request.\<close>

definition votes_for :: "u64 \<Rightarrow> u64 \<Rightarrow> PaxosMsg \<Rightarrow> RpcResponseMsg \<Rightarrow> bool" where
  "votes_for i t req m \<longleftrightarrow> rm_pinst m = i \<and> rm_term m = t \<and>
     (case rm_msg m of None \<Rightarrow> False | Some rsp \<Rightarrow> p_pinst (m_body rsp) = i \<and> accept_verdict req rsp = Voted)"

lemma verdict_meta [simp]: "accept_verdict (with_meta rsp req) rsp' = accept_verdict req rsp'"
  by (simp add: accept_verdict_def)

lemma votes_for_meta [simp]: "votes_for i t (with_meta rsp req) m = votes_for i t req m"
  by (simp add: votes_for_def split: option.split)

text \<open>An accept phase that has got \<open>k\<close> responses, all votes.\<close>

definition polling :: "u64 \<Rightarrow> PaxosMsg \<Rightarrow> nat \<Rightarrow> InstanceState \<Rightarrow> bool" where
  "polling i req k s \<longleftrightarrow> is_req s = Some req \<and> p_pinst (m_body req) = i \<and> phase s = ACCEPTING \<and> \<not> notified s \<and>
     \<not> pr_set (is_ret s) \<and> unat (is_rsp_count s) = k \<and> unat (is_valid_rsp_count s) = k"

lemma unat_next_u8: "Suc (unat x) < 256 \<Longrightarrow> unat (x + 1) = Suc (unat x)" for x :: u8
  by (simp add: unat_word_ariths)

lemma ucast_proposer [simp]: "ucast (ucast x :: u64) = (ucast x :: u32)" for x :: u16
  by (rule bit_word_eqI) (auto simp: bit_unsigned_iff)

lemma vote_step:
  assumes "polling i req k s" and "accept_verdict req rsp = Voted" and "k < unat (cf_total_acceptor cf) div 2 + 1"
    and "unat (cf_total_acceptor cf) < 256"
  shows "if Suc k = unat (cf_total_acceptor cf) div 2 + 1
    then \<exists>s'. accept_step cf rsp req s = Some (s', [Proposer_chosen_msg cf rsp], [(pr_future (is_ret s), err kErrCode_OK)], err kErrCode_OK) \<and>
      is_req s' = None \<and> is_term s' = is_term s \<and> (p_pentry (m_body rsp) \<notin> {0, npos} \<and> is_last_chosen_entry s \<le> p_pentry (m_body rsp) \<longrightarrow>
        is_last_chosen_entry s' = p_pentry (m_body rsp) \<and> is_last_chosen_from s' = ucast (p_proposer (m_body rsp)))
    else \<exists>s'. accept_step cf rsp req s = Some (s', [], [], err kErrCode_OK) \<and> polling i (with_meta rsp req) (Suc k) s' \<and>
      is_term s' = is_term s \<and> is_ret s' = is_ret s \<and> is_last_chosen_entry s' = is_last_chosen_entry s"
proof -
  let ?N = "unat (cf_total_acceptor cf)"
  have k: "Suc k < 256" using assms(3,4) by linarith
  have cnt: "unat (is_rsp_count s + 1) = Suc k" "unat (is_valid_rsp_count s + 1) = Suc k"
    using assms(1) k by (simp_all add: polling_def unat_next_u8)
  have maj: "unat (cf_total_acceptor cf div 2 + 1) = ?N div 2 + 1"
    using assms(4) by (subst unat_add_noover) (simp_all add: unat_div)
  have enough: "cf_total_acceptor cf div 2 + 1 \<le> ucast (is_valid_rsp_count s + 1) \<longleftrightarrow> Suc k = ?N div 2 + 1"
    using assms(3) unfolding word_le_nat_alt maj unat_ucast_u8 cnt(2) by linarith
  have fin: "ucast (is_rsp_count s + 1) \<noteq> cf_total_acceptor cf" if "Suc k \<noteq> ?N div 2 + 1"
  proof
    assume "ucast (is_rsp_count s + 1) = cf_total_acceptor cf"
    then have "?N = Suc k" using cnt(1) unat_ucast_u8 by metis
    with that assms(3) show False by linarith
  qed
  have "m_errcode rsp = err kErrCode_OK" using assms(2) by (simp add: accept_verdict_def split: if_splits)
  with assms(1,2) enough fin cnt show ?thesis
    by (auto simp: accept_step_def accept_out_step_def settle_def polling_def Let_def
        InstanceState_UpdateChosenInfo_def not_less[symmetric])
qed

lemma votes_run:
  assumes "ps_at P i = Some s" and "polling i req k s" and "ps_conn P \<noteq> None" and "length (ps_states P) < 2 ^ 64"
    and "\<forall>m \<in> set ms. votes_for i (is_term s - 1) req m" and "unat (cf_total_acceptor (ps_config P)) < 256"
    and "k + length ms = unat (cf_total_acceptor (ps_config P)) div 2 + 1" and "ms \<noteq> []"
  shows "\<exists>P' s' rsp. proposer_run (map Respond ms) P = Some P' \<and> rm_msg (last ms) = Some rsp \<and>
    ps_results P' = ps_results P @ [(pr_future (is_ret s), err kErrCode_OK)] \<and>
    ps_sent P' = ps_sent P @ bcast P (Proposer_chosen_msg (ps_config P) rsp) \<and> ps_at P' i = Some s' \<and> is_req s' = None \<and>
    (p_pentry (m_body rsp) \<notin> {0, npos} \<and> is_last_chosen_entry s \<le> p_pentry (m_body rsp) \<longrightarrow>
       is_last_chosen_entry s' = p_pentry (m_body rsp) \<and> is_last_chosen_from s' = ucast (p_proposer (m_body rsp)))"
  using assms
proof (induction ms arbitrary: P s req k)
  case (Cons m ms)
  let ?cf = "ps_config P" let ?N = "unat (cf_total_acceptor ?cf)"
  from Cons.prems(5) obtain rsp where m: "rm_pinst m = i" "rm_term m = is_term s - 1" "rm_msg m = Some rsp"
    "p_pinst (m_body rsp) = i" "accept_verdict req rsp = Voted"
    by (auto simp: votes_for_def split: option.splits)
  have p: "is_req s = Some req" "p_pinst (m_body req) = i" "phase s = ACCEPTING"
    using Cons.prems(2) by (simp_all add: polling_def)
  have h: "Proposer_handleRpcResponse m P = lift_step i P (accept_step ?cf rsp req s)"
    using handleRpcResponse_step [OF Cons.prems(1,4) m(1) Cons.prems(3)] m(2-4) p by (simp add: response_step_def)
  have k: "k < ?N div 2 + 1" using Cons.prems(7) by simp
  note step = vote_step [OF Cons.prems(2) m(5) k Cons.prems(6)]
  show ?case
  proof (cases "Suc k = ?N div 2 + 1")
    case True
    then have ms: "ms = []" using Cons.prems(7) by simp
    show ?thesis using step True h ms m(3) ps_at_upd_same [OF Cons.prems(1)] by auto
  next
    case False
    then have ne: "ms \<noteq> []" using Cons.prems(7) by auto
    from step False obtain s1 where s1: "accept_step ?cf rsp req s = Some (s1, [], [], err kErrCode_OK)"
      "polling i (with_meta rsp req) (Suc k) s1" "is_term s1 = is_term s" "is_ret s1 = is_ret s"
      "is_last_chosen_entry s1 = is_last_chosen_entry s" by auto
    have "ps_at (ps_upd i s1 [] [] P) i = Some s1" using Cons.prems(1) by (rule ps_at_upd_same)
    moreover have "bcast (ps_upd i s1 [] [] P) = bcast P" by (simp add: bcast_def fun_eq_iff)
    ultimately show ?thesis
      using Cons.IH [of "ps_upd i s1 [] [] P" s1 "with_meta rsp req" "Suc k"] s1 h Cons.prems(3-7) ne by auto
  qed
qed simp

text \<open>
  C14: A majority of votes makes the proposal succeed. If the accept phase receives as many
  responses as make a majority and all of them are votes for the request, then the client is told
  success, exactly one chosen message is broadcast, the instance is idle again and, unless the entry is
  stale, has recorded it as chosen with the proposer of the vote.
\<close>

theorem majority_of_votes_chooses:
  assumes "ps_inv P" and "ps_at P i = Some s" and "is_req s = Some req" and "phase s = ACCEPTING" and "\<not> notified s"
    and "is_rsp_count s = 0" and "is_valid_rsp_count s = 0" and "unat (cf_total_acceptor (ps_config P)) < 256"
    and "\<forall>m \<in> set ms. votes_for i (is_term s - 1) req m"
    and "length ms = unat (cf_total_acceptor (ps_config P)) div 2 + 1"
  shows "\<exists>P' s' rsp. proposer_run (map Respond ms) P = Some P' \<and> rm_msg (last ms) = Some rsp \<and>
    ps_results P' = ps_results P @ [(pr_future (is_ret s), err kErrCode_OK)] \<and>
    ps_sent P' = ps_sent P @ bcast P (Proposer_chosen_msg (ps_config P) rsp) \<and> ps_at P' i = Some s' \<and> is_req s' = None \<and>
    (p_pentry (m_body rsp) \<notin> {0, npos} \<and> is_last_chosen_entry s \<le> p_pentry (m_body rsp) \<longrightarrow>
       is_last_chosen_entry s' = p_pentry (m_body rsp) \<and> is_last_chosen_from s' = ucast (p_proposer (m_body rsp)))"
proof -
  have "is_ok i s" using assms(1,2) by (simp add: ps_inv_def)
  then have "polling i req 0 s" using assms(3-7) by (simp add: polling_def is_ok_def)
  from votes_run [OF assms(2) this _ _ assms(9,8)] show ?thesis
    using assms(1,10) by (cases "ms = []") (auto simp: ps_inv_def)
qed

definition example_accepting :: "nat Proposer" where
  "example_accepting = example_run [Propose 7 [65] 0,
     Respond (example_rsp kMsgType_PREPARE_RSP 0 kPaxosState_PROMISED 2),
     Respond (example_rsp kMsgType_PREPARE_RSP 0 kPaxosState_PROMISED 2)]"

lemma example_run_inv: "events_fine es example_proposer \<Longrightarrow> ps_inv (example_run es)"
  using proposer_run_inv [OF example_proposer_inv(1), of es] by (auto simp: example_run_def)

theorem majority_of_votes_chooses_witness:
  "\<exists>P' s' rsp. proposer_run (map Respond [example_rsp kMsgType_ACCEPT_RSP 0 kPaxosState_ACCEPTED 2,
        example_rsp kMsgType_ACCEPT_RSP 0 kPaxosState_ACCEPTED 2]) example_accepting = Some P' \<and>
    rm_msg (last [example_rsp kMsgType_ACCEPT_RSP 0 kPaxosState_ACCEPTED 2,
        example_rsp kMsgType_ACCEPT_RSP 0 kPaxosState_ACCEPTED 2]) = Some rsp \<and>
    ps_results P' = ps_results example_accepting @ [(pr_future (is_ret (ps_states example_accepting ! 0)), err kErrCode_OK)] \<and>
    ps_sent P' = ps_sent example_accepting @ bcast example_accepting (Proposer_chosen_msg (ps_config example_accepting) rsp) \<and>
    ps_at P' 0 = Some s' \<and> is_req s' = None \<and>
    (p_pentry (m_body rsp) \<notin> {0, npos} \<and> is_last_chosen_entry (ps_states example_accepting ! 0) \<le> p_pentry (m_body rsp) \<longrightarrow>
       is_last_chosen_entry s' = p_pentry (m_body rsp) \<and> is_last_chosen_from s' = ucast (p_proposer (m_body rsp)))"
proof (rule majority_of_votes_chooses)
  show "ps_inv example_accepting" unfolding example_accepting_def by (rule example_run_inv) code_simp
  show "ps_at example_accepting 0 = Some (ps_states example_accepting ! 0)" by code_simp
  show "is_req (ps_states example_accepting ! 0) = Some (the (is_req (ps_states example_accepting ! 0)))" by code_simp
  show "\<forall>m \<in> set [example_rsp kMsgType_ACCEPT_RSP 0 kPaxosState_ACCEPTED 2, example_rsp kMsgType_ACCEPT_RSP 0 kPaxosState_ACCEPTED 2].
      votes_for 0 (is_term (ps_states example_accepting ! 0) - 1) (the (is_req (ps_states example_accepting ! 0))) m"
    by code_simp
qed code_simp+

section \<open>Wrong answers\<close>

text \<open>
  C16: A proposal that has failed can be reported as a success. If the last of all acceptors to
  answer the prepare request promises, but too few others have, the client is told success
  (\<open>kErrCode_OK\<close>) although no accept request is sent.
\<close>

theorem failed_prepare_reports_success:
  assumes "ps_inv P" and "ps_at P i = Some s" and "is_req s = Some req" and "phase s = PREPARING" and "\<not> notified s"
    and "ucast (is_rsp_count s + 1) = cf_total_acceptor (ps_config P)"
    and "ucast (is_valid_rsp_count s + 1) < cf_total_acceptor (ps_config P) div 2 + 1"
    and "grants (p_pid (m_body req)) rsp" and "p_pinst (m_body rsp) = i" and "p_value_id (m_body rsp) = p_value_id (m_body req)"
  shows "\<exists>P'. Proposer_handleRpcResponse \<lparr>rm_term = is_term s - 1, rm_pinst = i, rm_entry = k, rm_msg = Some rsp\<rparr> P =
      Some (P', err kErrCode_OK) \<and>
    ps_results P' = ps_results P @ [(pr_future (is_ret s), err kErrCode_OK)] \<and> ps_sent P' = ps_sent P"
proof -
  let ?m = "\<lparr>rm_term = is_term s - 1, rm_pinst = i, rm_entry = k, rm_msg = Some rsp\<rparr>" and ?cf = "ps_config P"
  have ok: "is_ok i s" using assms(1,2) by (simp add: ps_inv_def)
  have "Proposer_handleRpcResponse ?m P = lift_step i P (response_step ?cf (is_term s - 1) (Some rsp) s)"
    using handleRpcResponse_step [OF assms(2), of ?m] assms(1,9) ok by (simp add: ps_inv_def is_ok_def)
  also have "response_step ?cf (is_term s - 1) (Some rsp) s = prepare_step ?cf rsp req s"
    using assms(3,4) by (simp add: response_step_def)
  finally have "Proposer_handleRpcResponse ?m P = lift_step i P (prepare_step ?cf rsp req s)" .
  moreover have "\<exists>s'. prepare_step ?cf rsp req s = Some (s', [], [(pr_future (is_ret s), err kErrCode_OK)], err kErrCode_OK)"
  proof -
    have "prepare_verdict req rsp = Granted" "m_errcode rsp = err kErrCode_OK"
      using assms(8) prepare_verdict_grants by (auto simp: grants_def)
    then show ?thesis
      using assms(3,5-7,10) ok
      by (auto simp: prepare_step_def last_vote_step_def prepare_out_step_def settle_def Let_def is_ok_def)
  qed
  ultimately show ?thesis by auto
qed

definition example_refused :: "nat Proposer" where
  "example_refused = example_run [Propose 7 [65] 0,
     Respond (example_rsp kMsgType_PREPARE_RSP 0 kPaxosState_ACCEPTED 1),
     Respond (example_rsp kMsgType_PREPARE_RSP 0 kPaxosState_ACCEPTED 1)]"

definition example_promise :: PaxosMsg where
  "example_promise = the (rm_msg (example_rsp kMsgType_PREPARE_RSP 0 kPaxosState_PROMISED 2))"

theorem failed_prepare_reports_success_witness:
  "\<exists>P'. Proposer_handleRpcResponse \<lparr>rm_term = is_term (ps_states example_refused ! 0) - 1, rm_pinst = 0, rm_entry = 1,
      rm_msg = Some example_promise\<rparr> example_refused = Some (P', err kErrCode_OK) \<and>
    ps_results P' = ps_results example_refused @ [(pr_future (is_ret (ps_states example_refused ! 0)), err kErrCode_OK)] \<and>
    ps_sent P' = ps_sent example_refused"
proof (rule failed_prepare_reports_success)
  show "ps_inv example_refused" unfolding example_refused_def by (rule example_run_inv) code_simp
  show "ps_at example_refused 0 = Some (ps_states example_refused ! 0)" by code_simp
  show "is_req (ps_states example_refused ! 0) = Some (the (is_req (ps_states example_refused ! 0)))" by code_simp
qed code_simp+

end
