(* ===== verification/Runtime_Properties.thy ===== *)
theory Runtime_Properties
  imports Example_Proposer
begin

text \<open>
  Properties of what runs around the protocol: the timer, the connections, and how the proposer
  uses them.
\<close>

section \<open>The timer\<close>

text \<open>
  C28: A timer fires exactly once, in the right order, and on time if it is short enough. A
  timeout added to the wheel fires in the tick whose number is the timeout in ticks, rounded up,
  modulo the number of slots, after everything already due in that tick, and in no other tick; the
  other timers are not affected. Timeouts of at least 4 seconds therefore fire early.
\<close>

theorem timer_fires_once:
  assumes "tw_inv tw" and "tw_rounded t (tw_granularity_ms tw) + length (tw_wheel tw) < 2 ^ 32"
  shows "\<exists>tw' L L'. TimingWheel_AddTimeout opaque t n tw = Some (tw', True) \<and>
    TimingWheel_fired m tw = Some L \<and> TimingWheel_fired m tw' = Some L' \<and> length L = m \<and> length L' = m \<and>
    (\<forall>j < m. L' ! j = L ! j @
      (if j = tw_rounded t (tw_granularity_ms tw) mod length (tw_wheel tw) then [(opaque, n)] else []))"
proof -
  obtain tw' where "TimingWheel_AddTimeout opaque t n tw = Some (tw', True)" "tw_inv tw'"
    "\<forall>j. tw_due j tw' = tw_due j tw @
      (if j = tw_rounded t (tw_granularity_ms tw) mod length (tw_wheel tw) then [(opaque, n)] else [])"
    using TimingWheel_AddTimeout_due [OF assms, of opaque n] by blast
  then show ?thesis using TimingWheel_fired_due [OF assms(1), of m] TimingWheel_fired_due [of tw' m] by simp
qed

definition example_wheel :: "nat TimingWheel" where
  "example_wheel = the (TimingWheel_new 19)"

lemma example_wheel_inv: "tw_inv example_wheel" "length (tw_wheel example_wheel) = 210"
  "tw_granularity_ms example_wheel = 19" "tw_state example_wheel = 0"
  using tw_inv_new [of 19] by (auto simp: example_wheel_def TimingWheel_new_def)

theorem timer_fires_once_witness:
  "\<exists>tw' L L'. TimingWheel_AddTimeout 7 40 (1 :: nat) example_wheel = Some (tw', True) \<and>
    TimingWheel_fired 5 example_wheel = Some L \<and> TimingWheel_fired 5 tw' = Some L' \<and> length L = 5 \<and> length L' = 5 \<and>
    (\<forall>j < 5. L' ! j = L ! j @
      (if j = tw_rounded 40 (tw_granularity_ms example_wheel) mod length (tw_wheel example_wheel) then [(7, 1)] else []))"
  by (rule timer_fires_once) (simp_all add: example_wheel_inv tw_rounded_def)



section \<open>Connections\<close>

text \<open>
  C26: A response reaches the callback of its request, once. After a request has been written, the
  first message with its request id calls its callback; a second one finds no request and throws,
  since no handler of incoming requests is ever set. If the write fails, no message calls the callback.
\<close>

theorem rpc_answered_once:
  assumes "rc_inv c" and "rc_onReq c = None"
    and "RemoteConn_DoRpcRequest DoWrite req (h, net, c) = ((h', net', c'), ret)"
    and "m_reqid (h2 q) = IdGen_Get (rc_reqid c)"
  shows "if ret = err kErrCode_OK
    then \<exists>c2. RemoteConn_HandleRecv h2 q c' = Some (c2, CallBack (rd_cb req) q) \<and> RemoteConn_HandleRecv h2 q c2 = None
    else RemoteConn_HandleRecv h2 q c' = None"
proof -
  note d = RemoteConn_DoRpcRequest_pending [OF assms(1,3)]
  show ?thesis
  proof (cases "ret = err kErrCode_OK")
    case True
    then have "rc_pending c' (m_reqid (h2 q)) = Some req" using d(5) assms(4) by simp
    from RemoteConn_HandleRecv_some [of c' h2 q req, OF d(1) this] obtain c2 where
      "RemoteConn_HandleRecv h2 q c' = Some (c2, CallBack (rd_cb req) q)" "rc_inv c2" "rc_onReq c2 = rc_onReq c'"
      "rc_pending c2 (m_reqid (h2 q)) = None" by auto
    then show ?thesis using True RemoteConn_HandleRecv_none [of c2 h2 q] d(4) assms(2) by auto
  next
    case False
    then have "rc_pending c' (m_reqid (h2 q)) = None" using d(6) assms(4) by simp
    then show ?thesis using False RemoteConn_HandleRecv_none [of c' h2 q, OF d(1)] d(4) assms(2) by simp
  qed
qed

definition example_conn :: "u64 \<Rightarrow> (string, unit) RemoteConn" where
  "example_conn now = the (RemoteConn_new now 100 \<lparr>ai_id = 2, ai_type = 1, ai_addr = ''b''\<rparr>)"

definition write_all :: "unit do_write" where
  "write_all p h net = (net, err kErrCode_OK)"

definition example_req :: "string RpcReqData" where
  "example_req = \<lparr>rd_timeout_ms = 20, rd_cb = ''cb'', rd_data = 3\<rparr>"

lemma example_conn_inv: "rc_inv (example_conn now)" "rc_onReq (example_conn now) = None"
  "rc_pending (example_conn now) = Map.empty"
proof -
  obtain c :: "(string, unit) RemoteConn" where
    "RemoteConn_new now 100 \<lparr>ai_id = 2, ai_type = 1, ai_addr = ''b''\<rparr> = Some c" "rc_inv c" "rc_onReq c = None"
    "rc_pending c = Map.empty"
    using RemoteConn_new_inv [of 100 now] by fastforce
  then show "rc_inv (example_conn now)" "rc_onReq (example_conn now) = None" "rc_pending (example_conn now) = Map.empty"
    by (simp_all add: example_conn_def)
qed

lemma example_req_simps: "rd_data example_req = 3" "rd_cb example_req = ''cb''"
  by (simp_all add: example_req_def)

theorem rpc_answered_once_witness:
  "let ((h, net, c), ret) = RemoteConn_DoRpcRequest write_all example_req (\<lambda>_. AllocProposalMsg 0, (), example_conn 5)
   in if ret = err kErrCode_OK
      then \<exists>c2. RemoteConn_HandleRecv h 3 c = Some (c2, CallBack ''cb'' 3) \<and> RemoteConn_HandleRecv h 3 c2 = None
      else RemoteConn_HandleRecv h 3 c = None"
proof -
  obtain h net c ret where d: "RemoteConn_DoRpcRequest write_all example_req (\<lambda>_. AllocProposalMsg 0, (), example_conn 5) =
    ((h, net, c), ret)" by (metis surj_pair)
  have "m_reqid (h 3) = IdGen_Get (rc_reqid (example_conn 5))"
    using RemoteConn_DoRpcRequest_pending(2) [OF example_conn_inv(1) d] by (simp add: set_reqid_def example_req_simps)
  from rpc_answered_once [of "example_conn 5", OF example_conn_inv(1,2) d, of h 3, OF this] show ?thesis
    unfolding d example_req_simps by simp
qed

text \<open>
  C27: Sending one message over two connections can lose the answer of the first. Both write
  their request id into the shared message. If their next ids differ and the first connection has no
  request pending under the second's id, an answer that echoes the message's request id finds no request at the
  first connection: it throws instead of calling the callback.
\<close>

theorem shared_message_loses_answer:
  assumes "rc_inv c1" and "rc_inv c2" and "rc_onReq c1 = None"
    and "IdGen_Get (rc_reqid c1) \<noteq> IdGen_Get (rc_reqid c2)" and "rc_pending c1 (IdGen_Get (rc_reqid c2)) = None"
    and "RemoteConn_DoRpcRequest DoWrite req (h, net, c1) = ((h1, net1, c1'), ret1)"
    and "RemoteConn_DoRpcRequest DoWrite req (h1, net1, c2) = ((h2, net2, c2'), ret2)"
    and "m_reqid (h3 q) = m_reqid (h2 (rd_data req))"
  shows "RemoteConn_HandleRecv h3 q c1' = None"
proof -
  note d1 = RemoteConn_DoRpcRequest_pending [OF assms(1,6)]
  note d2 = RemoteConn_DoRpcRequest_pending [OF assms(2,7)]
  have "m_reqid (h3 q) = IdGen_Get (rc_reqid c2)" using assms(8) d2(2) by (simp add: set_reqid_def)
  moreover have "rc_pending c1' (IdGen_Get (rc_reqid c2)) = None"
    using d1(7) [of "IdGen_Get (rc_reqid c2)"] assms(4,5) by metis
  ultimately show ?thesis using RemoteConn_HandleRecv_none [of c1' h3 q, OF d1(1)] d1(4) assms(3) by simp
qed

theorem shared_message_loses_answer_witness:
  "let ((h1, n1, c1), r1) = RemoteConn_DoRpcRequest write_all example_req (\<lambda>_. AllocProposalMsg 0, (), example_conn 5);
       ((h2, n2, c2), r2) = RemoteConn_DoRpcRequest write_all example_req (h1, n1, example_conn 6)
   in RemoteConn_HandleRecv h2 3 c1 = None"
proof -
  obtain h1 n1 c1 r1 where d1: "RemoteConn_DoRpcRequest write_all example_req (\<lambda>_. AllocProposalMsg 0, (), example_conn 5) =
    ((h1, n1, c1), r1)" by (metis surj_pair)
  obtain h2 n2 c2 r2 where d2: "RemoteConn_DoRpcRequest write_all example_req (h1, n1, example_conn 6) = ((h2, n2, c2), r2)"
    by (metis surj_pair)
  have "IdGen_Get (rc_reqid (example_conn 5)) \<noteq> IdGen_Get (rc_reqid (example_conn 6))" by code_simp
  from shared_message_loses_answer [OF example_conn_inv(1,1,2) this _ d1 d2, of h2 3] have "RemoteConn_HandleRecv h2 3 c1 = None"
    by (simp add: example_conn_inv(3) example_req_simps)
  then show ?thesis unfolding d1 Let_def by (simp add: d2 [simplified])
qed

text \<open>
  The manager creates one connection per configured peer and puts the local one first. The
  others keep the order of the configuration, so the list is not ordered by server id as its comment
  says.
\<close>

theorem connections_local_first:
  "\<exists>cm'. ConnMng_CreateConn mk cm = (cm', int (length (cf_peer (cm_config cm)))) \<and>
    mset (ConnMng_GetAllConn i cm') = mset (map mk (cf_peer (cm_config cm))) \<and>
    ConnMng_GetAllConn i cm' = map mk (filter (\<lambda>p. AddrInfo_eq p (cf_local (cm_config cm))) (rev (cf_peer (cm_config cm))) @
      filter (\<lambda>p. \<not> AddrInfo_eq p (cf_local (cm_config cm))) (cf_peer (cm_config cm)))"
proof -
  let ?ps = "cf_peer (cm_config cm)" and ?l = "cf_local (cm_config cm)"
  have "mset (map mk (filter (\<lambda>p. p = ?l) (rev ?ps) @ filter (\<lambda>p. p \<noteq> ?l) ?ps)) = mset (map mk ?ps)"
    by (simp add: rev_filter [symmetric]) (metis image_mset_union multiset_partition)
  then show ?thesis
    by (simp add: ConnMng_CreateConn_def ConnMng_CreateConn_loop_eq ConnMng_GetAllConn_def rev_filter)
qed

end
