(* ===== verification/Plog_Properties.thy ===== *)
theory Plog_Properties
  imports Example_Node
begin

text \<open>
  Properties of the log: the byte format of an entry, what is lost when an entry is written and
  read back, and the recovery of a manager from its store.
\<close>

section \<open>The byte format\<close>

lemma entry_stored_bytes:
  assumes "wf_Entry e" and "stored_size e < 2 ^ 32"
  obtains bs where "Entry_SerializeTo e = Some (bs, of_nat (stored_size e))" "length bs = stored_size e"
    "Entry_UnserializeFrom bs e0 =
       Some (e0\<lparr>en_accepted := Some (stored_accepted e), en_promised := Some (stored_promised e)\<rparr>, err kErrCode_OK)"
  using that Entry_SerializeTo_stored [OF assms] Entry_UnserializeFrom_stored [OF assms, of e0] length_stored [OF assms(1)]
  by blast

text \<open>
  C23: An accepted proposal survives the disk. Serialising an entry that has accepted a proposal gives
  as many bytes as the returned size says, and reading them back into an entry object restores that
  proposal, every field and value byte. A promise made before is not kept: it comes back as the dummy.
\<close>

theorem accepted_round_trip:
  assumes "wf_Entry e" and "en_accepted e = Some p" and "unat (p_size p) + 200 < 2 ^ 32"
  shows "\<exists>bs n. Entry_SerializeTo e = Some (bs, n) \<and> length bs = unat n \<and>
    Entry_UnserializeFrom bs e0 =
      Some (e0\<lparr>en_accepted := Some p, en_promised := Some GenDummyProposal\<rparr>, err kErrCode_OK)"
proof -
  have st: "stored_accepted e = p" "stored_promised e = GenDummyProposal"
    using assms(2) by (simp_all add: stored_accepted_def stored_promised_def)
  have lt: "stored_size e < 2 ^ 32"
    using assms(3) by (simp add: stored_size_def st ProposalHeaderSz_def)
  obtain bs where "Entry_SerializeTo e = Some (bs, of_nat (stored_size e))" "length bs = stored_size e"
    "Entry_UnserializeFrom bs e0 =
       Some (e0\<lparr>en_accepted := Some (stored_accepted e), en_promised := Some (stored_promised e)\<rparr>, err kErrCode_OK)"
    by (rule entry_stored_bytes [OF assms(1) lt])
  moreover have "unat (of_nat (stored_size e) :: u32) = stored_size e" using lt by (simp add: unat_of_nat)
  ultimately show ?thesis by (auto simp: st)
qed

definition example_entry :: Entry where
  "example_entry = (Entry_new 0 1)\<lparr>en_accepted := Some (example_proposal 4 9), en_promised := Some (example_proposal 6 0)\<rparr>"

theorem accepted_round_trip_witness:
  "\<exists>bs n. Entry_SerializeTo example_entry = Some (bs, n) \<and> length bs = unat n \<and>
    Entry_UnserializeFrom bs (Entry_new 0 1) =
      Some ((Entry_new 0 1)\<lparr>en_accepted := Some (example_proposal 4 9), en_promised := Some GenDummyProposal\<rparr>,
            err kErrCode_OK)"
  by (rule accepted_round_trip)
    (simp_all add: example_entry_def wf_Entry_def, simp add: example_proposal_def AllocProposal_def)

lemma UnserializeFrom_cases:
  assumes "Entry_UnserializeFrom bs e = Some (e', rc)"
  obtains "rc = err kErrCode_UNMARSHAL_PLOG_FAIL" "e' = e" "length bs < EntryHeadSize"
  | "rc = err kErrCode_INVALID_PLOG_DATA" "e' = e" "EntryHeadSize \<le> length bs"
  | p q a b where "rc = err kErrCode_OK" "EntryHeadSize \<le> length bs" "le_nat (take 4 bs) = length bs"
      "CloneProposal p = Some a" "CloneProposal q = Some b" "e' = e\<lparr>en_accepted := Some a, en_promised := Some b\<rparr>"
  using assms by (auto simp: Entry_UnserializeFrom_def Let_def split: if_splits Option.bind_splits)

text \<open>
  Reading bytes either succeeds or changes nothing. Whatever the bytes, if reading does not
  run past them, the outcome is success, with two proposals whose value bytes agree with their size fields,
  or one of two error codes with the entry unchanged; too short an input and a wrong total size are
  always reported.
\<close>

theorem unserialize_all_or_nothing:
  assumes "Entry_UnserializeFrom bs e = Some (e', rc)"
  shows "if rc = err kErrCode_OK
    then le_nat (take 4 bs) = length bs \<and>
      (\<exists>p q. e' = e\<lparr>en_accepted := Some p, en_promised := Some q\<rparr> \<and>
        length (p_data p) = unat (p_size p) \<and> length (p_data q) = unat (p_size q))
    else e' = e \<and> rc = (if length bs < EntryHeadSize then err kErrCode_UNMARSHAL_PLOG_FAIL else err kErrCode_INVALID_PLOG_DATA)"
  using assms
proof (cases rule: UnserializeFrom_cases)
  case (3 p q a b)
  then show ?thesis using CloneProposal_SomeD [of p a] CloneProposal_SomeD [of q b] by auto
qed simp_all

theorem unserialize_all_or_nothing_witness:
  "(let rc = err kErrCode_INVALID_PLOG_DATA; bs = [1, 0, 0, 0, 17, 0, 0, 0, 0]; e = Entry_new 0 1
    in if rc = err kErrCode_OK
    then le_nat (take 4 bs) = length bs \<and>
      (\<exists>p q. e = e\<lparr>en_accepted := Some p, en_promised := Some q\<rparr> \<and>
        length (p_data p) = unat (p_size p) \<and> length (p_data q) = unat (p_size q))
    else e = e \<and> rc = (if length bs < EntryHeadSize then err kErrCode_UNMARSHAL_PLOG_FAIL else err kErrCode_INVALID_PLOG_DATA))"
  unfolding Let_def by (rule unserialize_all_or_nothing) (simp add: Entry_UnserializeFrom_def EntryHeadSize_def)

text \<open>
  A truncated record is read past its end. The check of the total size passes for a record that
  is cut down to its header, and the two size fields are then read from bytes that are not there.
\<close>

theorem short_record_read_past_end:
  "9 \<le> n \<Longrightarrow> n < 56 \<Longrightarrow> Entry_UnserializeFrom (le_bytes 4 n @ replicate (n - 4) 0) e = None"
  by (simp add: Entry_UnserializeFrom_def EntryHeadSize_def size_field_def Let_def del: le_bytes.simps)

theorem short_record_read_past_end_witness:
  "Entry_UnserializeFrom (le_bytes 4 9 @ replicate (9 - 4) 0) (Entry_new 0 1) = None"
  by (rule short_record_read_past_end) simp_all

section \<open>Entries that were blank when they were saved\<close>

lemma dummy_blocks:
  assumes "en_accepted e = Some GenDummyProposal"
  shows "accept_entry w pp e = e" "accept_errcode w pp e = err kErrCode_INVALID_PLOG_DATA"
    "prepare_entry pp e = e" "prepare_answer w pp e = (GenDummyProposal, 0, st kPaxosState_ACCEPTED)"
  using assms
  by (simp_all add: accept_entry_def accept_duplicate_def accept_stores_def accept_errcode_def prepare_entry_def
      prepare_answer_def GenDummyProposal_def calloc_Proposal_def)

text \<open>
  C24: A promise that is written and read back blocks the entry for good. Reading the record back
  fills the missing accepted proposal with the dummy, whose status is neither accepted nor chosen. The entry then refuses
  every accept request with an invalid-data error and stays as it is, and answers every prepare
  request with the dummy as its vote.
\<close>

theorem restored_promise_blocks_entry:
  assumes "wf_Entry e" and "en_accepted e = None" and "en_promised e = Some r" and "unat (p_size r) + 200 < 2 ^ 32"
    and "ac_inv S ac" and "wf_Proposal pp" and "\<not> ac_lags ac pp"
    and "Entry_SerializeTo e = Some (bs, n)"
    and "Entry_UnserializeFrom bs e0 = Some (ac_entry S ac (p_pinst pp) (p_pentry pp), err kErrCode_OK)"
  shows "\<exists>ac' rsp. Acceptor_handleAcceptReq S pp ac = Some (ac', rsp) \<and>
    m_errcode rsp = err kErrCode_INVALID_PLOG_DATA \<and> p_status (m_body rsp) = st kPaxosState_ACCEPTED_FAILED \<and>
    ac_entry S ac' (p_pinst pp) (p_pentry pp) = ac_entry S ac (p_pinst pp) (p_pentry pp)"
proof -
  let ?m = "ac_mng ac (p_pinst pp)" and ?e = "ac_entry S ac (p_pinst pp) (p_pentry pp)"
  have st: "stored_accepted e = GenDummyProposal" "stored_promised e = r"
    using assms(2,3) by (simp_all add: stored_accepted_def stored_promised_def)
  have lt: "stored_size e < 2 ^ 32"
    using assms(4) by (simp add: stored_size_def st ProposalHeaderSz_def)
  have "e0\<lparr>en_accepted := Some GenDummyProposal, en_promised := Some r\<rparr> = ?e"
    using assms(8,9) Entry_SerializeTo_stored [OF assms(1) lt] Entry_UnserializeFrom_stored [OF assms(1) lt, of e0] st by simp
  then have acc: "en_accepted ?e = Some GenDummyProposal" by (auto simp flip: \<open>_ = ?e\<close>)
  note b = dummy_blocks [OF acc]
  let ?w = "saved_as S ?m (p_pentry pp) (as_accepted pp ?e)"
  obtain m' wp where h: "Acceptor_handleAcceptReq S pp ac = Some (ac_upd (p_pinst pp) m' wp ac,
       accept_reply ?w (em_last_chosen_entry ?m) pp ?e)"
    "EntryMng_at m' (p_pentry pp) = Some (accept_entry ?w pp ?e)"
    by (rule handleAcceptReq_impl [OF assms(5,6,7) refl ac_entry_def refl]) blast
  have "EntryMng_at m' (p_pentry pp) = Some ?e" using h(2) b(1) by simp
  then have "EntryMng_view S (p_pentry pp) m' = ?e" by (simp add: EntryMng_view_def)
  then have "ac_entry S (ac_upd (p_pinst pp) m' wp ac) (p_pinst pp) (p_pentry pp) = ?e"
    unfolding ac_entry_def [of S "ac_upd (p_pinst pp) m' wp ac"] ac_mng_upd [OF assms(5)] by simp
  moreover have "\<not> accept_ok ?w pp ?e"
    using acc by (simp add: accept_ok_def accept_duplicate_def accept_stores_def GenDummyProposal_def calloc_Proposal_def)
  ultimately show ?thesis using h(1) b by (simp add: accept_reply_def)
qed

text \<open>A store that keeps the bytes of each entry, and a node started on the record of a promise.\<close>

type_synonym byte_db = "((u64 \<times> u64) \<times> u8 list) list"

definition byte_store :: "byte_db plog_env" where
  "byte_store =
     \<lparr>LoadEntry = (\<lambda>db pinst k e.
        case map_of db (pinst, k) of
          None \<Rightarrow> (e, err kErrCode_ENTRY_NOT_FOUND)
        | Some bs \<Rightarrow> (case Entry_UnserializeFrom bs e of
             Some (e', rc) \<Rightarrow> if wf_Entry e' then (e', rc) else (e, err kErrCode_INVALID_PLOG_DATA)
           | None \<Rightarrow> (e, err kErrCode_INVALID_PLOG_DATA))),
      SaveEntry = (\<lambda>db pinst k e.
        case Entry_SerializeTo e of
          Some (bs, n) \<Rightarrow> (AList.update (pinst, k) bs db, err kErrCode_OK)
        | None \<Rightarrow> (db, err kErrCode_WRITE_PLOG_FAIL)),
      LoadPlogMetaInfo = (\<lambda>db pinst. (\<lparr>mi_version = 0, mi_pinst = pinst, mi_last_committed = 0\<rparr>, err kErrCode_OK)),
      BatchLoadEntry = (\<lambda>db pinst b e. ([], err kErrCode_OK)),
      env_creator = (\<lambda>config pinst. Some (EntryMng_new [] config pinst))\<rparr>"

definition promised_entry :: Entry where
  "promised_entry = (Entry_new 0 1)\<lparr>en_promised := Some (example_proposal 4 9)\<rparr>"

definition promised_bytes :: "u8 list" where
  "promised_bytes = fst (the (Entry_SerializeTo promised_entry))"

definition restarted_acceptor :: "(byte_db, nat) Acceptor" where
  "restarted_acceptor =
     \<lparr>ac_wpool = WorkerPool_StartWorker 1 4 WorkerPool_new,
      ac_pmn = \<lparr>pm_config = example_config, pm_mngs = [Some (EntryMng_new [((0, 1), promised_bytes)] example_config 0)]\<rparr>,
      ac_config = example_config\<rparr>"

lemma env_ok_byte_store: "env_ok byte_store"
  by (simp add: env_ok_def byte_store_def split: option.splits prod.splits)

lemma restarted_inv: "ac_inv byte_store restarted_acceptor"
proof -
  have "wp_inv (WorkerPool_StartWorker 1 4 WorkerPool_new)"
    by (rule WorkerPool_StartWorker_inv) simp_all
  then show ?thesis
    by (simp add: ac_inv_def env_ok_byte_store restarted_acceptor_def pm_inv_def em_inv_new example_config_def
        Configure_default_def)
qed

lemma promised_entry_stored:
  "wf_Entry promised_entry" "en_accepted promised_entry = None" "en_promised promised_entry = Some (example_proposal 4 9)"
  "stored_size promised_entry < 2 ^ 32" "unat (p_size (example_proposal 4 9)) + 200 < 2 ^ 32"
  by (simp_all add: promised_entry_def wf_Entry_def stored_size_def stored_accepted_def stored_promised_def)
    (simp_all add: example_proposal_def AllocProposal_def ProposalHeaderSz_def)

lemma restarted_entry:
  "Entry_SerializeTo promised_entry = Some (promised_bytes, of_nat (stored_size promised_entry))"
  "Entry_UnserializeFrom promised_bytes (Entry_new 0 1) = Some (ac_entry byte_store restarted_acceptor 0 1, err kErrCode_OK)"
proof -
  note p = promised_entry_stored
  obtain bs where b: "Entry_SerializeTo promised_entry = Some (bs, of_nat (stored_size promised_entry))"
    "Entry_UnserializeFrom bs (Entry_new 0 1) = Some ((Entry_new 0 1)\<lparr>en_accepted := Some (stored_accepted promised_entry),
       en_promised := Some (stored_promised promised_entry)\<rparr>, err kErrCode_OK)" (is "_ = Some (?e, _)")
    by (rule entry_stored_bytes [OF p(1,4)])
  then have bs: "promised_bytes = bs" by (simp add: promised_bytes_def)
  with b show "Entry_SerializeTo promised_entry = Some (promised_bytes, of_nat (stored_size promised_entry))" by simp
  have "wf_Entry ?e" using wf_stored [OF p(1)] by (simp add: wf_Entry_def)
  then have "fst (LoadEntry byte_store [((0, 1), promised_bytes)] 0 1 (Entry_new 0 1)) = ?e"
    using b(2) bs by (simp add: byte_store_def)
  moreover have "ac_mng restarted_acceptor 0 = EntryMng_new [((0, 1), promised_bytes)] example_config 0"
    by (simp add: ac_mng_def restarted_acceptor_def PlogMng_mng_def PlogMng_slot_def)
  moreover have "EntryMng_at (EntryMng_new db example_config 0) 1 = None" for db :: byte_db
    by (simp add: EntryMng_at_def lru_look_def lru_list_def LruMap_new_def)
  moreover have "em_max_in_used_entry (EntryMng_new db c i) = npos" for db :: byte_db and c i
    by (simp add: EntryMng_new_def)
  ultimately have "ac_entry byte_store restarted_acceptor 0 1 = ?e"
    by (simp add: ac_entry_def EntryMng_view_def EntryMng_fresh_def)
  with b(2) bs show "Entry_UnserializeFrom promised_bytes (Entry_new 0 1) = Some (ac_entry byte_store restarted_acceptor 0 1, err kErrCode_OK)"
    by simp
qed

theorem restored_promise_blocks_entry_witness:
  "\<exists>ac' rsp. Acceptor_handleAcceptReq byte_store (example_proposal 8 9) restarted_acceptor = Some (ac', rsp) \<and>
    m_errcode rsp = err kErrCode_INVALID_PLOG_DATA \<and> p_status (m_body rsp) = st kPaxosState_ACCEPTED_FAILED \<and>
    ac_entry byte_store ac' (p_pinst (example_proposal 8 9)) (p_pentry (example_proposal 8 9)) =
      ac_entry byte_store restarted_acceptor (p_pinst (example_proposal 8 9)) (p_pentry (example_proposal 8 9))"
proof (rule restored_promise_blocks_entry [OF promised_entry_stored(1,2,3,5) restarted_inv wf_example(1) _ restarted_entry(1),
      where ?e0.0 = "Entry_new 0 1"])
  have pp: "p_pinst (example_proposal 8 9) = 0" "p_pentry (example_proposal 8 9) = 1"
    by (simp_all add: example_proposal_def AllocProposal_def calloc_Proposal_def)
  show "\<not> ac_lags restarted_acceptor (example_proposal 8 9)"
    by (simp add: ac_lags_def pp ac_mng_def restarted_acceptor_def PlogMng_mng_def PlogMng_slot_def EntryMng_new_def)
  show "Entry_UnserializeFrom promised_bytes (Entry_new 0 1) =
    Some (ac_entry byte_store restarted_acceptor (p_pinst (example_proposal 8 9)) (p_pentry (example_proposal 8 9)), err kErrCode_OK)"
    using restarted_entry(2) by (simp add: pp)
qed

section \<open>Recovery\<close>

text \<open>
  C22: Recovery returns, whatever the size of the batches the store hands out, and leaves what one
  pass over the stored log gives: the loop over batches is equivalent to folding its body over all
  entries from the start number on, in order, followed by the adjustment of the global maximum.
\<close>

theorem recovery_is_one_pass:
  assumes "scans S (em_db m) (em_pinst m) log"
  shows "EntryMng_RecoverRange S start npos m =
    (let m' = snd (fold EntryMng_recover_entry (filter (\<lambda>e. start \<le> en_entry e) log) (start, m))
     in Some (m'\<lparr>em_global_max_chosen_entry := max (em_last_chosen_entry m') (em_global_max_chosen_entry m')\<rparr>, False))"
  using EntryMng_recover_loop_scans [OF assms, of start]
  by (simp add: EntryMng_RecoverRange_def Let_def max_def)

definition example_log :: "Entry list" where
  "example_log =
     [(Entry_new 0 0)\<lparr>en_accepted := Some ((example_proposal 4 9)\<lparr>p_status := st kPaxosState_CHOSEN\<rparr>)\<rparr>,
      (Entry_new 0 1)\<lparr>en_accepted := Some ((example_proposal 4 9)\<lparr>p_status := st kPaxosState_CHOSEN\<rparr>)\<rparr>,
      (Entry_new 0 3)\<lparr>en_promised := Some (example_proposal 6 0)\<rparr>]"

definition example_db :: entry_store where
  "example_db = map (\<lambda>e. ((0, en_entry e), e)) example_log"

lemma alist_store_scans:
  assumes "sorted_wrt (<) (map en_entry log)" and "npos \<notin> en_entry ` set log"
    and "log = map snd (filter (\<lambda>x. fst (fst x) = pinst) db)"
  shows "scans alist_store db pinst log"
proof -
  have "\<exists>n > 0. BatchLoadEntry alist_store db pinst start npos =
      (take n (filter (\<lambda>e. start \<le> en_entry e) log), err kErrCode_OK)" for start
    by (rule exI [of _ 1]) (simp add: alist_store_def assms(3))
  with assms show ?thesis by (simp add: scans_def)
qed

lemma example_scans: "scans alist_store example_db 0 example_log"
  by (rule alist_store_scans) (simp_all add: example_db_def example_log_def)

theorem recovery_is_one_pass_witness:
  "EntryMng_RecoverRange alist_store 1 npos (EntryMng_new example_db example_config 0) =
    (let m' = snd (fold EntryMng_recover_entry (filter (\<lambda>e. 1 \<le> en_entry e) example_log)
                     (1, EntryMng_new example_db example_config 0))
     in Some (m'\<lparr>em_global_max_chosen_entry := max (em_last_chosen_entry m') (em_global_max_chosen_entry m')\<rparr>, False))"
  by (rule recovery_is_one_pass) (simp add: example_scans)

text \<open>
  C21: Loading a manager from disk ends and finds the state of the log. After it, the last chosen
  entry is the largest stored entry that is chosen, the largest used one is the largest stored, the
  first unchosen is the smallest that is not chosen, and the cache holds the newest entries, as many as fit.
  Entry 0, which is reserved, is never read, and a log with no other chosen entry has 0 as its last chosen.
\<close>

theorem load_all_recovers_log:
  assumes "scans S db pinst log" and "LoadPlogMetaInfo S db pinst = (meta, err kErrCode_OK)"
  shows "\<exists>m. EntryMng_LoadAllFromDisk S (EntryMng_new db config pinst) = Some (m, True) \<and>
    em_last_chosen_entry m = Max (insert 0 (en_entry ` {e \<in> set log. entry_chosen e})) \<and>
    em_max_in_used_entry m = Max (insert 0 (en_entry ` set log)) \<and>
    em_first_unchosen_entry m = Min (insert npos (en_entry ` {e \<in> set log. 1 \<le> en_entry e \<and> \<not> entry_chosen e})) \<and>
    em_global_max_chosen_entry m = em_last_chosen_entry m \<and>
    lru_list (em_entries m) = take (unat (cf_entry_cache_num config))
      (rev (map (\<lambda>e. (en_entry e, e)) (filter (\<lambda>e. 1 \<le> en_entry e) log)))"
proof -
  have one: "1 \<le> x \<longleftrightarrow> x \<noteq> 0" for x :: u64 by (metis word_less_1 not_le)
  have zero: "insert 0 (en_entry ` {e \<in> set (filter (\<lambda>e. 1 \<le> en_entry e) log). P e}) =
      insert 0 (en_entry ` {e \<in> set log. P e})" for P
    by (auto simp: one)
  obtain m where m: "EntryMng_LoadAllFromDisk S (EntryMng_new db config pinst) = Some (m, True)"
    "em_last_chosen_entry m = Max (insert 0 (en_entry ` {e \<in> set (filter (\<lambda>e. 1 \<le> en_entry e) log). entry_chosen e}))"
    "em_max_in_used_entry m = Max (insert 0 (en_entry ` set (filter (\<lambda>e. 1 \<le> en_entry e) log)))"
    "em_first_unchosen_entry m = Min (insert npos (en_entry ` {e \<in> set (filter (\<lambda>e. 1 \<le> en_entry e) log). \<not> entry_chosen e}))"
    "em_global_max_chosen_entry m = em_last_chosen_entry m"
    "lru_list (em_entries m) = take (unat (cf_entry_cache_num config))
      (rev (map (\<lambda>e. (en_entry e, e)) (filter (\<lambda>e. 1 \<le> en_entry e) log)))"
    by (rule LoadAllFromDisk_scans [OF assms])
  show ?thesis
    using m zero [of entry_chosen] zero [of "\<lambda>_. True"] by (intro exI [of _ m]) (simp add: conj_commute conj_left_commute)
qed

theorem load_all_recovers_log_witness:
  "\<exists>m. EntryMng_LoadAllFromDisk alist_store (EntryMng_new example_db example_config 0) = Some (m, True) \<and>
    em_last_chosen_entry m = Max (insert 0 (en_entry ` {e \<in> set example_log. entry_chosen e})) \<and>
    em_max_in_used_entry m = Max (insert 0 (en_entry ` set example_log)) \<and>
    em_first_unchosen_entry m = Min (insert npos (en_entry ` {e \<in> set example_log. 1 \<le> en_entry e \<and> \<not> entry_chosen e})) \<and>
    em_global_max_chosen_entry m = em_last_chosen_entry m \<and>
    lru_list (em_entries m) = take (unat (cf_entry_cache_num example_config))
      (rev (map (\<lambda>e. (en_entry e, e)) (filter (\<lambda>e. 1 \<le> en_entry e) example_log)))"
  by (rule load_all_recovers_log [OF example_scans]) (simp add: alist_store_def)

end
