(* ===== verification/Paxos_Round.thy ===== *)
theory Paxos_Round
  imports Proposer_Clients Synod
begin

text \<open>
  A round of the protocol across the proposer and the acceptors: the proposer proposes, every
  acceptor of a majority handles the message the proposer sent last, and the answers come back as
  responses under the term the callback captured. The lemmas follow a two-phase round in which
  nothing is lost and no acceptor knows better.
\<close>

section \<open>Messages between the two\<close>

text \<open>An acceptor handles a message to its end; a list of acceptors does, and the answers are collected.\<close>

definition asks :: "'db plog_env \<Rightarrow> PaxosMsg \<Rightarrow> ('db, nat) Acceptor \<Rightarrow> (('db, nat) Acceptor \<times> PaxosMsg) option" where
  "asks S msg ac = do {
     (ac', out) \<leftarrow> Acceptor_doHandleMsg S \<lparr>rq_cb = None, rq_msg = msg\<rparr> ac;
     (_, rsp) \<leftarrow> out;
     Some (ac', rsp)
   }"

fun ask_all ::
    "'db plog_env \<Rightarrow> PaxosMsg \<Rightarrow> ('db, nat) Acceptor list \<Rightarrow> (('db, nat) Acceptor list \<times> PaxosMsg list) option" where
  "ask_all S msg [] = Some ([], [])"
| "ask_all S msg (ac # acs) = do {
     (ac', rsp) \<leftarrow> asks S msg ac;
     (acs', rsps) \<leftarrow> ask_all S msg acs;
     Some (ac' # acs', rsp # rsps)
   }"

lemma ask_all_each:
  "\<forall>ac \<in> set acs. \<exists>ac' rsp. asks S msg ac = Some (ac', rsp) \<and> Q ac' \<and> R rsp \<Longrightarrow>
   \<exists>acs' rsps. ask_all S msg acs = Some (acs', rsps) \<and> length acs' = length acs \<and> length rsps = length acs \<and>
     (\<forall>ac \<in> set acs'. Q ac) \<and> (\<forall>rsp \<in> set rsps. R rsp)"
proof (induction acs)
  case (Cons ac acs)
  from Cons.prems obtain ac' rsp where "asks S msg ac = Some (ac', rsp)" "Q ac'" "R rsp" by auto
  with Cons show ?case by fastforce
qed simp

definition exchange ::
    "'db plog_env \<Rightarrow> 'conn Proposer \<Rightarrow> ('db, nat) Acceptor list \<Rightarrow> ('conn Proposer \<times> ('db, nat) Acceptor list) option" where
  "exchange S P acs =
     (if ps_sent P = [] then None
      else let (c, msg, k) = last (ps_sent P)
           in do {
             (acs', rsps) \<leftarrow> ask_all S msg acs;
             P' \<leftarrow> proposer_run (map (Respond \<circ> answer_to k) rsps) P;
             Some (P', acs')
           })"

definition two_phase_round ::
    "'db plog_env \<Rightarrow> u64 \<Rightarrow> u8 list \<Rightarrow> u64 \<Rightarrow> 'conn Proposer \<Rightarrow> ('db, nat) Acceptor list \<Rightarrow>
     ('conn Proposer \<times> ('db, nat) Acceptor list) option" where
  "two_phase_round S opaque val pinst P acs = do {
     P1 \<leftarrow> proposer_step (Propose opaque val pinst) P;
     (P2, acs1) \<leftarrow> exchange S P1 acs;
     exchange S P2 acs1
   }"

section \<open>The acceptors\<close>

definition saves :: "'db plog_env \<Rightarrow> bool" where
  "saves S \<longleftrightarrow> (\<forall>db i k e. snd (SaveEntry S db i k e) = err kErrCode_OK)"

text \<open>Nothing chosen at or above the entry, nothing accepted in it; the promise is below, or is, \<open>p\<close>.\<close>

definition behind :: "'db plog_env \<Rightarrow> u64 \<Rightarrow> u64 \<Rightarrow> ('db, nat) Acceptor \<Rightarrow> bool" where
  "behind S i k ac \<longleftrightarrow> ac_inv S ac \<and>
     (em_last_chosen_entry (ac_mng ac i) = npos \<or> em_last_chosen_entry (ac_mng ac i) < k)"

definition ready_for :: "'db plog_env \<Rightarrow> u64 \<Rightarrow> u64 \<Rightarrow> u64 \<Rightarrow> ('db, nat) Acceptor \<Rightarrow> bool" where
  "ready_for S i k p ac \<longleftrightarrow> behind S i k ac \<and> en_accepted (ac_entry S ac i k) = None \<and>
     pred_option (\<lambda>r. p_pid r < p) (en_promised (ac_entry S ac i k))"

definition promised_to :: "'db plog_env \<Rightarrow> u64 \<Rightarrow> u64 \<Rightarrow> u64 \<Rightarrow> ('db, nat) Acceptor \<Rightarrow> bool" where
  "promised_to S i k p ac \<longleftrightarrow> behind S i k ac \<and> en_accepted (ac_entry S ac i k) = None \<and>
     map_option p_pid (en_promised (ac_entry S ac i k)) = Some p"

definition accepted_by :: "'db plog_env \<Rightarrow> u64 \<Rightarrow> u64 \<Rightarrow> Proposal \<Rightarrow> ('db, nat) Acceptor \<Rightarrow> bool" where
  "accepted_by S i k pp ac \<longleftrightarrow> ac_inv S ac \<and>
     en_accepted (ac_entry S ac i k) = Some (pp\<lparr>p_status := st kPaxosState_ACCEPTED\<rparr>)"

lemma behind_lags: "behind S i k ac \<Longrightarrow> p_pinst pp = i \<Longrightarrow> p_pentry pp = k \<Longrightarrow> \<not> ac_lags ac pp"
  by (auto simp: behind_def ac_lags_def)

lemma asks_prepare:
  assumes "ready_for S i k p ac" and "saves S" and "wf_PaxosMsg msg" and "m_type msg = mt kMsgType_PREPARE_REQ"
    and "p_pinst (m_body msg) = i" and "p_pentry (m_body msg) = k" and "p_pid (m_body msg) = p" and "p \<noteq> 0"
  shows "\<exists>ac' rsp. asks S msg ac = Some (ac', rsp) \<and> promised_to S i k p ac' \<and>
    (grants p rsp \<and> p_pid (m_body rsp) = p \<and> p_pinst (m_body rsp) = i \<and> p_value_id (m_body rsp) = p_value_id (m_body msg) \<and>
     p_term (m_body rsp) = p_term (m_body msg))"
proof -
  let ?pp = "m_body msg" and ?m = "ac_mng ac i" and ?e = "ac_entry S ac i k"
  have b: "behind S i k ac" and inv: "ac_inv S ac" using assms(1) by (simp_all add: ready_for_def behind_def)
  have e: "en_accepted ?e = None" "pred_option (\<lambda>r. p_pid r < p) (en_promised ?e)" using assms(1) by (simp_all add: ready_for_def)
  have view: "?e = EntryMng_view S (p_pentry ?pp) ?m" using assms(6) by (simp add: ac_entry_def)
  have mng: "?m = ac_mng ac (p_pinst ?pp)" using assms(5) by simp
  obtain m' wp where h: "Acceptor_handlePrepareReq S ?pp ac = Some (ac_upd (p_pinst ?pp) m' wp ac,
       prepare_reply (saved_as S ?m (p_pentry ?pp) (prepare_entry ?pp ?e)) (em_last_chosen_entry ?m) ?pp ?e)"
    "wp_inv wp" "em_inv m'" "EntryMng_at m' (p_pentry ?pp) = Some (prepare_entry ?pp ?e)"
    "em_last_chosen_entry m' = em_last_chosen_entry ?m"
    by (rule handlePrepareReq_impl [OF inv assms(3) [unfolded wf_PaxosMsg_def] behind_lags [OF b assms(5,6)] mng view]) blast
  let ?ac = "ac_upd i m' wp ac"
  have saved: "saved_as S ?m k x" for x using assms(2) by (simp add: saves_def saved_as_def)
  have not_ge: "\<not> p_pid r \<ge> p" if "en_promised ?e = Some r" for r using e(2) that by simp
  have ans: "prepare_answer True ?pp ?e = (?pp, 0, st kPaxosState_PROMISED)"
    using e not_ge assms(7) by (simp add: prepare_answer_def split: option.split)
  have ent: "prepare_entry ?pp ?e = ?e\<lparr>en_promised := Some (?pp\<lparr>p_status := st kPaxosState_PROMISED\<rparr>)\<rparr>"
    using e not_ge assms(7,8) by (auto simp: prepare_entry_def)
  let ?rsp = "Acceptor_stamp ?ac msg (prepare_reply True (em_last_chosen_entry ?m) ?pp ?e)\<lparr>m_type := mt kMsgType_PREPARE_RSP\<rparr>"
  have "asks S msg ac = Some (?ac, ?rsp)"
    using h(1) assms(4-6) saved
    by (simp add: asks_def Acceptor_doHandleMsg_def Acceptor_dispatch_def Acceptor_stamp_def prepare_reply_def split: prod.splits)
  moreover have "promised_to S i k p ?ac"
    using h(2-5) ent e(1) b inv assms(6,7) ac_entry_upd [OF inv, of m' k]
    by (simp add: promised_to_def behind_def ac_inv_upd)
  ultimately show ?thesis
    using ans assms(5,7) by (simp add: Acceptor_stamp_def prepare_reply_def grants_def)
qed

lemma asks_accept:
  assumes "promised_to S i k p ac" and "saves S" and "wf_PaxosMsg msg" and "m_type msg = mt kMsgType_ACCEPT_REQ"
    and "p_pinst (m_body msg) = i" and "p_pentry (m_body msg) = k" and "p_pid (m_body msg) = p"
  shows "\<exists>ac' rsp. asks S msg ac = Some (ac', rsp) \<and> accepted_by S i k (m_body msg) ac' \<and>
    (accept_verdict msg rsp = Voted \<and> p_pinst (m_body rsp) = i \<and> p_pentry (m_body rsp) = k)"
proof -
  let ?pp = "m_body msg" and ?m = "ac_mng ac i" and ?e = "ac_entry S ac i k"
  have b: "behind S i k ac" and inv: "ac_inv S ac" using assms(1) by (simp_all add: promised_to_def behind_def)
  have e: "en_accepted ?e = None" "\<forall>r. en_promised ?e = Some r \<longrightarrow> p_pid r = p" using assms(1) by (auto simp: promised_to_def)
  have view: "?e = EntryMng_view S (p_pentry ?pp) ?m" using assms(6) by (simp add: ac_entry_def)
  have mng: "?m = ac_mng ac (p_pinst ?pp)" using assms(5) by simp
  obtain m' wp where h: "Acceptor_handleAcceptReq S ?pp ac = Some (ac_upd (p_pinst ?pp) m' wp ac,
       accept_reply (saved_as S ?m (p_pentry ?pp) (as_accepted ?pp ?e)) (em_last_chosen_entry ?m) ?pp ?e)"
    "wp_inv wp" "em_inv m'"
    "EntryMng_at m' (p_pentry ?pp) = Some (accept_entry (saved_as S ?m (p_pentry ?pp) (as_accepted ?pp ?e)) ?pp ?e)"
    by (rule handleAcceptReq_impl [OF inv assms(3) [unfolded wf_PaxosMsg_def] behind_lags [OF b assms(5,6)] mng view refl]) blast
  have saved: "saved_as S ?m k x" for x using assms(2) by (simp add: saves_def saved_as_def)
  have st: "accept_stores ?pp ?e" "\<not> accept_duplicate ?pp ?e"
    using e assms(7) by (simp_all add: accept_stores_def accept_duplicate_def)
  let ?ac = "ac_upd i m' wp ac"
  let ?rsp = "Acceptor_stamp ?ac msg (accept_reply True (em_last_chosen_entry ?m) ?pp ?e)\<lparr>m_type := mt kMsgType_ACCEPT_RSP\<rparr>"
  have "asks S msg ac = Some (?ac, ?rsp)"
    using h(1) assms(4-6) saved
    by (simp add: asks_def Acceptor_doHandleMsg_def Acceptor_dispatch_def Acceptor_stamp_def accept_reply_def)
  moreover have "accepted_by S i k ?pp ?ac"
    using h(2-4) st inv saved assms(6) ac_entry_upd [OF inv, of m' k]
    by (simp add: accepted_by_def ac_inv_upd accept_entry_def as_accepted_def)
  moreover have "accept_verdict msg ?rsp = Voted"
    using st by (simp add: accept_verdict_def Acceptor_stamp_def accept_reply_def accept_errcode_def accept_answer_def accept_ok_def)
  ultimately show ?thesis
    using st assms(5,6) by (simp add: Acceptor_stamp_def accept_reply_def accept_answer_def)
qed

section \<open>The proposer gathers promises\<close>

text \<open>A prepare phase that has got \<open>j\<close> responses, all promises for the value proposed.\<close>

definition gathering :: "u64 \<Rightarrow> PaxosMsg \<Rightarrow> nat \<Rightarrow> InstanceState \<Rightarrow> bool" where
  "gathering i req j s \<longleftrightarrow> is_req s = Some req \<and> p_pinst (m_body req) = i \<and> phase s = PREPARING \<and> \<not> notified s \<and>
     \<not> pr_set (is_ret s) \<and> unat (is_rsp_count s) = j \<and> unat (is_valid_rsp_count s) = j"

definition promises_for :: "u64 \<Rightarrow> PaxosMsg \<Rightarrow> PaxosMsg \<Rightarrow> bool" where
  "promises_for i req rsp \<longleftrightarrow> grants (p_pid (m_body req)) rsp \<and> p_pid (m_body rsp) = p_pid (m_body req) \<and>
     p_pinst (m_body rsp) = i \<and> p_value_id (m_body rsp) = p_value_id (m_body req) \<and> p_term (m_body rsp) = p_term (m_body req)"

text \<open>Two messages propose the same value under the same id and term.\<close>

definition same_proposal :: "PaxosMsg \<Rightarrow> PaxosMsg \<Rightarrow> bool" where
  "same_proposal a b \<longleftrightarrow> p_pinst (m_body a) = p_pinst (m_body b) \<and> p_pentry (m_body a) = p_pentry (m_body b) \<and>
     p_pid (m_body a) = p_pid (m_body b) \<and> p_value_id (m_body a) = p_value_id (m_body b) \<and>
     p_term (m_body a) = p_term (m_body b) \<and> p_data (m_body a) = p_data (m_body b) \<and> p_size (m_body a) = p_size (m_body b)"

lemma same_proposal_refl [simp]: "same_proposal a a"
  by (simp add: same_proposal_def)

lemma same_proposal_trans: "same_proposal a b \<Longrightarrow> same_proposal b c \<Longrightarrow> same_proposal a c"
  by (simp add: same_proposal_def)

lemma same_proposal_header [simp]: "same_proposal (Proposer_accept_header cf s m) m"
  by (simp add: same_proposal_def Proposer_accept_header_def)

lemma same_proposal_meta: "p_term (m_body rsp) = p_term (m_body req) \<Longrightarrow> same_proposal (with_meta rsp req) req"
  by (simp add: same_proposal_def with_meta_def CopyProposalMeta_def Let_def)

lemma promises_for_same: "same_proposal a b \<Longrightarrow> promises_for i a rsp = promises_for i b rsp"
  by (simp add: promises_for_def same_proposal_def)

lemma promise_step:
  assumes "gathering i req j s" and "promises_for i req rsp" and "p_pid (m_body req) \<noteq> 0"
    and "j < unat (cf_total_acceptor cf) div 2 + 1" and "unat (cf_total_acceptor cf) < 256"
  shows "if Suc j = unat (cf_total_acceptor cf) div 2 + 1
    then \<exists>s' m. prepare_step cf rsp req s = Some (s', [m], [], err kErrCode_OK) \<and> polling i m 0 s' \<and> same_proposal m req \<and>
      m_type m = mt kMsgType_ACCEPT_REQ \<and> is_term s' = is_term s \<and> is_ret s' = is_ret s \<and>
      is_last_chosen_entry s' = is_last_chosen_entry s
    else \<exists>s'. prepare_step cf rsp req s = Some (s', [], [], err kErrCode_OK) \<and> gathering i (with_meta rsp req) (Suc j) s' \<and>
      same_proposal (with_meta rsp req) req \<and> is_term s' = is_term s \<and> is_ret s' = is_ret s \<and>
      is_last_chosen_entry s' = is_last_chosen_entry s"
proof -
  let ?N = "unat (cf_total_acceptor cf)" and ?req = "with_meta rsp req"
  have j: "Suc j < 256" using assms(4,5) by linarith
  have cnt: "unat (is_rsp_count s + 1) = Suc j" "unat (is_valid_rsp_count s + 1) = Suc j"
    using assms(1) j by (simp_all add: gathering_def unat_next_u8)
  have maj: "unat (cf_total_acceptor cf div 2 + 1) = ?N div 2 + 1"
    using assms(5) by (subst unat_add_noover) (simp_all add: unat_div)
  have enough: "cf_total_acceptor cf div 2 + 1 \<le> ucast (is_valid_rsp_count s + 1) \<longleftrightarrow> Suc j = ?N div 2 + 1"
    using assms(4) unfolding word_le_nat_alt maj unat_ucast_u8 cnt(2) by linarith
  have fin: "ucast (is_rsp_count s + 1) \<noteq> cf_total_acceptor cf" if "Suc j \<noteq> ?N div 2 + 1"
  proof
    assume "ucast (is_rsp_count s + 1) = cf_total_acceptor cf"
    then have "?N = Suc j" using cnt(1) unat_ucast_u8 by metis
    with that assms(4) show False by linarith
  qed
  have v: "prepare_verdict req rsp = Granted" using assms(2) prepare_verdict_grants by (simp add: promises_for_def)
  have rsp: "m_errcode rsp = err kErrCode_OK" "p_pid (m_body rsp) > 0" "p_value_id (m_body rsp) = p_value_id (m_body ?req)"
    "same_proposal ?req req"
    using assms(2,3) by (simp_all add: promises_for_def grants_def word_gt_0 same_proposal_meta)
  let ?s = "s\<lparr>is_rsp_count := is_rsp_count s + 1, is_req := Some ?req, is_valid_rsp_count := is_valid_rsp_count s + 1\<rparr>"
  let ?m = "Proposer_accept_header cf ?s ?req"
  have n: "\<not> notified s" using assms(1) by (simp add: gathering_def)
  show ?thesis
  proof (cases "Suc j = ?N div 2 + 1")
    case True
    have "prepare_step cf rsp req s = Some (to_accepting (?s\<lparr>is_req := Some ?m\<rparr>), [?m], [], err kErrCode_OK)"
      using True enough v rsp n by (simp add: prepare_step_def last_vote_step_def prepare_out_step_def Let_def)
    moreover have "polling i ?m 0 (to_accepting (?s\<lparr>is_req := Some ?m\<rparr>))"
      using assms(1) by (simp add: polling_def gathering_def) (simp add: to_accepting_def)
    moreover have "same_proposal ?m req" using same_proposal_trans [OF same_proposal_header rsp(4)] .
    ultimately show ?thesis using True by (auto simp: to_accepting_def)
  next
    case False
    have "prepare_step cf rsp req s = Some (?s, [], [], err kErrCode_OK)"
      using False enough v rsp n fin by (simp add: prepare_step_def last_vote_step_def prepare_out_step_def Let_def)
    moreover have "gathering i ?req (Suc j) ?s" using assms(1) cnt by (simp add: gathering_def)
    ultimately show ?thesis using False rsp(4) by auto
  qed
qed

lemma promises_run:
  assumes "ps_at P i = Some s" and "gathering i req j s" and "ps_conn P \<noteq> None" and "length (ps_states P) < 2 ^ 64"
    and "\<forall>m \<in> set ms. rm_pinst m = i \<and> rm_term m = is_term s - 1 \<and> pred_option (promises_for i req) (rm_msg m) \<and> rm_msg m \<noteq> None"
    and "p_pid (m_body req) \<noteq> 0" and "unat (cf_total_acceptor (ps_config P)) < 256"
    and "j + length ms = unat (cf_total_acceptor (ps_config P)) div 2 + 1" and "ms \<noteq> []"
  shows "\<exists>s' m. proposer_run (map Respond ms) P = Some (ps_upd i s' (bcast P m) [] P) \<and> polling i m 0 s' \<and>
    same_proposal m req \<and> m_type m = mt kMsgType_ACCEPT_REQ \<and> is_term s' = is_term s \<and> is_ret s' = is_ret s \<and>
    is_last_chosen_entry s' = is_last_chosen_entry s"
  using assms
proof (induction ms arbitrary: P s req j)
  case (Cons m ms)
  let ?cf = "ps_config P" let ?N = "unat (cf_total_acceptor ?cf)"
  from Cons.prems(5) obtain rsp where m: "rm_pinst m = i" "rm_term m = is_term s - 1" "rm_msg m = Some rsp"
    "promises_for i req rsp" by auto
  then have rp: "p_pinst (m_body rsp) = i" by (simp add: promises_for_def)
  have p: "is_req s = Some req" "p_pinst (m_body req) = i" "phase s = PREPARING"
    using Cons.prems(2) by (simp_all add: gathering_def)
  have h: "Proposer_handleRpcResponse m P = lift_step i P (prepare_step ?cf rsp req s)"
    using handleRpcResponse_step [OF Cons.prems(1,4) m(1) Cons.prems(3)] m(2,3) rp p by (simp add: response_step_def)
  have j: "j < ?N div 2 + 1" using Cons.prems(8) by simp
  note step = promise_step [OF Cons.prems(2) m(4) Cons.prems(6) j Cons.prems(7)]
  show ?case
  proof (cases "Suc j = ?N div 2 + 1")
    case True
    then have "ms = []" using Cons.prems(8) by simp
    moreover from step True obtain s' a where "prepare_step ?cf rsp req s = Some (s', [a], [], err kErrCode_OK)"
      "polling i a 0 s'" "same_proposal a req" "m_type a = mt kMsgType_ACCEPT_REQ" "is_term s' = is_term s"
      "is_ret s' = is_ret s" "is_last_chosen_entry s' = is_last_chosen_entry s" by auto
    ultimately show ?thesis using h by (intro exI [of _ s'] exI [of _ a]) simp
  next
    case False
    then have ne: "ms \<noteq> []" using Cons.prems(8) by auto
    from step False obtain s1 where s1: "prepare_step ?cf rsp req s = Some (s1, [], [], err kErrCode_OK)"
      "gathering i (with_meta rsp req) (Suc j) s1" "same_proposal (with_meta rsp req) req" "is_term s1 = is_term s"
      "is_ret s1 = is_ret s" "is_last_chosen_entry s1 = is_last_chosen_entry s" by auto
    let ?P = "ps_upd i s1 [] [] P"
    have "ps_at ?P i = Some s1" using Cons.prems(1) by (rule ps_at_upd_same)
    moreover have "bcast ?P = bcast P" by (simp add: bcast_def fun_eq_iff)
    moreover have "\<forall>m \<in> set ms. rm_pinst m = i \<and> rm_term m = is_term s1 - 1 \<and>
        pred_option (promises_for i (with_meta rsp req)) (rm_msg m) \<and> rm_msg m \<noteq> None"
      using Cons.prems(5) promises_for_same [OF s1(3)] s1(4) by (auto simp: pred_option_def)
    moreover have "p_pid (m_body (with_meta rsp req)) \<noteq> 0" using Cons.prems(6) by simp
    ultimately obtain s' m' where r: "proposer_run (map Respond ms) ?P = Some (ps_upd i s' (bcast P m') [] ?P)"
      "polling i m' 0 s'" "same_proposal m' (with_meta rsp req)" "m_type m' = mt kMsgType_ACCEPT_REQ"
      "is_term s' = is_term s1" "is_ret s' = is_ret s1" "is_last_chosen_entry s' = is_last_chosen_entry s1"
      using Cons.IH [of ?P s1 "with_meta rsp req" "Suc j"] s1(2) Cons.prems(3,4,7,8) ne by auto
    then show ?thesis
      using h s1 same_proposal_trans [OF r(3) s1(3)] by (intro exI [of _ s'] exI [of _ m']) simp
  qed
qed simp

section \<open>The round\<close>

lemma last_bcast:
  assumes "ps_conn P = Some mng" and "cm_conn mng \<noteq> []"
  shows "\<exists>c. last (xs @ bcast P m) = (c, m, \<lparr>rk_pinst = p_pinst (m_body m), rk_entry = p_pentry (m_body m),
    rk_term = p_term (m_body m)\<rparr>)" and "xs @ bcast P m \<noteq> []"
  using assms by (simp_all add: bcast_def last_map)

lemma propose_gathering:
  assumes "ps_inv P" and "ps_slot P pinst = Some i" and "ps_at P i = Some s" and "is_req s = None"
    and "length val < 2 ^ 31" and "\<not> one_phase (ps_config P) i opaque val s"
  shows "\<exists>P1 s1. proposer_step (Propose opaque val pinst) P = Some P1 \<and> ps_at P1 i = Some s1 \<and>
    gathering i (propose_msg (ps_config P) i opaque val s) 0 s1 \<and> is_term s1 - 1 = is_term s \<and>
    is_ret s1 = \<lparr>pr_future = Some (ps_futures P), pr_set = False\<rparr> \<and> is_last_chosen_entry s1 = is_last_chosen_entry s \<and>
    ps_sent P1 = ps_sent P @ bcast P (propose_sends (ps_config P) i opaque val s) \<and> ps_results P1 = ps_results P \<and>
    ps_conn P1 = ps_conn P \<and> ps_config P1 = ps_config P \<and> length (ps_states P1) = length (ps_states P)"
proof -
  obtain tw where tw: "TimingWheel_AddTimeout (is_term s) (cf_timeout (ps_config P) * 2)
      \<lparr>rk_pinst = i, rk_entry = is_last_chosen_entry s + 1, rk_term = is_term s\<rparr> (ps_timeout P) = Some (tw, True)"
    using TimingWheel_AddTimeout_due [of "ps_timeout P"] assms(1) unfolding ps_inv_def by blast
  have c: "ps_conn P \<noteq> None" "length val < 2 ^ 32" using assms(1,5) by (simp_all add: ps_inv_def)
  let ?s = "propose_state (ps_config P) i opaque val (ps_futures P) s"
  let ?P = "(ps_upd i ?s (bcast P (propose_sends (ps_config P) i opaque val s)) []
      (P\<lparr>ps_futures := Suc (ps_futures P)\<rparr>))\<lparr>ps_timeout := tw\<rparr>"
  have "gathering i (propose_msg (ps_config P) i opaque val s) 0 ?s"
    using assms(6) by (simp add: gathering_def propose_state_def phase_def notified_def Let_def) (simp add: propose_msg_def Let_def)
  moreover have "is_last_chosen_entry ?s = is_last_chosen_entry s"
    by (simp add: propose_state_def Let_def InstanceState_allocPaxosMsg_def split: prod.split)
  moreover have "ps_at ?P i = Some ?s" using assms(3) ps_at_range [OF assms(3)] by (simp add: ps_at_upd)
  ultimately show ?thesis
    using ProposeAsync_idle [OF c(1) assms(2-4) c(2) tw, of opaque]
    by (intro exI [of _ ?P] exI [of _ ?s]) (simp add: propose_state_def Let_def)
qed

lemma propose_sends_prepare:
  assumes "\<not> one_phase cf i opaque val s"
  shows "wf_PaxosMsg (propose_sends cf i opaque val s)" "m_type (propose_sends cf i opaque val s) = mt kMsgType_PREPARE_REQ"
    "p_pinst (m_body (propose_sends cf i opaque val s)) = i"
    "p_pentry (m_body (propose_sends cf i opaque val s)) = is_last_chosen_entry s + 1"
    "p_pid (m_body (propose_sends cf i opaque val s)) = p_pid (m_body (propose_msg cf i opaque val s))"
    "p_value_id (m_body (propose_sends cf i opaque val s)) = p_value_id (m_body (propose_msg cf i opaque val s))"
    "p_term (m_body (propose_sends cf i opaque val s)) = is_term s" "p_term (m_body (propose_msg cf i opaque val s)) = is_term s"
    "p_data (m_body (propose_msg cf i opaque val s)) = val" "p_size (m_body (propose_msg cf i opaque val s)) = of_nat (length val)"
    "p_pinst (m_body (propose_msg cf i opaque val s)) = i" "p_pentry (m_body (propose_msg cf i opaque val s)) = is_last_chosen_entry s + 1"
  using assms by (simp_all add: propose_sends_def propose_msg_def Let_def wf_PaxosMsg_def wf_Proposal_def)

text \<open>Nothing lost: the round succeeds.\<close>

lemma round_outcome:
  assumes "ps_inv P" and "ps_slot P pinst = Some i" and "ps_at P i = Some s" and "is_req s = None"
    and "length val < 2 ^ 31" and "\<not> one_phase (ps_config P) i opaque val s"
    and "ps_conn P = Some mng" and "cm_conn mng \<noteq> []"
    and "p = p_pid (m_body (propose_msg (ps_config P) i opaque val s))" and "p \<noteq> 0"
    and "k = is_last_chosen_entry s + 1" and "k \<noteq> 0" and "k \<noteq> npos"
    and "saves S" and "\<forall>ac \<in> set acs. ready_for S i k p ac"
    and "unat (cf_total_acceptor (ps_config P)) < 256" and "length acs = unat (cf_total_acceptor (ps_config P)) div 2 + 1"
  shows "\<exists>P' s' acs'. two_phase_round S opaque val pinst P acs = Some (P', acs') \<and>
    ps_results P' = ps_results P @ [(Some (ps_futures P), err kErrCode_OK)] \<and>
    ps_at P' i = Some s' \<and> is_req s' = None \<and> is_last_chosen_entry s' = k \<and> length acs' = length acs \<and>
    (\<forall>ac \<in> set acs'. ac_inv S ac \<and> (\<exists>q. en_accepted (ac_entry S ac i k) = Some q \<and> p_pid q = p \<and> p_data q = val \<and>
       p_status q = st kPaxosState_ACCEPTED))"
proof -
  let ?cf = "ps_config P"
  let ?req = "propose_msg ?cf i opaque val s" and ?pm = "propose_sends ?cf i opaque val s"
  note pm = propose_sends_prepare [OF assms(6)]
  obtain P1 s1 where P1: "proposer_step (Propose opaque val pinst) P = Some P1" "ps_at P1 i = Some s1"
    "gathering i ?req 0 s1" "is_term s1 - 1 = is_term s" "is_ret s1 = \<lparr>pr_future = Some (ps_futures P), pr_set = False\<rparr>"
    "is_last_chosen_entry s1 = is_last_chosen_entry s" "ps_sent P1 = ps_sent P @ bcast P ?pm" "ps_results P1 = ps_results P"
    "ps_conn P1 = ps_conn P" "ps_config P1 = ps_config P" "length (ps_states P1) = length (ps_states P)"
    using propose_gathering [OF assms(1-6)] by blast
  have lens: "length (ps_states P1) < 2 ^ 64" "ps_conn P1 \<noteq> None" "ps_conn P1 = Some mng"
    using assms(1,7) P1(9,11) by (simp_all add: ps_inv_def)
  let ?R = "\<lambda>rsp. grants p rsp \<and> p_pid (m_body rsp) = p \<and> p_pinst (m_body rsp) = i \<and>
     p_value_id (m_body rsp) = p_value_id (m_body ?pm) \<and> p_term (m_body rsp) = p_term (m_body ?pm)"
  have "\<forall>ac \<in> set acs. \<exists>ac' rsp. asks S ?pm ac = Some (ac', rsp) \<and> promised_to S i k p ac' \<and> ?R rsp"
    using asks_prepare [of S i k p _ ?pm] pm assms(9-11,14,15) by metis
  from ask_all_each [OF this] obtain acs1 rsps where A1: "ask_all S ?pm acs = Some (acs1, rsps)" "length acs1 = length acs"
    "length rsps = length acs" "\<forall>ac \<in> set acs1. promised_to S i k p ac" "\<forall>rsp \<in> set rsps. ?R rsp" by blast
  let ?k1 = "\<lparr>rk_pinst = i, rk_entry = k, rk_term = is_term s\<rparr>"
  have fine: "\<forall>m \<in> set (map (answer_to ?k1) rsps). rm_pinst m = i \<and> rm_term m = is_term s1 - 1 \<and>
      pred_option (promises_for i ?req) (rm_msg m) \<and> rm_msg m \<noteq> None"
    using A1(5) P1(4) pm assms(9) by (auto simp: answer_to_def promises_for_def)
  have ne: "map (answer_to ?k1) rsps \<noteq> []" using A1(3) assms(17) by auto
  obtain s2 m where P2: "proposer_run (map Respond (map (answer_to ?k1) rsps)) P1 = Some (ps_upd i s2 (bcast P1 m) [] P1)"
    "polling i m 0 s2" "same_proposal m ?req" "m_type m = mt kMsgType_ACCEPT_REQ" "is_term s2 = is_term s1"
    "is_ret s2 = is_ret s1" "is_last_chosen_entry s2 = is_last_chosen_entry s1"
    using promises_run [OF P1(2,3) lens(2,1) fine _ _ _ ne] assms(9,10,16,17) P1(10) A1(3) by auto
  let ?P2 = "ps_upd i s2 (bcast P1 m) [] P1"
  obtain c1 where "last (ps_sent P1) = (c1, ?pm, ?k1)" "ps_sent P1 \<noteq> []"
    using last_bcast [OF assms(7,8), of "ps_sent P" ?pm] P1(7) pm assms(11) by auto
  then have E1: "exchange S P1 acs = Some (?P2, acs1)"
    using A1(1) P2(1) by (simp add: exchange_def)
  have mb: "p_pinst (m_body m) = i" "p_pentry (m_body m) = k" "p_pid (m_body m) = p" "p_data (m_body m) = val"
    "p_size (m_body m) = of_nat (length val)" "p_term (m_body m) = is_term s"
    using P2(3) pm assms(9,11) by (simp_all add: same_proposal_def)
  have "length val < 2147483648" using assms(5) by simp
  then have "int (length val) < 2147483648" by linarith
  then have wf: "wf_PaxosMsg m"
    using mb(4,5) by (simp add: wf_PaxosMsg_def wf_Proposal_def unat_of_nat word_less_nat_alt)
  let ?V = "\<lambda>rsp. accept_verdict m rsp = Voted \<and> p_pinst (m_body rsp) = i \<and> p_pentry (m_body rsp) = k"
  have "\<forall>ac \<in> set acs1. \<exists>ac' rsp. asks S m ac = Some (ac', rsp) \<and> accepted_by S i k (m_body m) ac' \<and> ?V rsp"
    using asks_accept [of S i k p _ m] A1(4) assms(14) wf P2(4) mb by blast
  from ask_all_each [OF this] obtain acs2 votes where A2: "ask_all S m acs1 = Some (acs2, votes)" "length acs2 = length acs1"
    "length votes = length acs1" "\<forall>ac \<in> set acs2. accepted_by S i k (m_body m) ac" "\<forall>rsp \<in> set votes. ?V rsp" by blast
  have at2: "ps_at ?P2 i = Some s2" using P1(2) by (rule ps_at_upd_same)
  have vts: "\<forall>x \<in> set (map (answer_to ?k1) votes). votes_for i (is_term s2 - 1) m x"
    using A2(5) P1(4) P2(5) by (auto simp: votes_for_def answer_to_def)
  have ne2: "map (answer_to ?k1) votes \<noteq> []" using A2(2,3) A1(2) assms(17) by auto
  have c2: "ps_conn ?P2 \<noteq> None" "length (ps_states ?P2) < 2 ^ 64" "unat (cf_total_acceptor (ps_config ?P2)) < 256"
    "0 + length (map (answer_to ?k1) votes) = unat (cf_total_acceptor (ps_config ?P2)) div 2 + 1"
    using lens assms(16,17) P1(10) A1(2) A2(2,3) by simp_all
  from votes_run [OF at2 P2(2) c2(1,2) vts c2(3,4) ne2] obtain P3 s3 rsp where
    P3: "proposer_run (map Respond (map (answer_to ?k1) votes)) ?P2 = Some P3"
      "rm_msg (last (map (answer_to ?k1) votes)) = Some rsp"
      "ps_results P3 = ps_results ?P2 @ [(pr_future (is_ret s2), err kErrCode_OK)]" "ps_at P3 i = Some s3" "is_req s3 = None"
      "p_pentry (m_body rsp) \<notin> {0, npos} \<and> is_last_chosen_entry s2 \<le> p_pentry (m_body rsp) \<longrightarrow>
         is_last_chosen_entry s3 = p_pentry (m_body rsp)"
    by blast
  have "last votes \<in> set votes" using ne2 by simp
  moreover have "rsp = last votes" using P3(2) ne2 by (simp add: last_map answer_to_def)
  ultimately have "p_pentry (m_body rsp) = k" using A2(5) by blast
  moreover have "is_last_chosen_entry s2 \<le> k"
  proof -
    have "is_last_chosen_entry s \<noteq> npos" using assms(11,12) by auto
    then have "unat k = Suc (unat (is_last_chosen_entry s))" unfolding assms(11) by (rule unat_Suc_noover)
    then show ?thesis using P2(7) P1(6) by (simp add: word_le_nat_alt)
  qed
  ultimately have k3: "is_last_chosen_entry s3 = k" using P3(6) assms(12,13) by simp
  obtain c2 where "last (ps_sent ?P2) = (c2, m, ?k1)" "ps_sent ?P2 \<noteq> []"
    using last_bcast [OF lens(3) assms(8), of "ps_sent P1" m] mb by auto
  then have E2: "exchange S ?P2 acs1 = Some (P3, acs2)"
    using A2(1) P3(1) by (simp add: exchange_def)
  have "two_phase_round S opaque val pinst P acs = Some (P3, acs2)"
    using P1(1) E1 E2 by (simp add: two_phase_round_def del: proposer_step.simps)
  moreover have "\<forall>ac \<in> set acs2. ac_inv S ac \<and> (\<exists>q. en_accepted (ac_entry S ac i k) = Some q \<and> p_pid q = p \<and> p_data q = val \<and>
       p_status q = st kPaxosState_ACCEPTED)"
    using A2(4) mb by (auto simp: accepted_by_def)
  ultimately show ?thesis
    using P3(3-5) k3 P1(5,8) P2(6) A1(2) A2(2) by (intro exI [of _ P3] exI [of _ s3] exI [of _ acs2]) simp
qed

end
