(* ===== verification/Paxos_Node.thy ===== *)
theory Paxos_Node
  imports Proposer_Inv Acceptor
begin

text \<open>
  The node, \<open>src/core/paxos.h\<close> and \<open>src/core/paxos.cpp\<close>: it makes an acceptor and a proposer from one
  configuration, gives the first the log manager and the second the connection manager, and passes
  calls on. The managers are shared pointers; here the log manager is the one inside the acceptor and the
  connection manager the one inside the proposer, since the node itself never uses them again.
\<close>

section \<open>The class\<close>

record ('db, 'cb, 'conn) Paxos =
  px_started :: bool
  px_config :: Configure
  px_pg_mapper :: "nat \<times> PaxosGroup"
  px_acceptor :: "('db, 'cb) Acceptor"
  px_proposer :: "'conn Proposer"

definition Paxos_new :: "u8 \<Rightarrow> u64 \<Rightarrow> Configure \<Rightarrow> ('db, 'cb, 'conn) Paxos option" where
  "Paxos_new junk now config = do {
     proposer \<leftarrow> Proposer_new junk now config;
     mp \<leftarrow> CreateGroup (sint (cf_pg_type config));
     Some \<lparr>px_started = False, px_config = config, px_pg_mapper = mp,
           px_acceptor = \<lparr>ac_wpool = WorkerPool_new, ac_pmn = \<lparr>pm_config = config, pm_mngs = []\<rparr>, ac_config = config\<rparr>,
           px_proposer = Proposer_SetConnMng (ConnMng_new config) proposer\<rparr>
   }"

definition Paxos_Start :: "('db, 'cb, 'conn) Paxos \<Rightarrow> (('db, 'cb, 'conn) Paxos \<times> int) option" where
  "Paxos_Start px =
     (if px_started px then Some (px, 0)
      else map_option (\<lambda>(ac, ret). (px\<lparr>px_started := True, px_acceptor := ac\<rparr>, ret)) (Acceptor_StartWorker (px_acceptor px)))"

definition Paxos_Stop :: "('db, 'cb, 'conn) Paxos \<Rightarrow> ('db, 'cb, 'conn) Paxos \<times> int" where
  "Paxos_Stop px =
     (if \<not> px_started px then (px, 0)
      else (let (ac, ret) = Acceptor_StopWorker (px_acceptor px) in (px\<lparr>px_acceptor := ac\<rparr>, ret)))"

definition Paxos_ProposeAsync ::
    "u64 \<Rightarrow> u8 list \<Rightarrow> u64 \<Rightarrow> ('db, 'cb, 'conn) Paxos \<Rightarrow> (('db, 'cb, 'conn) Paxos \<times> nat) option" where
  "Paxos_ProposeAsync opaque val pinst px =
     map_option (\<lambda>(P, f). (px\<lparr>px_proposer := P\<rparr>, f)) (Proposer_ProposeAsync opaque val pinst (px_proposer px))"

section \<open>Runs of a node\<close>

text \<open>
  Calls of the node, and the events that reach its proposer from outside. A \<open>NodeEvent\<close> is a
  response or timeout taken from the proposer's queue, or an entry learnt from the log.
\<close>

datatype node_op = NodeStart | NodeStop | NodePropose u64 "u8 list" u64 | NodeEvent proposer_event

fun node_step :: "node_op \<Rightarrow> ('db, 'cb, 'conn) Paxos \<Rightarrow> ('db, 'cb, 'conn) Paxos option" where
  "node_step NodeStart px = map_option fst (Paxos_Start px)"
| "node_step NodeStop px = Some (fst (Paxos_Stop px))"
| "node_step (NodePropose opaque val pinst) px = map_option fst (Paxos_ProposeAsync opaque val pinst px)"
| "node_step (NodeEvent e) px = map_option (\<lambda>P. px\<lparr>px_proposer := P\<rparr>) (proposer_step e (px_proposer px))"

fun node_run :: "node_op list \<Rightarrow> ('db, 'cb, 'conn) Paxos \<Rightarrow> ('db, 'cb, 'conn) Paxos option" where
  "node_run [] px = Some px"
| "node_run (op # ops) px = (case node_step op px of None \<Rightarrow> None | Some px' \<Rightarrow> node_run ops px')"

text \<open>What a proposer without connections can be told: its own timeouts, and entries of the log.\<close>

fun unconnected_op :: "node_op \<Rightarrow> bool" where
  "unconnected_op (NodePropose opaque val pinst) \<longleftrightarrow> length val < 2 ^ 32"
| "unconnected_op (NodeEvent (Respond m)) \<longleftrightarrow> rm_msg m = None"
| "unconnected_op (NodeEvent (Propose opaque val pinst)) \<longleftrightarrow> length val < 2 ^ 32"
| "unconnected_op _ \<longleftrightarrow> True"

definition unconnected :: "'conn Proposer \<Rightarrow> bool" where
  "unconnected P \<longleftrightarrow> ps_inv P \<and> (\<forall>mng. ps_conn P = Some mng \<longrightarrow> cm_conn mng = []) \<and> ps_sent P = [] \<and>
     (\<forall>(f, v) \<in> set (ps_results P). v \<in> {err kErrCode_TIMEOUT, err kErrCode_WORKING_IN_PROPGRESS})"

lemma unconnected_bcast: "unconnected P \<Longrightarrow> bcast P pm = []" "unconnected P \<Longrightarrow> bcasts P ms = []"
  by (auto simp: unconnected_def bcast_def bcasts_def split: option.splits)

lemma timeout_results: "timeout_step s = Some (s', ms, res, ret) \<Longrightarrow> \<forall>(f, v) \<in> set res. v = err kErrCode_TIMEOUT"
  by (auto simp: timeout_step_def settle_def Let_def split: if_splits)

lemma unconnected_Respond:
  assumes "unconnected P" and "rm_msg m = None" and "Proposer_handleRpcResponse m P = Some (P', r)"
  shows "unconnected P'"
proof -
  have inv: "ps_inv P" using assms(1) by (simp add: unconnected_def)
  obtain i where i: "ps_slot P (rm_pinst m) = Some i" using ps_slot_inv [OF inv] by blast
  let ?m = "m\<lparr>rm_pinst := i\<rparr>"
  obtain s where s: "ps_at P i = Some s" using ps_slot_inv [OF inv, of "rm_pinst m"] i by auto
  have "ps_slot P i = Some i"
    using ps_slot_range [OF ps_at_range [OF s]] inv by (simp add: ps_inv_def)
  then have same: "Proposer_handleRpcResponse m P = Proposer_handleRpcResponse ?m P"
    using i by (simp add: Proposer_handleRpcResponse_def cong: if_cong)
  have "event_fine (Respond ?m) P" using s assms(2) by (simp add: rsp_fine_def)
  from handleRpcResponse_inv [OF inv this] obtain s1 s' ms res ret where
    h: "ps_at P i = Some s1" "response_step (ps_config P) (rm_term m) None s1 = Some (s', ms, res, ret)"
      "Proposer_handleRpcResponse ?m P = Some (ps_upd i s' (bcasts P ms) res P, ret)" "is_ok i s'" "balanced s1 s' res"
    using assms(2) by auto
  have "\<forall>(f, v) \<in> set res. v = err kErrCode_TIMEOUT"
    using h(2) by (auto simp: response_step_def split: option.splits if_splits dest!: timeout_results)
  moreover have "P' = ps_upd i s' [] res P" using h(3) same assms(3) unconnected_bcast(2) [OF assms(1)] by simp
  moreover have "ps_inv (ps_upd i s' [] res P)" using ps_inv_upd [OF inv h(1,4,5)] .
  ultimately show ?thesis using assms(1) by (auto simp: unconnected_def)
qed

lemma unconnected_Propose:
  assumes "unconnected P" and "length val < 2 ^ 32" and "Proposer_ProposeAsync opaque val pinst P = Some (P', f)"
  shows "unconnected P'"
proof -
  have inv: "ps_inv P" using assms(1) by (simp add: unconnected_def)
  have inv': "ps_inv P'" using ProposeAsync_inv [OF inv assms(2), of opaque pinst] assms(3) by auto
  obtain i s where i: "ps_slot P pinst = Some i" "ps_at P i = Some s" using ps_slot_inv [OF inv] by blast
  have c: "ps_conn P \<noteq> None" using inv by (simp add: ps_inv_def)
  show ?thesis
  proof (cases "is_req s")
    case None
    obtain tw where tw: "TimingWheel_AddTimeout (is_term s) (cf_timeout (ps_config P) * 2)
        \<lparr>rk_pinst = i, rk_entry = is_last_chosen_entry s + 1, rk_term = is_term s\<rparr> (ps_timeout P) = Some (tw, True)"
      using TimingWheel_AddTimeout_due [of "ps_timeout P"] inv unfolding ps_inv_def by blast
    from ProposeAsync_idle [OF c i None assms(2) tw, of opaque] assms(1,3) inv' unconnected_bcast(1) [OF assms(1)]
    show ?thesis by (auto simp: unconnected_def)
  next
    case (Some req)
    with ProposeAsync_busy [OF c i, of opaque val] assms(1,3) inv' show ?thesis by (auto simp: unconnected_def)
  qed
qed

lemma unconnected_Learn:
  assumes "unconnected P" and "Proposer_OnEntryChosen msg b P = Some (P', r)"
  shows "unconnected P'"
proof -
  have "ps_inv P'" using OnEntryChosen_inv [of P msg b] assms by (auto simp: unconnected_def)
  moreover have "ps_sent P' = ps_sent P" "ps_results P' = ps_results P" "ps_conn P' = ps_conn P"
    using assms(2) by (auto simp: Proposer_OnEntryChosen_def Proposer_UpdateChosenInfo_def ps_put_def Let_def
        split: Option.bind_splits if_splits prod.splits)
  ultimately show ?thesis using assms(1) by (simp add: unconnected_def)
qed

lemma unconnected_step:
  assumes "unconnected (px_proposer px)" and "unconnected_op op" and "node_step op px = Some px'"
  shows "unconnected (px_proposer px')"
proof (cases op)
  case (NodeEvent e)
  with assms show ?thesis
    by (cases e) (auto intro: unconnected_Propose unconnected_Respond unconnected_Learn)
qed (use assms in \<open>auto simp: Paxos_Start_def Paxos_Stop_def Paxos_ProposeAsync_def split: if_splits prod.splits
       intro: unconnected_Propose\<close>)

lemma unconnected_run:
  "unconnected (px_proposer px) \<Longrightarrow> \<forall>op \<in> set ops. unconnected_op op \<Longrightarrow> node_run ops px = Some px' \<Longrightarrow>
   unconnected (px_proposer px')"
proof (induction ops arbitrary: px)
  case (Cons op ops)
  then show ?case by (auto split: option.splits intro: unconnected_step)
qed simp

lemma Paxos_new_unconnected:
  assumes "2 \<le> unat (cf_timeout config)" and "unat (cf_timeout config) \<le> 4001" and "0 < unat (cf_plog_inst_num config)"
    and "cf_total_proposer config = 3 \<or> cf_total_proposer config = 5" and "cf_pg_type config = PGT_Synod3 \<or> cf_pg_type config = PGT_Synod5"
  shows "\<exists>px :: ('db, 'cb, 'conn) Paxos. Paxos_new junk now config = Some px \<and> unconnected (px_proposer px) \<and> \<not> px_started px \<and>
    ac_wpool (px_acceptor px) = WorkerPool_new \<and> ac_config (px_acceptor px) = config"
proof -
  from Proposer_new_inv [OF assms(1,2,4,3), of junk now "ConnMng_new config"] obtain P :: "'conn Proposer" where
    P: "Proposer_new junk now config = Some P" "ps_inv (Proposer_SetConnMng (ConnMng_new config) P)" by blast
  have "ps_sent P = []" "ps_results P = []"
    using P(1) by (auto simp: Proposer_new_def Let_def split: Option.bind_splits)
  then have "unconnected (Proposer_SetConnMng (ConnMng_new config) P)"
    using P(2) by (simp add: unconnected_def Proposer_SetConnMng_def ConnMng_new_def)
  moreover have "\<exists>mp. CreateGroup (sint (cf_pg_type config)) = Some mp"
    using CreateGroup_Some [of "sint (cf_pg_type config)"] assms(5) by (auto simp: PGT_Synod3_def PGT_Synod5_def)
  ultimately show ?thesis using P(1) by (auto simp: Paxos_new_def)
qed

end
