(* ===== verification/Node_Properties.thy ===== *)
theory Node_Properties
  imports Paxos_Round Paxos_Node
begin

text \<open>
  Properties of the whole: a round of the protocol, and what a node is without the connections and
  the log that its user has to set up.
\<close>

section \<open>A round\<close>

text \<open>
  C6: A proposal goes through. Let an idle instance of the proposer start a two-phase round, let every
  acceptor of a majority have nothing accepted for the entry and only lower promises, and let
  each of them handle the prepare request, then the accept request, and answer. Then the client is told
  success, the instance is idle with the entry as its last chosen one, and each of these
  acceptors has accepted the proposed id and value.
\<close>

theorem two_phase_round_succeeds:
  assumes "ps_inv P" and "ps_slot P pinst = Some i" and "ps_at P i = Some s" and "is_req s = None"
    and "length val < 2 ^ 31" and "\<not> one_phase (ps_config P) i opaque val s"
    and "ps_conn P = Some mng" and "cm_conn mng \<noteq> []"
    and "p = p_pid (m_body (propose_msg (ps_config P) i opaque val s))" and "p \<noteq> 0"
    and "k = is_last_chosen_entry s + 1" and "k \<noteq> 0" and "k \<noteq> npos"
    and "saves S" and "\<forall>ac \<in> set acs. ready_for S i k p ac"
    and "unat (cf_total_acceptor (ps_config P)) < 256" and "length acs = unat (cf_total_acceptor (ps_config P)) div 2 + 1"
  shows "\<exists>P' s' acs'. two_phase_round S opaque val pinst P acs = Some (P', acs') \<and>
    ps_results P' = ps_results P @ [(Some (ps_futures P), err kErrCode_OK)] \<and>
    ps_at P' i = Some s' \<and> is_req s' = None \<and> is_last_chosen_entry s' = k \<and> length acs' = length acs \<and>
    (\<forall>ac \<in> set acs'. ac_inv S ac \<and> (\<exists>q. en_accepted (ac_entry S ac i k) = Some q \<and> p_pid q = p \<and> p_data q = val \<and>
       p_status q = st kPaxosState_ACCEPTED))"
  using assms by (rule round_outcome)

lemma example_ready: "ready_for null_store 0 1 2 example_acceptor"
proof -
  have "em_last_chosen_entry (ac_mng example_acceptor 0) = npos" "en_accepted (ac_entry null_store example_acceptor 0 1) = None"
    "en_promised (ac_entry null_store example_acceptor 0 1) = None" by code_simp+
  then show ?thesis by (simp add: ready_for_def behind_def)
qed

theorem two_phase_round_succeeds_witness:
  "\<exists>P' s' acs'. two_phase_round null_store 7 [65] 0 example_proposer [example_acceptor, example_acceptor] = Some (P', acs') \<and>
    ps_results P' = ps_results example_proposer @ [(Some (ps_futures example_proposer), err kErrCode_OK)] \<and>
    ps_at P' 0 = Some s' \<and> is_req s' = None \<and> is_last_chosen_entry s' = 1 \<and>
    length acs' = length [example_acceptor, example_acceptor] \<and>
    (\<forall>ac \<in> set acs'. ac_inv null_store ac \<and> (\<exists>q. en_accepted (ac_entry null_store ac 0 1) = Some q \<and> p_pid q = 2 \<and>
       p_data q = [65] \<and> p_status q = st kPaxosState_ACCEPTED))"
proof (rule two_phase_round_succeeds [OF example_proposer_inv(1) example_idle])
  show "ps_conn example_proposer = Some (the (ps_conn example_proposer))" by code_simp
  show "saves null_store" by (simp add: saves_def null_store_def)
  show "\<forall>ac \<in> set [example_acceptor, example_acceptor]. ready_for null_store 0 1 2 ac" by (simp add: example_ready)
qed (simp | code_simp)+

section \<open>A node on its own\<close>

text \<open>
  C13: A node that is only constructed never reaches a peer. The class \<open>Paxos\<close> creates its connection manager
  without connections and offers no call that adds any. Whatever is proposed, started, stopped or learnt, and
  whenever timeouts fire, no message is sent, and the only values a client ever gets are
  \<open>TIMEOUT\<close> and \<open>WORKING_IN_PROPGRESS\<close>.
\<close>

theorem fresh_node_never_sends:
  fixes px :: "('db, 'cb, 'conn) Paxos"
  assumes "Paxos_new junk now config = Some px" and "\<forall>op \<in> set ops. unconnected_op op" and "node_run ops px = Some px'"
    and "2 \<le> unat (cf_timeout config)" and "unat (cf_timeout config) \<le> 4001" and "0 < unat (cf_plog_inst_num config)"
    and "cf_total_proposer config = 3 \<or> cf_total_proposer config = 5" and "cf_pg_type config = PGT_Synod3 \<or> cf_pg_type config = PGT_Synod5"
  shows "ps_sent (px_proposer px') = [] \<and>
    snd ` set (ps_results (px_proposer px')) \<subseteq> {err kErrCode_TIMEOUT, err kErrCode_WORKING_IN_PROPGRESS}"
proof -
  obtain px0 :: "('db, 'cb, 'conn) Paxos" where "Paxos_new junk now config = Some px0" "unconnected (px_proposer px0)"
    using Paxos_new_unconnected [OF assms(4-8)] by blast
  then have "unconnected (px_proposer px)" using assms(1) by simp
  then have "unconnected (px_proposer px')" using assms(2,3) by (rule unconnected_run)
  then show ?thesis by (auto simp: unconnected_def)
qed

definition example_node :: "(unit, nat, nat) Paxos" where
  "example_node = the (Paxos_new 0 5 example_config)"

definition example_ops :: "node_op list" where
  "example_ops = [NodeStart, NodePropose 7 [65] 0, NodePropose 8 [66] 0,
     NodeEvent (Respond \<lparr>rm_term = 0, rm_pinst = 0, rm_entry = 1, rm_msg = None\<rparr>)]"

lemma example_config_fine:
  "2 \<le> unat (cf_timeout example_config)" "unat (cf_timeout example_config) \<le> 4001" "0 < unat (cf_plog_inst_num example_config)"
  "cf_total_proposer example_config = 3 \<or> cf_total_proposer example_config = 5"
  "cf_pg_type example_config = PGT_Synod3 \<or> cf_pg_type example_config = PGT_Synod5"
  by (simp_all add: example_config_def Configure_default_def)

lemma example_node_new: "Paxos_new 0 5 example_config = Some example_node"
proof -
  obtain px :: "(unit, nat, nat) Paxos" where "Paxos_new 0 5 example_config = Some px"
    using Paxos_new_unconnected [OF example_config_fine] by blast
  then show ?thesis by (simp add: example_node_def)
qed

theorem fresh_node_never_sends_witness:
  "ps_sent (px_proposer (the (node_run example_ops example_node))) = [] \<and>
    snd ` set (ps_results (px_proposer (the (node_run example_ops example_node)))) \<subseteq>
      {err kErrCode_TIMEOUT, err kErrCode_WORKING_IN_PROPGRESS}"
proof (rule fresh_node_never_sends [OF example_node_new _ _ example_config_fine])
  show "\<forall>op \<in> set example_ops. unconnected_op op" by (simp add: example_ops_def)
  have "map_option px_started (node_run example_ops example_node) \<noteq> None" by code_simp
  then show "node_run example_ops example_node = Some (the (node_run example_ops example_node))" by auto
qed

text \<open>
  A stopped node cannot be started again. \<open>Stop\<close> leaves \<open>started_\<close> set, so a later \<open>Start\<close> reports
  success and does nothing: the acceptor refuses every message with a full-queue error and keeps its state.
\<close>

theorem stopped_node_stays_stopped:
  assumes "\<not> px_started px" and "node_run [NodeStart, NodeStop] px = Some px1"
  shows "Paxos_Start px1 = Some (px1, 0) \<and>
    Acceptor_AddMsg msg cb (px_acceptor px1) = Some (px_acceptor px1, err kErrCode_ACCEPTOR_QUEUE_FULL)"
  using assms
  by (auto simp: Paxos_Start_def Paxos_Stop_def Acceptor_StartWorker_def Acceptor_StopWorker_def Acceptor_AddMsg_def
      WorkerPool_StartWorker_def WorkerPool_StopWorker_def WorkerPool_AddWork_def split: if_splits)

theorem stopped_node_stays_stopped_witness:
  "Paxos_Start (the (node_run [NodeStart, NodeStop] example_node)) = Some (the (node_run [NodeStart, NodeStop] example_node), 0) \<and>
    Acceptor_AddMsg (example_msg kMsgType_PREPARE_REQ 5 9) None (px_acceptor (the (node_run [NodeStart, NodeStop] example_node))) =
      Some (px_acceptor (the (node_run [NodeStart, NodeStop] example_node)), err kErrCode_ACCEPTOR_QUEUE_FULL)"
proof (rule stopped_node_stays_stopped [where px = example_node])
  show "\<not> px_started example_node" by code_simp
  have "map_option px_started (node_run [NodeStart, NodeStop] example_node) \<noteq> None" by code_simp
  then show "node_run [NodeStart, NodeStop] example_node = Some (the (node_run [NodeStart, NodeStop] example_node))" by auto
qed

section \<open>An answer for the wrong instance\<close>

text \<open>
  C19: The answer of an acceptor that is ahead is booked on instance 0. Such an acceptor answers an
  accept request with a blank body. When the answer to a request of another instance arrives, the proposer leaves
  that instance alone and counts a response for the proposal that instance 0 happens to be working on.
\<close>

theorem lag_answer_counts_for_instance_zero:
  assumes "ac_inv S ac" and "ac_lags ac (m_body msg)" and "m_type msg = mt kMsgType_ACCEPT_REQ" and "asks S msg ac = Some (ac', rsp)"
    and "ps_inv P" and "ps_at P i = Some s" and "i \<noteq> 0" and "is_req s \<noteq> None" and "phase s = ACCEPTING"
    and "ps_at P 0 = Some z" and "is_req z \<noteq> None"
  shows "\<exists>P' z'. Proposer_handleRpcResponse (answer_to \<lparr>rk_pinst = i, rk_entry = p_pentry (m_body msg), rk_term = is_term s - 1\<rparr> rsp) P =
      Some (P', err kErrCode_REMOTE_NEED_CATCHUP) \<and>
    ps_at P' i = Some s \<and> ps_at P' 0 = Some z' \<and> is_rsp_count z' = is_rsp_count z + 1"
proof -
  have rsp: "p_pinst (m_body rsp) = 0" "m_type rsp = mt kMsgType_ACCEPT_RSP" "m_errcode rsp = err kErrCode_REMOTE_NEED_CATCHUP"
    using handleAcceptReq_lags [OF assms(1,2)] assms(3,4)
    by (auto simp: asks_def Acceptor_doHandleMsg_def Acceptor_dispatch_def Acceptor_stamp_def AllocProposal_def calloc_Proposal_def)
  obtain req where req: "is_req z = Some req" using assms(11) by blast
  have ok: "is_ok 0 z" and c: "ps_conn P \<noteq> None" "length (ps_states P) < 2 ^ 64"
    using assms(5,10) by (simp_all add: ps_inv_def)
  have "p_pinst (m_body req) = 0" using ok req by (simp add: is_ok_def)
  from handleAcceptRsp_step [OF assms(10) req rsp(1) this c(1)] have
    h: "Proposer_handleAcceptRsp rsp P = lift_step 0 P (accept_step (ps_config P) rsp req z)" .
  have "accept_verdict req rsp = VoteRefused (err kErrCode_REMOTE_NEED_CATCHUP)"
    using rsp(2,3) by (simp add: accept_verdict_def)
  then have "\<exists>z' res. accept_step (ps_config P) rsp req z = Some (z', [], res, err kErrCode_REMOTE_NEED_CATCHUP) \<and>
      is_rsp_count z' = is_rsp_count z + 1"
    using ok req by (auto simp: accept_step_def accept_out_step_def settle_def is_ok_def Let_def)
  then obtain z' res where z: "accept_step (ps_config P) rsp req z = Some (z', [], res, err kErrCode_REMOTE_NEED_CATCHUP)"
    "is_rsp_count z' = is_rsp_count z + 1" by blast
  have "is_state s AND 0x7f = 23" using assms(9) by (simp add: phase_def)
  then have "Proposer_handleRpcResponse (answer_to \<lparr>rk_pinst = i, rk_entry = p_pentry (m_body msg), rk_term = is_term s - 1\<rparr> rsp) P =
      Proposer_handleAcceptRsp rsp P"
    using assms(6,8) ps_slot_range [OF ps_at_range [OF assms(6)] c(2)]
    by (auto simp: Proposer_handleRpcResponse_def answer_to_def)
  then show ?thesis
    using h z assms(6,7) ps_at_upd [OF ps_at_range [OF assms(10)]] by (simp add: lift_step_def)
qed

text \<open>An acceptor that has chosen entry 1 of instance 1, and a proposer busy with that entry in both instances.\<close>

definition in_instance :: "u64 \<Rightarrow> PaxosMsg \<Rightarrow> PaxosMsg" where
  "in_instance i msg = msg\<lparr>m_body := (m_body msg)\<lparr>p_pinst := i\<rparr>\<rparr>"

definition ahead_acceptor :: "(unit, nat) Acceptor" where
  "ahead_acceptor = after_requests [in_instance 1 (example_msg kMsgType_ACCEPT_REQ 5 9), in_instance 1 (example_msg kMsgType_CHOSEN_REQ 5 9)]"

definition late_request :: PaxosMsg where
  "late_request = in_instance 1 (example_msg kMsgType_ACCEPT_REQ 6 8)"

definition late_answer :: PaxosMsg where
  "late_answer = snd (the (asks null_store late_request ahead_acceptor))"

definition promise_in_1 :: RpcResponseMsg where
  "promise_in_1 = (let r = example_rsp kMsgType_PREPARE_RSP 0 kPaxosState_PROMISED 1
     in r\<lparr>rm_pinst := 1, rm_msg := map_option (in_instance 1) (rm_msg r)\<rparr>)"

definition busy_proposer :: "nat Proposer" where
  "busy_proposer = example_run [Propose 7 [65] 0, Propose 7 [65] 1, Respond promise_in_1, Respond promise_in_1]"

theorem lag_answer_counts_for_instance_zero_witness:
  "\<exists>P' z'. Proposer_handleRpcResponse (answer_to \<lparr>rk_pinst = 1, rk_entry = p_pentry (m_body late_request),
       rk_term = is_term (ps_states busy_proposer ! 1) - 1\<rparr> late_answer) busy_proposer =
      Some (P', err kErrCode_REMOTE_NEED_CATCHUP) \<and>
    ps_at P' 1 = Some (ps_states busy_proposer ! 1) \<and> ps_at P' 0 = Some z' \<and>
    is_rsp_count z' = is_rsp_count (ps_states busy_proposer ! 0) + 1"
proof (rule lag_answer_counts_for_instance_zero)
  show "ac_inv null_store ahead_acceptor"
    unfolding ahead_acceptor_def
    by (rule ac_inv_after) (simp add: in_instance_def example_msg_def wf_PaxosMsg_def wf_Proposal_def example_proposal_def
        AllocProposal_def calloc_Proposal_def AllocProposalMsg_def)
  show "asks null_store late_request ahead_acceptor = Some (fst (the (asks null_store late_request ahead_acceptor)), late_answer)"
    by code_simp
  show "ps_inv busy_proposer" unfolding busy_proposer_def by (rule example_run_inv) code_simp
  show "ps_at busy_proposer 1 = Some (ps_states busy_proposer ! 1)" by code_simp
  show "ps_at busy_proposer 0 = Some (ps_states busy_proposer ! 0)" by code_simp
qed code_simp+

section \<open>When a proposal times out\<close>

lemma rounded_twice:
  assumes "3 \<le> unat T" and "unat T \<le> 4001"
  shows "tw_rounded (T * 2) (int (unat T) - 1) = 3"
proof -
  have u: "unat (T * 2) = unat T * 2" using assms(2) by (simp add: unat_word_ariths)
  have n: "nat (int (unat T) - 1) = unat T - 1" by linarith
  obtain g where g: "unat T = Suc g" "2 \<le> g" using assms(1) by (cases "unat T") auto
  have "(Suc g * 2 + g - 1) div g = 3"
    by (rule div_nat_eqI) (use g(2) in simp_all)
  then show ?thesis by (simp add: tw_rounded_def u n g(1))
qed

text \<open>
  The timer of a proposal fires in the third tick, unless the timeout is configured too long. A
  proposer with the configured timeout T ms has a tick of T - 1 ms and 4000 / (T - 1) slots; the timer of a new
  proposal, set to 2 T, is due in tick 3 if T is from 3 to 1001, but in the very next tick if
  T is from 1002 to 1334.
\<close>

theorem proposal_timer_tick:
  assumes "ps_inv P" and "T = cf_timeout (ps_config P)" and "3 \<le> unat T" and "unat T \<le> 1334"
    and "tw_granularity_ms (ps_timeout P) = int (unat T) - 1" and "length (tw_wheel (ps_timeout P)) = 4000 div (unat T - 1)"
    and "ps_slot P pinst = Some i" and "ps_at P i = Some s" and "is_req s = None" and "length val < 2 ^ 32"
  shows "\<exists>P' f. Proposer_ProposeAsync opaque val pinst P = Some (P', f) \<and>
    (\<forall>j. tw_due j (ps_timeout P') = tw_due j (ps_timeout P) @
      (if j = (if unat T \<le> 1001 then 3 else 0)
       then [(is_term s, \<lparr>rk_pinst = i, rk_entry = is_last_chosen_entry s + 1, rk_term = is_term s\<rparr>)] else []))"
proof -
  let ?tw = "ps_timeout P"
  have "tw_inv ?tw" "tw_rounded (T * 2) (tw_granularity_ms ?tw) + length (tw_wheel ?tw) < 2 ^ 32" "ps_conn P \<noteq> None"
    using assms(1,2) by (simp_all add: ps_inv_def)
  note inv = this
  have g: "tw_rounded (T * 2) (tw_granularity_ms ?tw) = 3" using rounded_twice [of T] assms(3-5) by simp
  have m: "3 mod length (tw_wheel ?tw) = (if unat T \<le> 1001 then 3 else 0)"
  proof (cases "unat T \<le> 1001")
    case True
    then have "4 * (unat T - 1) \<le> 4000" by simp
    then have "4 \<le> 4000 div (unat T - 1)" using assms(3) by (simp add: less_eq_div_iff_mult_less_eq)
    then show ?thesis using True assms(6) by simp
  next
    case False
    have "4000 div (unat T - 1) = 3" by (rule div_nat_eqI) (use False assms(4) in simp_all)
    then show ?thesis using False assms(6) by simp
  qed
  obtain tw where tw: "TimingWheel_AddTimeout (is_term s) (T * 2)
      \<lparr>rk_pinst = i, rk_entry = is_last_chosen_entry s + 1, rk_term = is_term s\<rparr> ?tw = Some (tw, True)"
    "\<forall>j. tw_due j tw = tw_due j ?tw @ (if j = 3 mod length (tw_wheel ?tw)
      then [(is_term s, \<lparr>rk_pinst = i, rk_entry = is_last_chosen_entry s + 1, rk_term = is_term s\<rparr>)] else [])"
    using TimingWheel_AddTimeout_due [OF inv(1,2)] g by metis
  from ProposeAsync_idle [OF inv(3) assms(7-10), of tw opaque] tw m assms(2) show ?thesis by simp
qed

theorem proposal_timer_tick_witness:
  "\<exists>P' f. Proposer_ProposeAsync 7 [65] 0 example_proposer = Some (P', f) \<and>
    (\<forall>j. tw_due j (ps_timeout P') = tw_due j (ps_timeout example_proposer) @
      (if j = (if unat (20 :: u32) \<le> 1001 then 3 else 0)
       then [(is_term (ps_states example_proposer ! 0), \<lparr>rk_pinst = 0,
         rk_entry = is_last_chosen_entry (ps_states example_proposer ! 0) + 1,
         rk_term = is_term (ps_states example_proposer ! 0)\<rparr>)] else []))"
proof (rule proposal_timer_tick [OF example_proposer_inv(1) _ _ _ _ _ example_idle])
  show "20 = cf_timeout (ps_config example_proposer)" by code_simp
  show "tw_granularity_ms (ps_timeout example_proposer) = int (unat (20 :: u32)) - 1" by code_simp
  have "length (tw_wheel (ps_timeout example_proposer)) = 210" by code_simp
  then show "length (tw_wheel (ps_timeout example_proposer)) = 4000 div (unat (20 :: u32) - 1)" by simp
qed simp_all

end
