(* ===== verification/Proposer_Types.thy ===== *)
theory Proposer_Types
  imports Example_Proposer
begin

text \<open>
  The shape of what the proposer sends. A message is a C struct whose \<open>size_\<close> says how many value bytes follow
  the header; the lemmas show that no message it sends claims more bytes than are allocated, and that each is
  a request of one of the three phases.
\<close>

definition sized :: "PaxosMsg \<Rightarrow> bool" where
  "sized m \<longleftrightarrow> unat (p_size (m_body m)) \<le> length (p_data (m_body m))"

definition request_typed :: "PaxosMsg \<Rightarrow> bool" where
  "request_typed m \<longleftrightarrow>
     m_type m = mt kMsgType_PREPARE_REQ \<and> p_size (m_body m) = 0 \<or>
     m_type m = mt kMsgType_ACCEPT_REQ \<and> sized m \<or>
     m_type m = mt kMsgType_CHOSEN_REQ \<and> p_size (m_body m) = 0 \<and> p_status (m_body m) = st kPaxosState_CHOSEN"

text \<open>The messages an instance keeps: its request and the last vote it heard of.\<close>

definition state_sized :: "InstanceState \<Rightarrow> bool" where
  "state_sized s \<longleftrightarrow> (\<forall>m. is_req s = Some m \<or> is_lastv s = Some m \<longrightarrow> sized m)"

definition step_typed :: "step_result \<Rightarrow> bool" where
  "step_typed r \<longleftrightarrow> (\<forall>s' ms res ret. r = Some (s', ms, res, ret) \<longrightarrow> state_sized s' \<and> (\<forall>m \<in> set ms. request_typed m))"

lemma step_none: "step_typed None"
  by (simp add: step_typed_def)

lemma sized_meta [simp]: "sized (with_meta rsp req) = sized req"
  by (simp add: sized_def)

lemma sized_header [simp]: "sized (Proposer_accept_header cf s m) = sized m"
  by (simp add: sized_def Proposer_accept_header_def)

lemma prepare_out_typed:
  "state_sized s \<Longrightarrow> \<forall>m \<in> set ms. request_typed m \<Longrightarrow> step_typed (prepare_out_step ret fin first ms s)"
  by (auto simp: step_typed_def prepare_out_step_def settle_def state_sized_def Let_def split: if_splits Option.bind_splits)

lemma accept_out_typed:
  "state_sized s \<Longrightarrow> \<forall>m \<in> set ms. request_typed m \<Longrightarrow> step_typed (accept_out_step ret fin ms s)"
  by (auto simp: step_typed_def accept_out_step_def settle_def state_sized_def Let_def split: if_splits Option.bind_splits)

lemma last_vote_sized:
  assumes "last_vote_step rsp req s = Some (s', has, first)" and "state_sized s" and "wf_PaxosMsg rsp"
  shows "state_sized s'"
  using assms
  by (auto simp: last_vote_step_def state_sized_def sized_def wf_PaxosMsg_def wf_Proposal_def split: if_splits Option.bind_splits)

lemma prepare_step_typed:
  assumes "state_sized s" and "is_req s = Some req" and "wf_PaxosMsg rsp"
  shows "step_typed (prepare_step cf rsp req s)"
proof (cases "prepare_verdict req rsp")
  case Higher
  then show ?thesis using assms(1,2)
    by (auto simp: prepare_step_def Let_def state_sized_def step_typed_def [of None] split: Option.bind_split intro!: prepare_out_typed)
next
  case Granted
  let ?req = "with_meta rsp req"
  let ?s2 = "s\<lparr>is_rsp_count := is_rsp_count s + 1, is_req := Some ?req\<rparr>"
  have s2: "state_sized ?s2" using assms(1,2) by (auto simp: state_sized_def)
  show ?thesis
  proof (cases "last_vote_step rsp ?req ?s2")
    case None
    then show ?thesis using Granted by (simp add: prepare_step_def Let_def step_typed_def)
  next
    case (Some x)
    obtain s3 has first where x: "x = (s3, has, first)" by (metis prod_cases3)
    let ?s4 = "s3\<lparr>is_valid_rsp_count := is_valid_rsp_count s3 + 1\<rparr>"
    have s4: "state_sized ?s4" using last_vote_sized [OF _ s2 assms(3)] Some x by (simp add: state_sized_def)
    have m: "state_sized (to_accepting (if has then ?s4 else ?s4\<lparr>is_req := Some (Proposer_accept_header cf ?s4 m)\<rparr>)) \<and>
        request_typed (Proposer_accept_header cf ?s4 m)"
      if "(if has then is_lastv ?s4 else is_req ?s4) = Some m" for m
      using s4 that by (auto simp: state_sized_def to_accepting_def request_typed_def split: if_splits)
    have out: "step_typed (prepare_out_step (m_errcode rsp) False first [Proposer_accept_header cf ?s4 m]
        (to_accepting (if has then ?s4 else ?s4\<lparr>is_req := Some (Proposer_accept_header cf ?s4 m)\<rparr>)))"
      if "(if has then is_lastv ?s4 else is_req ?s4) = Some m" for m
      using m [OF that] by (intro prepare_out_typed) simp_all
    have plain: "step_typed (prepare_out_step ret fin first [] ?s4)" for ret fin
      using s4 by (intro prepare_out_typed) simp_all
    show ?thesis
      using Granted Some x out plain step_none
      by (cases has; cases "if has then is_lastv ?s4 else is_req ?s4") (simp_all add: prepare_step_def Let_def)
  qed
qed (use assms(1) in \<open>auto simp: prepare_step_def Let_def state_sized_def intro!: prepare_out_typed\<close>)

lemma accept_step_typed:
  assumes "state_sized s" and "is_req s = Some req"
  shows "step_typed (accept_step cf rsp req s)"
proof -
  have "request_typed (Proposer_chosen_msg cf rsp)" by (simp add: request_typed_def Proposer_chosen_msg_def)
  then show ?thesis using assms
    by (cases "accept_verdict req rsp")
      (auto simp: accept_step_def Let_def state_sized_def step_typed_def [of None] split: Option.bind_split intro!: accept_out_typed)
qed

lemma response_step_typed:
  assumes "state_sized s" and "rsp_fine msg s"
  shows "step_typed (response_step cf term msg s)"
proof -
  have "step_typed (timeout_step s)" using assms(1)
    by (auto simp: step_typed_def timeout_step_def settle_def state_sized_def Let_def split: if_splits Option.bind_splits)
  then show ?thesis using assms prepare_step_typed [OF assms(1)] accept_step_typed [OF assms(1)]
    by (auto simp: response_step_def step_typed_def [of "Some x" for x] rsp_fine_def split: option.splits)
qed

section \<open>Runs\<close>

definition all_typed :: "'conn Proposer \<Rightarrow> bool" where
  "all_typed P \<longleftrightarrow> (\<forall>i s. ps_at P i = Some s \<longrightarrow> state_sized s) \<and> (\<forall>(c, m, k) \<in> set (ps_sent P). request_typed m)"

lemma all_typed_fields [simp]: "all_typed (P\<lparr>ps_timeout := a\<rparr>) = all_typed P"
  "all_typed (P\<lparr>ps_futures := b\<rparr>) = all_typed P" "all_typed (P\<lparr>ps_futures := b, ps_results := c\<rparr>) = all_typed P"
  by (simp_all add: all_typed_def ps_at_def)

lemma all_typed_upd:
  assumes "all_typed P" and "ps_at P i = Some s" and "state_sized s'" and "\<forall>(c, m, k) \<in> set snt. request_typed m"
  shows "all_typed (ps_upd i s' snt res P)"
proof -
  have "state_sized t" if "ps_at (ps_upd i s' snt res P) j = Some t" for j t
    using that assms(1,3) ps_at_upd [OF ps_at_range [OF assms(2)]] by (auto simp: all_typed_def split: if_splits)
  then show ?thesis using assms(1,4) by (auto simp: all_typed_def ps_upd_def)
qed

lemma bcast_typed: "request_typed m \<Longrightarrow> \<forall>(c, m', k) \<in> set (bcast P m). request_typed m'"
  by (auto simp: bcast_def split: option.splits)

lemma bcasts_typed: "\<forall>m \<in> set ms. request_typed m \<Longrightarrow> \<forall>(c, m', k) \<in> set (bcasts P ms). request_typed m'"
  using bcast_typed by (fastforce simp: bcasts_def)

lemma propose_typed:
  assumes "length val < 2 ^ 32" and "state_sized s"
  shows "state_sized (propose_state cf i opaque val f s)" and "request_typed (propose_sends cf i opaque val s)"
proof -
  have n: "unat (of_nat (length val) :: u32) = length val" using assms(1) by (simp add: unat_of_nat)
  have m: "sized (propose_msg cf i opaque val s)" by (simp add: sized_def propose_msg_def Let_def n)
  then show "request_typed (propose_sends cf i opaque val s)"
    by (auto simp: propose_sends_def request_typed_def Let_def propose_msg_def)
  have "is_lastv (fst (InstanceState_allocPaxosMsg cf i opaque k s)) = is_lastv s" for k
    by (simp add: InstanceState_allocPaxosMsg_def IdGen_GetAndInc_def Let_def split: prod.split)
  then show "state_sized (propose_state cf i opaque val f s)"
    using m assms(2) by (auto simp: propose_state_def state_sized_def Let_def)
qed

lemma proposer_step_typed:
  assumes "ps_inv P" and "all_typed P" and "event_fine e P" and "proposer_step e P = Some P'"
  shows "all_typed P'"
proof (cases e)
  case (Propose opaque val pinst)
  have val: "length val < 2 ^ 32" using assms(3) Propose by simp
  obtain i s where i: "ps_slot P pinst = Some i" "ps_at P i = Some s" using ps_slot_inv [OF assms(1)] by blast
  have c: "ps_conn P \<noteq> None" using assms(1) by (simp add: ps_inv_def)
  show ?thesis
  proof (cases "is_req s")
    case None
    have "tw_inv (ps_timeout P)" "tw_rounded (cf_timeout (ps_config P) * 2) (tw_granularity_ms (ps_timeout P)) + length (tw_wheel (ps_timeout P)) < 2 ^ 32"
      using assms(1) by (simp_all add: ps_inv_def)
    from TimingWheel_AddTimeout_due [OF this] obtain tw where
      tw: "TimingWheel_AddTimeout (is_term s) (cf_timeout (ps_config P) * 2)
        \<lparr>rk_pinst = i, rk_entry = is_last_chosen_entry s + 1, rk_term = is_term s\<rparr> (ps_timeout P) = Some (tw, True)"
      by metis
    have "state_sized s" using assms(2) i(2) by (simp add: all_typed_def)
    note t = propose_typed [OF val this]
    let ?Q = "P\<lparr>ps_futures := Suc (ps_futures P)\<rparr>"
    have "all_typed ?Q" using assms(2) by simp
    from all_typed_upd [OF this _ t(1), of i s "bcast P (propose_sends (ps_config P) i opaque val s)" "ps_config P" i opaque "ps_futures P" "[]"]
    have "all_typed (ps_upd i (propose_state (ps_config P) i opaque val (ps_futures P) s)
        (bcast P (propose_sends (ps_config P) i opaque val s)) [] ?Q)"
      using i(2) bcast_typed [OF t(2), of P "ps_config P" i opaque] by simp
    then show ?thesis
      using assms(4) ProposeAsync_idle [OF c i None val tw, of opaque] Propose by auto
  next
    case (Some req)
    then have "is_req s \<noteq> None" by simp
    from ProposeAsync_busy [OF c i this, of opaque val] assms(2,4) Propose show ?thesis by auto
  qed
next
  case (Respond m)
  from handleRpcResponse_inv [OF assms(1) assms(3) [unfolded Respond]] obtain s s' ms res ret where
    h: "ps_at P (rm_pinst m) = Some s" "response_step (ps_config P) (rm_term m) (rm_msg m) s = Some (s', ms, res, ret)"
      "Proposer_handleRpcResponse m P = Some (ps_upd (rm_pinst m) s' (bcasts P ms) res P, ret)" by blast
  have "rsp_fine (rm_msg m) s" "state_sized s"
    using assms(2,3) h(1) Respond by (auto simp: all_typed_def)
  then have t: "state_sized s'" "\<forall>m \<in> set ms. request_typed m"
    using response_step_typed [of s "rm_msg m" "ps_config P" "rm_term m"] h(2) by (auto simp: step_typed_def)
  show ?thesis
    using all_typed_upd [OF assms(2) h(1) t(1) bcasts_typed [OF t(2)]] assms(4) h(3) Respond by auto
next
  case (Learn msg from_plog)
  let ?pp = "m_body msg"
  obtain i s where i: "ps_slot P (p_pinst ?pp) = Some i" "ps_at P i = Some s" using ps_slot_inv [OF assms(1)] by blast
  let ?s = "fst (InstanceState_UpdateChosenInfo (p_pentry ?pp) (ucast (p_proposer ?pp)) s)"
  have "state_sized s" using assms(2) i(2) by (simp add: all_typed_def)
  then have "state_sized ?s" by (simp add: state_sized_def)
  then have "all_typed (ps_upd i ?s [] [] P)" using all_typed_upd [OF assms(2) i(2)] by simp
  moreover have "Proposer_UpdateChosenInfo i (p_pentry ?pp) (ucast (p_proposer ?pp)) P =
      Some (ps_upd i ?s [] [] P, snd (InstanceState_UpdateChosenInfo (p_pentry ?pp) (ucast (p_proposer ?pp)) s))"
    using UpdateChosenInfo_upd [OF ps_at_range [OF i(2)], of _ _ s "[]" "[]"] ps_upd_self [OF i(2)] by simp
  ultimately show ?thesis using i assms(2,4) Learn by (auto simp: Proposer_OnEntryChosen_def Let_def split: if_splits)
qed

lemma proposer_run_typed:
  assumes "ps_inv P" and "all_typed P" and "events_fine es P" and "proposer_run es P = Some P'"
  shows "all_typed P'"
  using assms
proof (induction es arbitrary: P)
  case (Cons e es)
  then obtain P1 where P1: "proposer_step e P = Some P1" "ps_inv P1"
    using proposer_step_inv [of P e] by auto
  with Cons proposer_step_typed [of P e P1] show ?case by auto
qed simp

text \<open>
  C11: Every message the proposer sends is well-typed. From a state in which no instance has a request or a
  last vote and nothing was sent, whatever calls, responses, timeouts and notifications follow: each message sent is a prepare
  request without a value, an accept request whose size field does not exceed the value bytes allocated with it, or a
  chosen request without a value whose status is chosen.
\<close>

theorem sent_messages_typed:
  assumes "ps_inv P" and "\<forall>s \<in> set (ps_states P). is_req s = None \<and> is_lastv s = None" and "ps_sent P = []"
    and "events_fine es P" and "proposer_run es P = Some P'" and "(conn, m, key) \<in> set (ps_sent P')"
  shows "m_type m = mt kMsgType_PREPARE_REQ \<and> p_size (m_body m) = 0 \<or>
    m_type m = mt kMsgType_ACCEPT_REQ \<and> unat (p_size (m_body m)) \<le> length (p_data (m_body m)) \<or>
    m_type m = mt kMsgType_CHOSEN_REQ \<and> p_size (m_body m) = 0 \<and> p_status (m_body m) = st kPaxosState_CHOSEN"
proof -
  have "all_typed P" using assms(2,3) by (auto simp: all_typed_def state_sized_def ps_at_def split: if_splits)
  then have "all_typed P'" using proposer_run_typed [OF assms(1) _ assms(4,5)] by blast
  then show ?thesis using assms(6) by (auto simp: all_typed_def request_typed_def sized_def)
qed

theorem sent_messages_typed_witness:
  "let m = fst (snd (ps_sent (example_run [Propose 7 [65] 0]) ! 0)) in
    m_type m = mt kMsgType_PREPARE_REQ \<and> p_size (m_body m) = 0 \<or>
    m_type m = mt kMsgType_ACCEPT_REQ \<and> unat (p_size (m_body m)) \<le> length (p_data (m_body m)) \<or>
    m_type m = mt kMsgType_CHOSEN_REQ \<and> p_size (m_body m) = 0 \<and> p_status (m_body m) = st kPaxosState_CHOSEN"
  unfolding Let_def
proof (rule sent_messages_typed [OF example_proposer_inv(1)])
  let ?m = "ps_sent (example_run [Propose 7 [65] 0]) ! 0"
  show "proposer_run [Propose 7 [65] 0] example_proposer = Some (example_run [Propose 7 [65] 0])" by code_simp
  show "(fst ?m, fst (snd ?m), snd (snd ?m)) \<in> set (ps_sent (example_run [Propose 7 [65] 0]))" by code_simp
qed code_simp+

end
