(* ===== verification/Io_Uring.thy ===== *)
theory Io_Uring
  imports Fix_Count_Allocator
begin

unbundle bit_operations_syntax

text \<open>
  util/iouring.h and util/iouring.cc: asynchronous reads and writes through an \<open>io_uring\<close>. Requests are
  queued per worker; the worker's thread moves them into the submission ring, and calls their callbacks
  when completions arrive. An event descriptor, polled through the ring itself, wakes the thread.

  Not in the repository, and therefore parameters: the ring with the kernel behind it (\<open>uring_api\<close>, \<open>uring_kernel\<close>),
  and \<open>LockFreeQueueV2\<close> (\<open>queue_v2\<close>). The state of a ring includes the event descriptor of its worker.
  Callbacks are data of type \<open>'cb\<close>, and every call of one is logged with its result and user data.
  Contexts are heap objects, since the ring holds pointers to them while the pool may hand them out again:
  \<open>ctx_mem\<close> maps addresses to contexts. Pointers to user memory are 64-bit words. \<open>None\<close> stands for a
  failing assertion, a bad pointer, an exception, and a call that never returns.
\<close>

section \<open>Options and requests\<close>

record UringOptions =
  uo_iodepth :: int
  uo_instances :: int
  uo_max_batch_num :: int
  uo_dispatch_type :: int
  uo_enable_sq_thread :: bool
  uo_enable_io_dev_poll :: bool
  uo_enable_no_drop :: bool

definition UringOptions_default :: UringOptions where
  "UringOptions_default =
     \<lparr>uo_iodepth = 256, uo_instances = 8, uo_max_batch_num = 256, uo_dispatch_type = 1,
      uo_enable_sq_thread = False, uo_enable_io_dev_poll = False, uo_enable_no_drop = False\<rparr>"

text \<open>The increment at the end overflows for the largest \<open>int\<close>; the second one is of a number no larger.\<close>

definition SanitizeOptions :: "UringOptions \<Rightarrow> UringOptions option" where
  "SanitizeOptions opt =
     (let opt1 = (if uo_instances opt \<le> 0 then opt\<lparr>uo_instances := 1\<rparr> else opt);
          opt2 = (if uo_iodepth opt1 \<le> 0 then opt1\<lparr>uo_iodepth := 256\<rparr> else opt1);
          opt3 = (if uo_max_batch_num opt2 \<le> 0 then opt2\<lparr>uo_max_batch_num := 256\<rparr> else opt2);
          opt4 = (if uo_max_batch_num opt3 > uo_iodepth opt3 then opt3\<lparr>uo_max_batch_num := uo_iodepth opt3\<rparr> else opt3)
      in if uo_iodepth opt4 = 2147483647 then None
         else Some (opt4\<lparr>uo_iodepth := uo_iodepth opt4 + 1, uo_max_batch_num := uo_max_batch_num opt4 + 1,
                         uo_enable_sq_thread := False, uo_enable_io_dev_poll := False\<rparr>))"

datatype IouringErr =
    IOURING_ERR_INIT_FAILED | IOURING_ERR_QUEUE_FULL | IOURING_ERR_NOTIFIER_FD_EMPTY
  | IOURING_ERR_REGISTER_EFD_FAILED | IOURING_ERR_ALLOC_SQE_FAILED | IOURING_ERR_ALLOC_IO_CTX_FAILED
  | IOURING_ERR_LOCK_MEM_NOT_ENOUGH | IOURING_ERR_SUBMIT_QUEUE_FULL

fun ioerr :: "IouringErr \<Rightarrow> int" where
  "ioerr IOURING_ERR_INIT_FAILED = - 1001"
| "ioerr IOURING_ERR_QUEUE_FULL = - 1002"
| "ioerr IOURING_ERR_NOTIFIER_FD_EMPTY = - 1003"
| "ioerr IOURING_ERR_REGISTER_EFD_FAILED = - 1004"
| "ioerr IOURING_ERR_ALLOC_SQE_FAILED = - 1005"
| "ioerr IOURING_ERR_ALLOC_IO_CTX_FAILED = - 1006"
| "ioerr IOURING_ERR_LOCK_MEM_NOT_ENOUGH = - 1007"
| "ioerr IOURING_ERR_SUBMIT_QUEUE_FULL = - 1008"

datatype UringStatisticType =
    IOURING_STATISTIC_START | IOURING_STATISTIC_REQ | IOURING_STATISTIC_RSP | IOURING_STATISTIC_SUBMIT
  | IOURING_STATISTIC_POLL_FAIL | IOURING_STATISTIC_SUBMIT_FAIL | IOURING_STATISTIC_GET_SQE_FAIL
  | IOURING_STATISTIC_ALLOC_CTX_FAIL | IOURING_STATISTIC_INTERNAL_REQ | IOURING_STATISTIC_END

fun stat_no :: "UringStatisticType \<Rightarrow> nat" where
  "stat_no IOURING_STATISTIC_START = 0"
| "stat_no IOURING_STATISTIC_REQ = 1"
| "stat_no IOURING_STATISTIC_RSP = 2"
| "stat_no IOURING_STATISTIC_SUBMIT = 3"
| "stat_no IOURING_STATISTIC_POLL_FAIL = 4"
| "stat_no IOURING_STATISTIC_SUBMIT_FAIL = 5"
| "stat_no IOURING_STATISTIC_GET_SQE_FAIL = 6"
| "stat_no IOURING_STATISTIC_ALLOC_CTX_FAIL = 7"
| "stat_no IOURING_STATISTIC_INTERNAL_REQ = 8"
| "stat_no IOURING_STATISTIC_END = 9"

datatype ReqType =
    REQ_TYPE_START | REQ_TYPE_READ | REQ_TYPE_WRIET | REQ_TYPE_READ_BATCH | REQ_TYPE_WRIET_BATCH
  | REQ_TYPE_INTERNAL_REQ | REQ_TYPE_END

fun reqt :: "ReqType \<Rightarrow> int" where
  "reqt REQ_TYPE_START = 0"
| "reqt REQ_TYPE_READ = 1"
| "reqt REQ_TYPE_WRIET = 2"
| "reqt REQ_TYPE_READ_BATCH = 3"
| "reqt REQ_TYPE_WRIET_BATCH = 4"
| "reqt REQ_TYPE_INTERNAL_REQ = 5"
| "reqt REQ_TYPE_END = 6"

record 'cb PendingReq =
  pr_fd :: int
  pr_type :: int
  pr_buff :: u64
  pr_size :: u64
  pr_offset :: u64
  pr_ud :: u64
  pr_done :: 'cb

record iovec =
  iov_base :: u64
  iov_len :: u64

record 'cb IoContext =
  io_req :: "'cb PendingReq"
  io_iov :: iovec

record ('cb, 'ring, 'q) WorkerInfo =
  wi_thread :: bool
  wi_notifier :: "'cb PendingReq"
  wi_ring :: 'ring
  wi_queue :: 'q
  wi_uncompleted :: int
  wi_unsubmit :: u32
  wi_statistic :: "u64 list"

definition stat_add :: "UringStatisticType \<Rightarrow> u64 \<Rightarrow> ('cb, 'ring, 'q) WorkerInfo \<Rightarrow> ('cb, 'ring, 'q) WorkerInfo" where
  "stat_add t n wk = wk\<lparr>wi_statistic := (wi_statistic wk)[stat_no t - 1 := wi_statistic wk ! (stat_no t - 1) + n]\<rparr>"

section \<open>The ring\<close>

text \<open>
  A pointer given to the ring as user data is that of the worker's \<open>req_notifier_\<close> or of a context. A
  vectored operation takes its vector from the context or from the user.
\<close>

datatype uptr = UNotifier | UCtx nat

datatype iov_ptr = CtxIov nat | UserIov u64

datatype sqe_op = PollAdd int | Readv int iov_ptr u32 u64 | Writev int iov_ptr u32 u64

record cqe =
  cq_res :: int
  cq_data :: uptr

text \<open>\<open>wait_cqe\<close> is \<open>None\<close> when it never returns; \<open>write_fd\<close> and \<open>read_fd\<close> are for the event descriptor.\<close>

record ('ring, 'sqe) uring_api =
  get_sqe :: "'ring \<Rightarrow> 'ring \<times> 'sqe option"
  prep_sqe :: "'sqe \<Rightarrow> sqe_op \<Rightarrow> 'ring \<Rightarrow> 'ring"
  sqe_set_data :: "'sqe \<Rightarrow> uptr \<Rightarrow> 'ring \<Rightarrow> 'ring"
  submit :: "'ring \<Rightarrow> 'ring \<times> int"
  wait_cqe :: "'ring \<Rightarrow> ('ring \<times> int \<times> cqe option) option"
  peek_cqe :: "'ring \<Rightarrow> 'ring \<times> int \<times> cqe option"
  cqe_seen :: "'ring \<Rightarrow> 'ring"
  write_fd :: "int \<Rightarrow> 'ring \<Rightarrow> 'ring"
  read_fd :: "int \<Rightarrow> 'ring \<Rightarrow> 'ring"

section \<open>The contexts\<close>

text \<open>\<open>new\<close> does not initialise a context; it never yields the null pointer 0.\<close>

record 'cb ctx_mem =
  mem_ctx :: "nat \<Rightarrow> 'cb IoContext option"
  mem_next :: nat
  mem_junk :: "'cb IoContext"

definition req_alloc :: "'cb ctx_mem \<Rightarrow> 'cb ctx_mem \<times> nat" where
  "req_alloc mem =
     (mem\<lparr>mem_ctx := (mem_ctx mem)(Suc (mem_next mem) \<mapsto> mem_junk mem), mem_next := Suc (mem_next mem)\<rparr>, Suc (mem_next mem))"

definition req_release :: "nat \<Rightarrow> 'cb ctx_mem \<Rightarrow> 'cb ctx_mem" where
  "req_release a mem = mem\<lparr>mem_ctx := (mem_ctx mem)(a := None)\<rparr>"

type_synonym 'cb ctx_pool = "(nat, nat FixCountVector, 'cb ctx_mem) FixCountAllocator"

text \<open>
  What the thread of a worker works on: its worker, the pool of contexts with their memory, and the log
  of callbacks.
\<close>

record ('cb, 'ring, 'q) Reaper =
  rp_wk :: "('cb, 'ring, 'q) WorkerInfo"
  rp_pool :: "'cb ctx_pool"
  rp_mem :: "'cb ctx_mem"
  rp_called :: "('cb \<times> int \<times> u64) list"

definition rp_call :: "'cb PendingReq \<Rightarrow> int \<Rightarrow> ('cb, 'ring, 'q) Reaper \<Rightarrow> ('cb, 'ring, 'q) Reaper" where
  "rp_call req res s = s\<lparr>rp_called := rp_called s @ [(pr_done req, res, pr_ud req)]\<rparr>"

definition rp_free :: "int \<Rightarrow> nat \<Rightarrow> ('cb, 'ring, 'q) Reaper \<Rightarrow> ('cb, 'ring, 'q) Reaper option" where
  "rp_free wid a s =
     map_option (\<lambda>(pool, mem). s\<lparr>rp_pool := pool, rp_mem := mem\<rparr>)
       (FixCountAllocator_ReleaseByShard FixCountVector_ops wid a (rp_pool s) (rp_mem s))"

definition rp_upd :: "(('cb, 'ring, 'q) WorkerInfo \<Rightarrow> ('cb, 'ring, 'q) WorkerInfo) \<Rightarrow> ('cb, 'ring, 'q) Reaper \<Rightarrow> ('cb, 'ring, 'q) Reaper" where
  "rp_upd f s = s\<lparr>rp_wk := f (rp_wk s)\<rparr>"

definition on_ring :: "('ring \<Rightarrow> 'ring) \<Rightarrow> ('cb, 'ring, 'q) WorkerInfo \<Rightarrow> ('cb, 'ring, 'q) WorkerInfo" where
  "on_ring f wk = wk\<lparr>wi_ring := f (wi_ring wk)\<rparr>"

section \<open>The thread of a worker\<close>

text \<open>A completion: what it points to decides; the flag is \<open>rearm_notifier\<close>.\<close>

definition complete_req :: "uptr \<Rightarrow> ('cb, 'ring, 'q) Reaper \<Rightarrow> 'cb PendingReq option" where
  "complete_req p s =
     (case p of UNotifier \<Rightarrow> Some (wi_notifier (rp_wk s)) | UCtx a \<Rightarrow> map_option io_req (mem_ctx (rp_mem s) a))"

definition pollLoop_complete ::
  "('ring, 'sqe) uring_api \<Rightarrow> int \<Rightarrow> cqe \<Rightarrow> bool \<Rightarrow> ('cb, 'ring, 'q) Reaper \<Rightarrow> (('cb, 'ring, 'q) Reaper \<times> bool) option" where
  "pollLoop_complete A wid c rearm s =
     (let s1 = rp_upd (\<lambda>wk. wk\<lparr>wi_uncompleted := wi_uncompleted wk - 1\<rparr>) s
      in case complete_req (cq_data c) s1 of
           None \<Rightarrow> None
         | Some req \<Rightarrow>
             if pr_type req \<in> {reqt REQ_TYPE_READ, reqt REQ_TYPE_READ_BATCH, reqt REQ_TYPE_WRIET, reqt REQ_TYPE_WRIET_BATCH} then
               (case cq_data c of
                  UNotifier \<Rightarrow> None
                | UCtx a \<Rightarrow>
                    map_option (\<lambda>s2. (rp_upd (on_ring (cqe_seen A) \<circ> stat_add IOURING_STATISTIC_RSP 1) s2, rearm))
                      (rp_free wid a (rp_call req (cq_res c) s1)))
             else if pr_type req = reqt REQ_TYPE_INTERNAL_REQ then
               Some (rp_upd (on_ring (cqe_seen A) \<circ> stat_add IOURING_STATISTIC_INTERNAL_REQ 1 \<circ> on_ring (read_fd A (pr_fd req))) s1, True)
             else None)"

text \<open>The notifier's entry; the number is \<open>notifier_sqe\<close>.\<close>

definition pollLoop_rearm ::
  "('ring, 'sqe) uring_api \<Rightarrow> bool \<Rightarrow> ('cb, 'ring, 'q) Reaper \<Rightarrow> ('cb, 'ring, 'q) Reaper \<times> nat" where
  "pollLoop_rearm A rearm s =
     (if \<not> rearm then (s, 0)
      else (case get_sqe A (wi_ring (rp_wk s)) of
              (r, None) \<Rightarrow> (rp_upd (on_ring (\<lambda>_. r)) s, 0)
            | (r, Some e) \<Rightarrow>
                (rp_upd (on_ring (\<lambda>_. sqe_set_data A e UNotifier (prep_sqe A e (PollAdd (pr_fd (wi_notifier (rp_wk s)))) r))) s, 1)))"

text \<open>The vector of a request in its context, and the operation for it; an unknown type is left unprepared.\<close>

definition ctx_iov :: "'cb PendingReq \<Rightarrow> iovec \<Rightarrow> iovec" where
  "ctx_iov req iov =
     (if pr_type req = reqt REQ_TYPE_READ \<or> pr_type req = reqt REQ_TYPE_WRIET
      then \<lparr>iov_base = pr_buff req, iov_len = pr_size req\<rparr> else iov)"

definition prep_req :: "('ring, 'sqe) uring_api \<Rightarrow> 'sqe \<Rightarrow> nat \<Rightarrow> 'cb PendingReq \<Rightarrow> 'ring \<Rightarrow> 'ring" where
  "prep_req A e a req r =
     (let (num, iv) = (if pr_type req = reqt REQ_TYPE_READ \<or> pr_type req = reqt REQ_TYPE_WRIET then (1, CtxIov a)
                       else if pr_type req = reqt REQ_TYPE_READ_BATCH \<or> pr_type req = reqt REQ_TYPE_WRIET_BATCH
                            then (ucast (pr_size req), UserIov (pr_buff req)) else (0, UserIov 0))
      in if pr_type req = reqt REQ_TYPE_READ \<or> pr_type req = reqt REQ_TYPE_READ_BATCH
         then prep_sqe A e (Readv (pr_fd req) iv num (pr_offset req)) r
         else if pr_type req = reqt REQ_TYPE_WRIET \<or> pr_type req = reqt REQ_TYPE_WRIET_BATCH
         then prep_sqe A e (Writev (pr_fd req) iv num (pr_offset req)) r else r)"

text \<open>One request that was taken from the queue: \<open>Inl\<close> leaves the loop, \<open>Inr\<close> goes on with its context.\<close>

definition pollLoop_take ::
  "('ring, 'sqe) uring_api \<Rightarrow> int \<Rightarrow> 'cb PendingReq \<Rightarrow> ('cb, 'ring, 'q) Reaper \<Rightarrow>
     (('cb, 'ring, 'q) Reaper + ('cb, 'ring, 'q) Reaper \<times> nat) option" where
  "pollLoop_take A wid req s =
     (if pr_type req \<le> reqt REQ_TYPE_START \<or> pr_type req \<ge> reqt REQ_TYPE_END then None
      else case FixCountAllocator_AllocByShard FixCountVector_ops wid (rp_pool s) (rp_mem s) of
        None \<Rightarrow> None
      | Some (pool, mem, a) \<Rightarrow>
          (let s1 = s\<lparr>rp_pool := pool, rp_mem := mem\<rparr>
           in if a = 0 then Some (Inl (rp_call req (ioerr IOURING_ERR_ALLOC_IO_CTX_FAILED) (rp_upd (stat_add IOURING_STATISTIC_ALLOC_CTX_FAIL 1) s1)))
              else case get_sqe A (wi_ring (rp_wk s1)) of
                (r, None) \<Rightarrow>
                  map_option (\<lambda>s2. Inl (rp_upd (stat_add IOURING_STATISTIC_GET_SQE_FAIL 1) s2))
                    (rp_free wid a (rp_call req (ioerr IOURING_ERR_ALLOC_SQE_FAILED) (rp_upd (on_ring (\<lambda>_. r)) s1)))
              | (r, Some e) \<Rightarrow>
                  (case mem_ctx mem a of
                     None \<Rightarrow> None
                   | Some ctx \<Rightarrow>
                       Some (Inr (rp_upd (on_ring (\<lambda>_. sqe_set_data A e (UCtx a) (prep_req A e a req r)))
                         (s1\<lparr>rp_mem := mem\<lparr>mem_ctx := (mem_ctx mem)(a \<mapsto> \<lparr>io_req = req, io_iov = ctx_iov req (io_iov ctx)\<rparr>)\<rparr>\<rparr>), a)))))"

text \<open>The loop that fills the ring; \<open>unsub\<close> is \<open>unsubmitted\<close>. Every pass adds to it or is the last.\<close>

function pollLoop_fill ::
  "('ring, 'sqe) uring_api \<Rightarrow> ('cb PendingReq, 'q) queue_v2 \<Rightarrow> UringOptions \<Rightarrow> int \<Rightarrow> nat \<Rightarrow> ('cb, 'ring, 'q) Reaper \<Rightarrow> nat list \<Rightarrow>
     (('cb, 'ring, 'q) Reaper \<times> nat list) option" where
  "pollLoop_fill A V opt wid nsqe s unsub =
     (if wi_uncompleted (rp_wk s) < uo_iodepth opt \<and> length unsub + nsqe < unat (word_of_int (uo_max_batch_num opt) :: u32) then
        (case v2_Dequeue V False (wi_queue (rp_wk s)) of
           (q, ret, v) \<Rightarrow>
             if ret \<noteq> 0 then Some (rp_upd (\<lambda>wk. wk\<lparr>wi_queue := q\<rparr>) s, unsub)
             else (case v of
                     None \<Rightarrow> None
                   | Some req \<Rightarrow>
                       (case pollLoop_take A wid req (rp_upd (\<lambda>wk. wk\<lparr>wi_queue := q, wi_unsubmit := wi_unsubmit wk - 1\<rparr>) s) of
                          None \<Rightarrow> None
                        | Some (Inl s') \<Rightarrow> Some (s', unsub)
                        | Some (Inr (s', a)) \<Rightarrow> pollLoop_fill A V opt wid nsqe s' (unsub @ [a]))))
      else Some (s, unsub))"
  by pat_completeness auto
termination
  by (relation "measure (\<lambda>(A, V, opt, wid, nsqe, s, unsub). unat (word_of_int (uo_max_batch_num opt) :: u32) - length unsub)") auto

declare pollLoop_fill.simps [simp del]

text \<open>\<open>EINTR\<close>, \<open>EAGAIN\<close> and \<open>EBUSY\<close> of Linux.\<close>

partial_function (option) submit_retry :: "('ring, 'sqe) uring_api \<Rightarrow> 'ring \<Rightarrow> ('ring \<times> int) option" where
  "submit_retry A r =
     (case submit A r of (r', ret) \<Rightarrow> if ret = - 4 \<or> ret = - 11 then submit_retry A r' else Some (r', ret))"

declare submit_retry.simps [code]

fun fail_all :: "int \<Rightarrow> int \<Rightarrow> nat list \<Rightarrow> ('cb, 'ring, 'q) Reaper \<Rightarrow> ('cb, 'ring, 'q) Reaper option" where
  "fail_all wid ret [] s = Some s"
| "fail_all wid ret (a # as) s =
     (case mem_ctx (rp_mem s) a of
        None \<Rightarrow> None
      | Some ctx \<Rightarrow>
          (case rp_free wid a (rp_call (io_req ctx) ret s) of
             None \<Rightarrow> None
           | Some s' \<Rightarrow> fail_all wid ret as s'))"

definition pollLoop_submit ::
  "('ring, 'sqe) uring_api \<Rightarrow> int \<Rightarrow> nat \<Rightarrow> nat list \<Rightarrow> bool \<Rightarrow> ('cb, 'ring, 'q) Reaper \<Rightarrow> (('cb, 'ring, 'q) Reaper \<times> bool) option" where
  "pollLoop_submit A wid nsqe unsub rearm s =
     (let total = int (length unsub) + int nsqe
      in if total > 0 then
           (case submit_retry A (wi_ring (rp_wk s)) of
              None \<Rightarrow> None
            | Some (r, ret) \<Rightarrow>
                (let s1 = rp_upd (on_ring (\<lambda>_. r)) s
                 in if ret \<le> 0 then
                      map_option (\<lambda>s2. (rp_upd (stat_add IOURING_STATISTIC_SUBMIT 1 \<circ> stat_add IOURING_STATISTIC_SUBMIT_FAIL 1) s2, rearm))
                        (fail_all wid (if ret = - 16 then ioerr IOURING_ERR_SUBMIT_QUEUE_FULL else ret) unsub s1)
                    else if ret \<noteq> total then None
                    else Some (rp_upd (stat_add IOURING_STATISTIC_SUBMIT 1 \<circ> (\<lambda>wk. wk\<lparr>wi_uncompleted := wi_uncompleted wk + total\<rparr>)) s1, False)))
         else Some (s, rearm))"

text \<open>One pass of \<open>pollLoop\<close>, with \<open>wait_block\<close> and \<open>rearm_notifier\<close> as the variables it keeps.\<close>

definition pollLoop_wait ::
  "('ring, 'sqe) uring_api \<Rightarrow> bool \<Rightarrow> ('cb, 'ring, 'q) Reaper \<Rightarrow> (('cb, 'ring, 'q) Reaper \<times> int \<times> cqe option) option" where
  "pollLoop_wait A wait_block s =
     map_option (\<lambda>(r, ret, c). (rp_upd (on_ring (\<lambda>_. r)) s, ret, c))
       (if wait_block then wait_cqe A (wi_ring (rp_wk s)) else Some (peek_cqe A (wi_ring (rp_wk s))))"

definition pollLoop_work ::
  "('ring, 'sqe) uring_api \<Rightarrow> ('cb PendingReq, 'q) queue_v2 \<Rightarrow> UringOptions \<Rightarrow> int \<Rightarrow> bool \<Rightarrow> ('cb, 'ring, 'q) Reaper \<Rightarrow>
     (('cb, 'ring, 'q) Reaper \<times> bool \<times> bool) option" where
  "pollLoop_work A V opt wid rearm s =
     (case pollLoop_rearm A rearm s of
        (s1, nsqe) \<Rightarrow>
          (case pollLoop_fill A V opt wid nsqe s1 [] of
             None \<Rightarrow> None
           | Some (s2, unsub) \<Rightarrow>
               (case pollLoop_submit A wid nsqe unsub rearm s2 of
                  None \<Rightarrow> None
                | Some (s3, rearm') \<Rightarrow>
                    Some (if unsub \<noteq> [] then rp_upd (stat_add IOURING_STATISTIC_REQ (of_nat (length unsub))) s3 else s3,
                          int (length unsub) + int nsqe < uo_max_batch_num opt, rearm'))))"

definition pollLoop_iter ::
  "('ring, 'sqe) uring_api \<Rightarrow> ('cb PendingReq, 'q) queue_v2 \<Rightarrow> UringOptions \<Rightarrow> int \<Rightarrow> ('cb, 'ring, 'q) Reaper \<times> bool \<times> bool \<Rightarrow>
     (('cb, 'ring, 'q) Reaper \<times> bool \<times> bool) option" where
  "pollLoop_iter A V opt wid st =
     (case st of (s, wait_block, rearm) \<Rightarrow>
       (case pollLoop_wait A wait_block s of
          None \<Rightarrow> None
        | Some (s1, ret, c) \<Rightarrow>
            if wait_block \<and> ret < 0 then Some (rp_upd (stat_add IOURING_STATISTIC_POLL_FAIL 1) s1, wait_block, rearm)
            else (case (if ret = 0 then c else None) of
                    None \<Rightarrow> pollLoop_work A V opt wid rearm s1
                  | Some c' \<Rightarrow>
                      (case pollLoop_complete A wid c' rearm s1 of
                         None \<Rightarrow> None
                       | Some (s2, rearm') \<Rightarrow> pollLoop_work A V opt wid rearm' s2))))"

section \<open>Issuing requests\<close>

text \<open>
  What a request does to its worker: enqueue, then count, and wake the thread if it is the first one. The two are
  separate atomic steps, between which other callers and the thread may run.
\<close>

definition issue_enqueue ::
  "('cb PendingReq, 'q) queue_v2 \<Rightarrow> 'cb PendingReq \<Rightarrow> ('cb, 'ring, 'q) WorkerInfo \<Rightarrow> ('cb, 'ring, 'q) WorkerInfo \<times> int" where
  "issue_enqueue V req wk = (case v2_Enqueue V req False (wi_queue wk) of (q, ret) \<Rightarrow> (wk\<lparr>wi_queue := q\<rparr>, ret))"

definition issue_count :: "('ring, 'sqe) uring_api \<Rightarrow> ('cb, 'ring, 'q) WorkerInfo \<Rightarrow> ('cb, 'ring, 'q) WorkerInfo" where
  "issue_count A wk =
     (let waiting = wi_unsubmit wk; wk1 = wk\<lparr>wi_unsubmit := wi_unsubmit wk + 1\<rparr>
      in if waiting = 0 then on_ring (write_fd A (pr_fd (wi_notifier wk1))) wk1 else wk1)"

definition issue_at ::
  "('ring, 'sqe) uring_api \<Rightarrow> ('cb PendingReq, 'q) queue_v2 \<Rightarrow> 'cb PendingReq \<Rightarrow> ('cb, 'ring, 'q) WorkerInfo \<Rightarrow>
     ('cb, 'ring, 'q) WorkerInfo \<times> int" where
  "issue_at A V req wk =
     (case issue_enqueue V req wk of
        (wk1, ret) \<Rightarrow> if ret \<noteq> 0 then (wk1, ioerr IOURING_ERR_QUEUE_FULL) else (issue_count A wk1, 0))"

text \<open>
  The object. A worker that \<open>Start\<close> has not made yet is a null pointer. \<open>stop_\<close> is not initialised by the
  constructor. \<open>'k\<close> is the state of the kernel.
\<close>

record ('cb, 'ring, 'q, 'c, 'k) IoUring =
  iu_opt :: UringOptions
  iu_stop :: bool
  iu_reporter_th :: bool
  iu_event_fd_pool :: "(int, 'c, 'k) FixCountAllocator"
  iu_waiting_req :: "'cb ctx_pool"
  iu_workers :: "('cb, 'ring, 'q) WorkerInfo option list"

record ('k, 'ring) uring_kernel =
  k_eventfd :: "'k \<Rightarrow> 'k \<times> int"
  k_close :: "int \<Rightarrow> 'k \<Rightarrow> 'k"
  k_queue_init :: "int \<Rightarrow> u32 \<Rightarrow> 'k \<Rightarrow> 'k \<times> int \<times> 'ring"
  k_queue_exit :: "'ring \<Rightarrow> 'k \<Rightarrow> 'k"
  k_SETUP_SQPOLL :: u32
  k_SETUP_IOPOLL :: u32
  k_FEAT_NODROP :: u32

definition IoUring_new ::
  "(int, 'c) container \<Rightarrow> bool \<Rightarrow> ('k \<Rightarrow> 'k \<times> int) \<Rightarrow> (int \<Rightarrow> 'k \<Rightarrow> 'k) \<Rightarrow> UringOptions \<Rightarrow> ('cb, 'ring, 'q, 'c, 'k) IoUring option" where
  "IoUring_new C junk event_fd_alloc event_fd_release opt =
     (case SanitizeOptions opt of
        None \<Rightarrow> None
      | Some opt' \<Rightarrow>
          (case FixCountAllocator_Init FixCountVector_ops (uo_instances opt') (word_of_int (uo_iodepth opt')) req_alloc req_release of
             None \<Rightarrow> None
           | Some waiting \<Rightarrow>
               map_option (\<lambda>efds. \<lparr>iu_opt = opt', iu_stop = junk, iu_reporter_th = False, iu_event_fd_pool = efds,
                   iu_waiting_req = waiting, iu_workers = []\<rparr>)
                 (FixCountAllocator_Init C (uo_instances opt') (word_of_int (uo_iodepth opt')) event_fd_alloc event_fd_release)))"

text \<open>\<open>fd % workers_.size()\<close>, the size being unsigned; \<open>rnd\<close> is what \<open>rand()\<close> yields.\<close>

definition getWorkerIdxByFd :: "int \<Rightarrow> int \<Rightarrow> ('cb, 'ring, 'q, 'c, 'k) IoUring \<Rightarrow> nat option" where
  "getWorkerIdxByFd rnd fd iu =
     (if iu_workers iu = [] then None
      else Some (unat ((word_of_int (if uo_dispatch_type (iu_opt iu) = 1 then fd else rnd) :: u64) mod of_nat (length (iu_workers iu)))))"

definition issueRequest ::
  "('ring, 'sqe) uring_api \<Rightarrow> ('cb PendingReq, 'q) queue_v2 \<Rightarrow> int \<Rightarrow> 'cb PendingReq \<Rightarrow> ('cb, 'ring, 'q, 'c, 'k) IoUring \<Rightarrow>
     (('cb, 'ring, 'q, 'c, 'k) IoUring \<times> int) option" where
  "issueRequest A V rnd req iu =
     (case getWorkerIdxByFd rnd (pr_fd req) iu of
        None \<Rightarrow> None
      | Some i \<Rightarrow>
          (case iu_workers iu ! i of
             None \<Rightarrow> None
           | Some wk \<Rightarrow> (case issue_at A V req wk of (wk', ret) \<Rightarrow> Some (iu\<lparr>iu_workers := (iu_workers iu)[i := Some wk']\<rparr>, ret))))"

definition AddReadReqAsync ::
  "('ring, 'sqe) uring_api \<Rightarrow> ('cb PendingReq, 'q) queue_v2 \<Rightarrow> int \<Rightarrow> int \<Rightarrow> u64 \<Rightarrow> u64 \<Rightarrow> u64 \<Rightarrow> 'cb \<Rightarrow> u64 \<Rightarrow>
     ('cb, 'ring, 'q, 'c, 'k) IoUring \<Rightarrow> (('cb, 'ring, 'q, 'c, 'k) IoUring \<times> int) option" where
  "AddReadReqAsync A V rnd fd offset buff sz n ud =
     issueRequest A V rnd \<lparr>pr_fd = fd, pr_type = reqt REQ_TYPE_READ, pr_buff = buff, pr_size = sz, pr_offset = offset, pr_ud = ud, pr_done = n\<rparr>"

definition AddWriteReqAsync ::
  "('ring, 'sqe) uring_api \<Rightarrow> ('cb PendingReq, 'q) queue_v2 \<Rightarrow> int \<Rightarrow> int \<Rightarrow> u64 \<Rightarrow> u64 \<Rightarrow> u64 \<Rightarrow> 'cb \<Rightarrow> u64 \<Rightarrow>
     ('cb, 'ring, 'q, 'c, 'k) IoUring \<Rightarrow> (('cb, 'ring, 'q, 'c, 'k) IoUring \<times> int) option" where
  "AddWriteReqAsync A V rnd fd offset data sz n ud =
     issueRequest A V rnd \<lparr>pr_fd = fd, pr_type = reqt REQ_TYPE_WRIET, pr_buff = data, pr_size = sz, pr_offset = offset, pr_ud = ud, pr_done = n\<rparr>"

definition AddBatchReadReqAsync ::
  "('ring, 'sqe) uring_api \<Rightarrow> ('cb PendingReq, 'q) queue_v2 \<Rightarrow> int \<Rightarrow> int \<Rightarrow> u64 \<Rightarrow> u64 \<Rightarrow> u64 \<Rightarrow> 'cb \<Rightarrow> u64 \<Rightarrow>
     ('cb, 'ring, 'q, 'c, 'k) IoUring \<Rightarrow> (('cb, 'ring, 'q, 'c, 'k) IoUring \<times> int) option" where
  "AddBatchReadReqAsync A V rnd fd offset buff sz n ud =
     issueRequest A V rnd \<lparr>pr_fd = fd, pr_type = reqt REQ_TYPE_READ_BATCH, pr_buff = buff, pr_size = sz, pr_offset = offset, pr_ud = ud, pr_done = n\<rparr>"

definition AddBatchWriteReqAsync ::
  "('ring, 'sqe) uring_api \<Rightarrow> ('cb PendingReq, 'q) queue_v2 \<Rightarrow> int \<Rightarrow> int \<Rightarrow> u64 \<Rightarrow> u64 \<Rightarrow> u64 \<Rightarrow> 'cb \<Rightarrow> u64 \<Rightarrow>
     ('cb, 'ring, 'q, 'c, 'k) IoUring \<Rightarrow> (('cb, 'ring, 'q, 'c, 'k) IoUring \<times> int) option" where
  "AddBatchWriteReqAsync A V rnd fd offset data sz n ud =
     issueRequest A V rnd \<lparr>pr_fd = fd, pr_type = reqt REQ_TYPE_WRIET_BATCH, pr_buff = data, pr_size = sz, pr_offset = offset, pr_ud = ud, pr_done = n\<rparr>"

section \<open>Starting and stopping\<close>

text \<open>
  One worker of \<open>Start\<close>: the result is the error, or 0, and the worker if it was made. A worker whose ring could
  not be made stays, without a thread; replacing one whose thread runs terminates the process. The
  entry for the notifier is used unchecked.
\<close>

definition start_worker ::
  "('ring, 'sqe) uring_api \<Rightarrow> ('cb PendingReq, 'q) queue_v2 \<Rightarrow> ('k, 'ring) uring_kernel \<Rightarrow> 'cb PendingReq \<Rightarrow> UringOptions \<Rightarrow> u32 \<Rightarrow> 'k \<Rightarrow>
     ('k \<times> int \<times> ('cb, 'ring, 'q) WorkerInfo option) option" where
  "start_worker A V K junk opt flags k =
     (case k_eventfd K k of
        (k1, efd) \<Rightarrow>
          if efd < 0 then Some (k1, ioerr IOURING_ERR_REGISTER_EFD_FAILED, None)
          else (case k_queue_init K (uo_iodepth opt) flags k1 of
                  (k2, ret, r) \<Rightarrow>
                    (let wk = \<lparr>wi_thread = False, wi_notifier = junk, wi_ring = r, wi_queue = v2_new V, wi_uncompleted = 0,
                               wi_unsubmit = 0, wi_statistic = replicate (stat_no IOURING_STATISTIC_END - 1) 0\<rparr>
                     in if ret \<noteq> 0 then
                          Some (k_close K efd k2, if ret = - 12 then ioerr IOURING_ERR_LOCK_MEM_NOT_ENOUGH else ret, Some wk)
                        else (case v2_Init V (uo_iodepth opt) (wi_queue wk) of
                                None \<Rightarrow> None
                              | Some q \<Rightarrow>
                                  (case get_sqe A r of
                                     (_, None) \<Rightarrow> None
                                   | (r1, Some e) \<Rightarrow>
                                       Some (k2, 0, Some (wk\<lparr>wi_thread := True, wi_uncompleted := 1,
                                         wi_notifier := junk\<lparr>pr_fd := efd, pr_type := reqt REQ_TYPE_INTERNAL_REQ\<rparr>, wi_queue := q,
                                         wi_ring := fst (submit A (sqe_set_data A e UNotifier (prep_sqe A e (PollAdd efd) r1)))\<rparr>)))))))"

definition has_thread :: "('cb, 'ring, 'q) WorkerInfo option \<Rightarrow> bool" where
  "has_thread w \<longleftrightarrow> w \<noteq> None \<and> wi_thread (the w)"

fun start_workers ::
  "('ring, 'sqe) uring_api \<Rightarrow> ('cb PendingReq, 'q) queue_v2 \<Rightarrow> ('k, 'ring) uring_kernel \<Rightarrow> 'cb PendingReq \<Rightarrow> UringOptions \<Rightarrow> u32 \<Rightarrow>
     nat list \<Rightarrow> ('cb, 'ring, 'q) WorkerInfo option list \<Rightarrow> 'k \<Rightarrow> ('k \<times> int \<times> ('cb, 'ring, 'q) WorkerInfo option list) option" where
  "start_workers A V K junk opt flags [] ws k = Some (k, 0, ws)"
| "start_workers A V K junk opt flags (i # is) ws k =
     (case start_worker A V K junk opt flags k of
        None \<Rightarrow> None
      | Some (k', ret, wk) \<Rightarrow>
          (let ws' = (case wk of None \<Rightarrow> ws | Some w \<Rightarrow> ws[i := Some w])
           in if wk \<noteq> None \<and> has_thread (ws ! i) then None
              else if ret \<noteq> 0 then Some (k', ret, ws') else start_workers A V K junk opt flags is ws' k'))"

text \<open>\<open>resize\<close> keeps what is there and adds null pointers.\<close>

definition resized :: "nat \<Rightarrow> 'a option list \<Rightarrow> 'a option list" where
  "resized n xs = take n xs @ replicate (n - length xs) None"

definition IoUring_Start ::
  "('ring, 'sqe) uring_api \<Rightarrow> ('cb PendingReq, 'q) queue_v2 \<Rightarrow> ('k, 'ring) uring_kernel \<Rightarrow> 'cb PendingReq \<Rightarrow>
     ('cb, 'ring, 'q, 'c, 'k) IoUring \<Rightarrow> 'k \<Rightarrow> (('cb, 'ring, 'q, 'c, 'k) IoUring \<times> 'k \<times> int) option" where
  "IoUring_Start A V K junk iu k =
     (if uo_instances (iu_opt iu) \<le> 0 then Some (iu, k, ioerr IOURING_ERR_INIT_FAILED)
      else let n = nat (uo_instances (iu_opt iu));
               flags = (if uo_enable_sq_thread (iu_opt iu) then k_SETUP_SQPOLL K else 0) OR
                       (if uo_enable_io_dev_poll (iu_opt iu) then k_SETUP_IOPOLL K else 0) OR
                       (if uo_enable_no_drop (iu_opt iu) then k_FEAT_NODROP K else 0)
           in (case start_workers A V K junk (iu_opt iu) flags [0..<n] (resized n (iu_workers iu)) k of
                 None \<Rightarrow> None
               | Some (k', ret, ws) \<Rightarrow>
                   (let iu' = iu\<lparr>iu_stop := False, iu_workers := ws\<rparr>
                    in if ret \<noteq> 0 then Some (iu', k', ret)
                       else if iu_reporter_th iu then None
                       else Some (iu'\<lparr>iu_reporter_th := True\<rparr>, k', 0))))"

text \<open>
  \<open>Stop\<close> wakes a worker, joins its thread (which is taken to see \<open>stop_\<close> and to end), closes its descriptor and its ring. A null
  pointer or a thread that was never started is an abort. The workers keep their place, without a thread.
\<close>

fun stop_workers ::
  "('ring, 'sqe) uring_api \<Rightarrow> ('k, 'ring) uring_kernel \<Rightarrow> ('cb, 'ring, 'q) WorkerInfo option list \<Rightarrow> 'k \<Rightarrow>
     ('k \<times> ('cb, 'ring, 'q) WorkerInfo option list) option" where
  "stop_workers A K [] k = Some (k, [])"
| "stop_workers A K (w # ws) k =
     (case w of
        None \<Rightarrow> None
      | Some wk \<Rightarrow>
          if \<not> wi_thread wk then None
          else let wk' = (on_ring (write_fd A (pr_fd (wi_notifier wk))) wk)\<lparr>wi_thread := False\<rparr>;
                   k' = k_queue_exit K (wi_ring wk') (k_close K (pr_fd (wi_notifier wk)) k)
               in map_option (\<lambda>(k'', ws'). (k'', Some wk' # ws')) (stop_workers A K ws k'))"

definition IoUring_Stop ::
  "('ring, 'sqe) uring_api \<Rightarrow> ('k, 'ring) uring_kernel \<Rightarrow> ('cb, 'ring, 'q, 'c, 'k) IoUring \<Rightarrow> 'k \<Rightarrow>
     (('cb, 'ring, 'q, 'c, 'k) IoUring \<times> 'k \<times> int) option" where
  "IoUring_Stop A K iu k =
     (if iu_stop iu then Some (iu, k, 0)
      else (case stop_workers A K (iu_workers iu) k of
              None \<Rightarrow> None
            | Some (k', ws) \<Rightarrow>
                if \<not> iu_reporter_th iu then None
                else Some (iu\<lparr>iu_stop := True, iu_workers := ws, iu_reporter_th := False\<rparr>, k', 0)))"

section \<open>Waiting for a request\<close>

text \<open>
  \<open>doIoOpSync\<close>. The callback stores its result and then writes to the descriptor; it is called by a worker while
  \<open>poll\<close> waits. So \<open>wait_poll\<close> yields, beside what \<open>poll\<close> returns, the stored result, if the callback has run. Returning a
  result that nobody has stored is undefined.
\<close>

definition doIoOpSync ::
  "(int, 'c) container \<Rightarrow> (int \<Rightarrow> 'k \<Rightarrow> 'k) \<Rightarrow> (int \<Rightarrow> 'k \<Rightarrow> 'k \<times> int \<times> int option) \<Rightarrow> int \<Rightarrow> (int \<Rightarrow> 'k \<Rightarrow> ('k \<times> int) option) \<Rightarrow>
     (int, 'c, 'k) FixCountAllocator \<Rightarrow> 'k \<Rightarrow> ((int, 'c, 'k) FixCountAllocator \<times> 'k \<times> int) option" where
  "doIoOpSync C read_event wait_poll fd op efds k =
     (case FixCountAllocator_AllocByShard C fd efds k of
        None \<Rightarrow> None
      | Some (efds1, k1, notifier) \<Rightarrow>
          if notifier = - 1 then Some (efds1, k1, ioerr IOURING_ERR_NOTIFIER_FD_EMPTY)
          else (case op notifier k1 of
                  None \<Rightarrow> None
                | Some (k2, ret) \<Rightarrow>
                    if ret \<noteq> 0 then
                      map_option (\<lambda>(efds2, k3). (efds2, k3, ret)) (FixCountAllocator_ReleaseByShard C fd notifier efds1 k2)
                    else (case wait_poll notifier k2 of
                            (k3, n, stored) \<Rightarrow>
                              (case FixCountAllocator_ReleaseByShard C fd notifier efds1 (if n > 0 then read_event notifier k3 else k3) of
                                 None \<Rightarrow> None
                               | Some (efds2, k4) \<Rightarrow> map_option (\<lambda>res. (efds2, k4, res)) stored))))"

section \<open>The statistics\<close>

text \<open>What the reporting thread does for one worker: \<open>reporter\<close> says for a counter whether to reset it.\<close>

definition report_worker ::
  "(int \<Rightarrow> int \<Rightarrow> int \<Rightarrow> bool) \<Rightarrow> nat \<Rightarrow> ('cb, 'ring, 'q) WorkerInfo \<Rightarrow> ('cb, 'ring, 'q) WorkerInfo \<times> (int \<times> int \<times> int) list" where
  "report_worker reporter i wk =
     (let counter = (\<lambda>j. sint (ucast (wi_statistic wk ! j) :: u32));
          js = filter (\<lambda>j. wi_statistic wk ! j \<noteq> 0) [stat_no IOURING_STATISTIC_START..<stat_no IOURING_STATISTIC_END - 1]
      in (fold (\<lambda>j wk'. if reporter (int i) (int j + 1) (counter j) then wk'\<lparr>wi_statistic := (wi_statistic wk')[j := 0]\<rparr> else wk') js wk,
          map (\<lambda>j. (int i, int j + 1, counter j)) js))"

end
