(* ===== verification/Io_Uring_Inv.thy ===== *)
theory Io_Uring_Inv
  imports Io_Uring
begin

text \<open>
  What a worker of the io_uring wrapper keeps while it runs, under the documented behaviour of the ring and the
  queue (\<open>ring_laws\<close>, \<open>queue_laws\<close>): which pointers the ring holds, that the contexts behind them are alive, apart
  and not in the pool, and that every accepted request is in the queue, in the ring, or has had its callback.
\<close>

section \<open>What is assumed of the ring and the queue\<close>

text \<open>
  What can be seen of a ring: the user data of the entries prepared and not yet submitted, those in
  flight, that of the completion being looked at, and whether the event descriptor is readable. And the elements of a queue, oldest first.
\<close>

record ('cb, 'ring, 'q) io_view =
  vw_prep :: "'ring \<Rightarrow> uptr list"
  vw_flight :: "'ring \<Rightarrow> uptr multiset"
  vw_cur :: "'ring \<Rightarrow> uptr option"
  vw_event :: "'ring \<Rightarrow> bool"
  vw_items :: "'q \<Rightarrow> 'cb PendingReq list"

text \<open>A new entry is prepared with its user data, whatever its operation.\<close>

definition entry_law :: "('ring, 'sqe) uring_api \<Rightarrow> ('cb, 'ring, 'q) io_view \<Rightarrow> bool" where
  "entry_law A W \<longleftrightarrow>
     (\<forall>r r' e op d. get_sqe A r = (r', Some e) \<longrightarrow>
        vw_prep W (sqe_set_data A e d (prep_sqe A e op r')) = vw_prep W r @ [d] \<and>
        vw_flight W (sqe_set_data A e d (prep_sqe A e op r')) = vw_flight W r \<and>
        vw_prep W (sqe_set_data A e d r') = vw_prep W r @ [d] \<and> vw_flight W (sqe_set_data A e d r') = vw_flight W r) \<and>
     (\<forall>r r'. get_sqe A r = (r', None) \<longrightarrow> vw_prep W r' = vw_prep W r \<and> vw_flight W r' = vw_flight W r)"

text \<open>A completion belongs to something in flight, which ends when the completion is marked as seen.\<close>

definition completion_law :: "('ring, 'sqe) uring_api \<Rightarrow> ('cb, 'ring, 'q) io_view \<Rightarrow> bool" where
  "completion_law A W \<longleftrightarrow>
     (\<forall>r r' ret c. wait_cqe A r = Some (r', ret, c) \<or> peek_cqe A r = (r', ret, c) \<longrightarrow>
        vw_prep W r' = vw_prep W r \<and> vw_flight W r' = vw_flight W r \<and>
        (\<forall>c'. ret = 0 \<longrightarrow> c = Some c' \<longrightarrow> cq_data c' \<in># vw_flight W r \<and> vw_cur W r' = Some (cq_data c'))) \<and>
     (\<forall>r d. vw_cur W r = Some d \<longrightarrow>
        vw_prep W (cqe_seen A r) = vw_prep W r \<and> vw_flight W (cqe_seen A r) = vw_flight W r - {#d#})"

text \<open>
  The event descriptor changes none of it; a write makes it readable, and waiting for a completion does not change
  whether it is.
\<close>

definition event_law :: "('ring, 'sqe) uring_api \<Rightarrow> ('cb, 'ring, 'q) io_view \<Rightarrow> bool" where
  "event_law A W \<longleftrightarrow>
     (\<forall>r fd. vw_prep W (read_fd A fd r) = vw_prep W r \<and> vw_flight W (read_fd A fd r) = vw_flight W r \<and>
        vw_cur W (read_fd A fd r) = vw_cur W r) \<and>
     (\<forall>r fd. vw_prep W (write_fd A fd r) = vw_prep W r \<and> vw_flight W (write_fd A fd r) = vw_flight W r \<and>
        vw_event W (write_fd A fd r)) \<and>
     (\<forall>r r' ret c. wait_cqe A r = Some (r', ret, c) \<longrightarrow> vw_event W r' = vw_event W r)"

text \<open>A submission either takes all prepared entries and returns their number, or takes none.\<close>

definition submitted :: "('cb, 'ring, 'q) io_view \<Rightarrow> 'ring \<Rightarrow> 'ring \<Rightarrow> int \<Rightarrow> bool" where
  "submitted W r r' n \<longleftrightarrow>
     (if 0 < n then n = int (length (vw_prep W r)) \<and> vw_prep W r' = [] \<and> vw_flight W r' = vw_flight W r + mset (vw_prep W r)
      else vw_prep W r' = vw_prep W r \<and> vw_flight W r' = vw_flight W r)"

definition submit_law :: "('ring, 'sqe) uring_api \<Rightarrow> ('cb, 'ring, 'q) io_view \<Rightarrow> bool" where
  "submit_law A W \<longleftrightarrow> (\<forall>r r' n. submit A r = (r', n) \<longrightarrow> submitted W r r' n)"

definition ring_laws :: "('ring, 'sqe) uring_api \<Rightarrow> ('cb, 'ring, 'q) io_view \<Rightarrow> bool" where
  "ring_laws A W \<longleftrightarrow> entry_law A W \<and> completion_law A W \<and> event_law A W \<and> submit_law A W"

text \<open>No submission fails for good.\<close>

definition submits :: "('ring, 'sqe) uring_api \<Rightarrow> ('cb, 'ring, 'q) io_view \<Rightarrow> bool" where
  "submits A W \<longleftrightarrow> (\<forall>r. vw_prep W r \<noteq> [] \<longrightarrow> (\<exists>r' n. submit_retry A r = Some (r', n) \<and> 0 < n))"

definition queue_laws :: "('cb PendingReq, 'q) queue_v2 \<Rightarrow> ('cb, 'ring, 'q) io_view \<Rightarrow> bool" where
  "queue_laws V W \<longleftrightarrow>
     (\<forall>q. vw_items W q = [] \<longrightarrow> (\<exists>q' r v. v2_Dequeue V False q = (q', r, v) \<and> r \<noteq> 0 \<and> vw_items W q' = [])) \<and>
     (\<forall>q x xs. vw_items W q = x # xs \<longrightarrow> (\<exists>q'. v2_Dequeue V False q = (q', 0, Some x) \<and> vw_items W q' = xs)) \<and>
     (\<forall>q q' x r. v2_Enqueue V x False q = (q', r) \<longrightarrow> vw_items W q' = (if r = 0 then vw_items W q @ [x] else vw_items W q))"

lemma ring_get_sqe:
  assumes "ring_laws A W" and "get_sqe A r = (r', Some e)"
  shows "vw_prep W (sqe_set_data A e d (prep_sqe A e op r')) = vw_prep W r @ [d]"
    and "vw_flight W (sqe_set_data A e d (prep_sqe A e op r')) = vw_flight W r"
    and "vw_prep W (sqe_set_data A e d r') = vw_prep W r @ [d]" and "vw_flight W (sqe_set_data A e d r') = vw_flight W r"
  using assms unfolding ring_laws_def entry_law_def by blast+

lemma ring_no_sqe:
  assumes "ring_laws A W" and "get_sqe A r = (r', None)"
  shows "vw_prep W r' = vw_prep W r" and "vw_flight W r' = vw_flight W r"
  using assms unfolding ring_laws_def entry_law_def by blast+

lemma ring_cqe:
  assumes "ring_laws A W" and "wait_cqe A r = Some (r', ret, c) \<or> peek_cqe A r = (r', ret, c)"
  shows "vw_prep W r' = vw_prep W r" and "vw_flight W r' = vw_flight W r"
    and "ret = 0 \<Longrightarrow> c = Some c' \<Longrightarrow> cq_data c' \<in># vw_flight W r \<and> vw_cur W r' = Some (cq_data c')"
  using assms unfolding ring_laws_def completion_law_def by blast+

lemma ring_seen:
  assumes "ring_laws A W" and "vw_cur W r = Some d"
  shows "vw_prep W (cqe_seen A r) = vw_prep W r" and "vw_flight W (cqe_seen A r) = vw_flight W r - {#d#}"
  using assms unfolding ring_laws_def completion_law_def by blast+

lemma ring_fd:
  assumes "ring_laws A W"
  shows "vw_prep W (read_fd A fd r) = vw_prep W r" and "vw_flight W (read_fd A fd r) = vw_flight W r"
    and "vw_cur W (read_fd A fd r) = vw_cur W r"
    and "vw_prep W (write_fd A fd r) = vw_prep W r" and "vw_flight W (write_fd A fd r) = vw_flight W r"
    and "vw_event W (write_fd A fd r)"
  using assms unfolding ring_laws_def event_law_def by blast+

text \<open>The retries keep what one submission keeps.\<close>

lemma ring_submit_retry:
  fixes A :: "('ring, 'sqe) uring_api"
  assumes "ring_laws A W" and "submit_retry A r = Some (r', n)"
  shows "submitted W r r' n"
proof -
  have "ring_laws A W \<longrightarrow> submitted W r (fst y) (snd y)" if "submit_retry A r = Some y" for A :: "('ring, 'sqe) uring_api" and r y
    using that
  proof (induction rule: submit_retry.raw_induct [rotated 1, consumes 1])
    case (1 retry A r y)
    show ?case
    proof
      assume A: "ring_laws A W"
      obtain r1 ret where s: "submit A r = (r1, ret)" by (cases "submit A r")
      have one: "submitted W r r1 ret" using A s unfolding ring_laws_def submit_law_def by blast
      show "submitted W r (fst y) (snd y)"
      proof (cases "ret = - 4 \<or> ret = - 11")
        case True
        then have "submitted W r1 (fst y) (snd y)" using 1 A s by auto
        then show ?thesis using one True by (auto simp: submitted_def)
      next
        case False
        then show ?thesis using 1 one s by (auto split: if_splits)
      qed
    qed
  qed
  from this [OF assms(2)] show ?thesis using assms(1) by simp
qed

section \<open>The invariant\<close>

text \<open>What the ring knows: prepared and in flight.\<close>

definition in_ring :: "('cb, 'ring, 'q) io_view \<Rightarrow> 'ring \<Rightarrow> uptr multiset" where
  "in_ring W r = vw_flight W r + mset (vw_prep W r)"

definition is_io :: "'cb PendingReq \<Rightarrow> bool" where
  "is_io req \<longleftrightarrow> pr_type req \<in> {reqt REQ_TYPE_READ, reqt REQ_TYPE_READ_BATCH, reqt REQ_TYPE_WRIET, reqt REQ_TYPE_WRIET_BATCH}"

text \<open>
  The pool and the memory: pooled contexts are distinct, alive, and not in \<open>out\<close>; those in \<open>out\<close> are distinct, alive and
  hold an input or output request; the allocator never yields an address twice.
\<close>

definition ctx_inv :: "uptr multiset \<Rightarrow> 'cb ctx_pool \<Rightarrow> 'cb ctx_mem \<Rightarrow> bool" where
  "ctx_inv out pool mem \<longleftrightarrow> pools_ok fv_ok pool \<and> fa_alloc pool = req_alloc \<and> fa_release pool = req_release \<and>
     (\<forall>a. count (pooled fv_items pool) a \<le> 1) \<and>
     (\<forall>a. a \<in># pooled fv_items pool \<longrightarrow> 0 < a \<and> a \<le> mem_next mem \<and> mem_ctx mem a \<noteq> None \<and> UCtx a \<notin># out) \<and>
     (\<forall>p. count out p \<le> 1) \<and>
     (\<forall>a. UCtx a \<in># out \<longrightarrow> 0 < a \<and> a \<le> mem_next mem \<and> (\<exists>ctx. mem_ctx mem a = Some ctx \<and> is_io (io_req ctx)))"

text \<open>Requests are told apart by their callback and user data.\<close>

definition req_key :: "'cb PendingReq \<Rightarrow> 'cb \<times> u64" where
  "req_key req = (pr_done req, pr_ud req)"

definition out_keys :: "'cb ctx_mem \<Rightarrow> uptr multiset \<Rightarrow> ('cb \<times> u64) multiset" where
  "out_keys mem out = \<Sum>\<^sub># (image_mset (\<lambda>p. case p of UNotifier \<Rightarrow> {#} | UCtx a \<Rightarrow> {#req_key (io_req (the (mem_ctx mem a)))#}) out)"

definition called_keys :: "('cb \<times> int \<times> u64) list \<Rightarrow> ('cb \<times> u64) multiset" where
  "called_keys log = mset (map (\<lambda>(d, res, ud). (d, ud)) log)"

text \<open>Every request a worker was given: waiting in the queue, in the ring, or answered.\<close>

definition io_ledger :: "('cb, 'ring, 'q) io_view \<Rightarrow> ('cb, 'ring, 'q) Reaper \<Rightarrow> ('cb \<times> u64) multiset" where
  "io_ledger W s = mset (map req_key (vw_items W (wi_queue (rp_wk s)))) +
     out_keys (rp_mem s) (in_ring W (wi_ring (rp_wk s))) + called_keys (rp_called s)"

text \<open>\<open>p\<close> requests are enqueued and not yet counted.\<close>

definition io_inv :: "('cb, 'ring, 'q) io_view \<Rightarrow> nat \<Rightarrow> ('cb, 'ring, 'q) Reaper \<Rightarrow> bool" where
  "io_inv W p s \<longleftrightarrow> ctx_inv (in_ring W (wi_ring (rp_wk s))) (rp_pool s) (rp_mem s) \<and>
     (\<forall>req \<in> set (vw_items W (wi_queue (rp_wk s))). is_io req) \<and>
     wi_unsubmit (rp_wk s) = of_nat (length (vw_items W (wi_queue (rp_wk s)))) - of_nat p \<and>
     pr_type (wi_notifier (rp_wk s)) = reqt REQ_TYPE_INTERNAL_REQ \<and>
     wi_uncompleted (rp_wk s) = int (size (vw_flight W (wi_ring (rp_wk s))))"

section \<open>Contexts\<close>

text \<open>A context that a worker has taken from the pool and not yet given to the ring.\<close>

definition ctx_held :: "nat \<Rightarrow> uptr multiset \<Rightarrow> 'cb ctx_pool \<Rightarrow> 'cb ctx_mem \<Rightarrow> bool" where
  "ctx_held a out pool mem \<longleftrightarrow>
     0 < a \<and> a \<le> mem_next mem \<and> mem_ctx mem a \<noteq> None \<and> UCtx a \<notin># out \<and> a \<notin># pooled fv_items pool"

text \<open>The memory still holds what the ring points to.\<close>

definition mem_keeps :: "uptr multiset \<Rightarrow> 'cb ctx_mem \<Rightarrow> 'cb ctx_mem \<Rightarrow> bool" where
  "mem_keeps out mem mem' \<longleftrightarrow> (\<forall>a. UCtx a \<in># out \<longrightarrow> mem_ctx mem' a = mem_ctx mem a)"

lemma ctx_alloc:
  assumes "ctx_inv out pool mem"
  shows "\<exists>pool' mem' a. FixCountAllocator_AllocByShard FixCountVector_ops wid pool mem = Some (pool', mem', a) \<and>
    ctx_inv out pool' mem' \<and> ctx_held a out pool' mem' \<and> mem_keeps out mem mem'"
proof -
  have p: "pools_ok fv_ok pool" "fa_alloc pool = req_alloc" "fa_release pool = req_release"
    using assms by (simp_all add: ctx_inv_def)
  from fcv.AllocByShard_pooled [OF p(1), of wid mem] obtain pool' mem' a where
    a: "FixCountAllocator_AllocByShard FixCountVector_ops wid pool mem = Some (pool', mem', a)" "pools_ok fv_ok pool'"
      "fa_alloc pool' = req_alloc" "fa_release pool' = req_release"
    and c: "mem' = mem \<and> pooled fv_items pool = add_mset a (pooled fv_items pool') \<or>
      (mem', a) = req_alloc mem \<and> pooled fv_items pool' = pooled fv_items pool"
    by (auto simp: p(2,3))
  from c show ?thesis
  proof (elim disjE conjE)
    assume m: "mem' = mem" "pooled fv_items pool = add_mset a (pooled fv_items pool')"
    have "count (pooled fv_items pool) b \<le> 1" for b using assms by (simp add: ctx_inv_def)
    from this [of a] have na: "a \<notin># pooled fv_items pool'" by (simp add: m(2) not_in_iff)
    have "count (pooled fv_items pool') b \<le> 1" for b
      using \<open>\<And>b. count (pooled fv_items pool) b \<le> 1\<close> [of b] by (simp add: m(2) split: if_splits)
    with assms a m(1) have "ctx_inv out pool' mem'" by (auto simp: ctx_inv_def m(2))
    moreover have "ctx_held a out pool' mem'" using assms na by (simp add: ctx_inv_def ctx_held_def m)
    ultimately show ?thesis using a(1) m(1) by (auto simp: mem_keeps_def)
  next
    assume m: "(mem', a) = req_alloc mem" "pooled fv_items pool' = pooled fv_items pool"
    have n: "a = Suc (mem_next mem)" "mem_next mem' = Suc (mem_next mem)" "mem_ctx mem' = (mem_ctx mem)(a \<mapsto> mem_junk mem)"
      using m(1) by (simp_all add: req_alloc_def)
    have o: "UCtx a \<notin># out" "a \<notin># pooled fv_items pool" using assms n(1) by (auto simp: ctx_inv_def)
    have "ctx_inv out pool' mem'"
      using assms a(2-4) o n(1) by (auto simp: ctx_inv_def m(2) n(2,3) intro: le_SucI)
    moreover have "ctx_held a out pool' mem'" using n o by (simp add: ctx_held_def m(2))
    moreover have "mem_keeps out mem mem'" using o by (auto simp: mem_keeps_def n(3))
    ultimately show ?thesis using a(1) by blast
  qed
qed

lemma ctx_free:
  assumes "ctx_inv out pool mem" and "ctx_held a out pool mem"
  shows "\<exists>pool' mem'. FixCountAllocator_ReleaseByShard FixCountVector_ops wid a pool mem = Some (pool', mem') \<and>
    ctx_inv out pool' mem' \<and> mem_keeps out mem mem'"
proof -
  have p: "pools_ok fv_ok pool" "fa_alloc pool = req_alloc" "fa_release pool = req_release"
    using assms(1) by (simp_all add: ctx_inv_def)
  from fcv.ReleaseByShard_pooled [OF p(1), of wid a mem] obtain pool' mem' where
    a: "FixCountAllocator_ReleaseByShard FixCountVector_ops wid a pool mem = Some (pool', mem')" "pools_ok fv_ok pool'"
      "fa_alloc pool' = req_alloc" "fa_release pool' = req_release"
    and c: "mem' = mem \<and> pooled fv_items pool' = add_mset a (pooled fv_items pool) \<or>
      mem' = req_release a mem \<and> pooled fv_items pool' = pooled fv_items pool"
    by (auto simp: p(2,3))
  from c show ?thesis
  proof (elim disjE conjE)
    assume m: "mem' = mem" "pooled fv_items pool' = add_mset a (pooled fv_items pool)"
    have "count (pooled fv_items pool') b \<le> 1" for b
      using assms by (auto simp: ctx_inv_def ctx_held_def m(2) not_in_iff)
    with assms a m(1) have "ctx_inv out pool' mem'" by (auto simp: ctx_inv_def ctx_held_def m(2))
    with a(1) m(1) show ?thesis by (auto simp: mem_keeps_def)
  next
    assume m: "mem' = req_release a mem" "pooled fv_items pool' = pooled fv_items pool"
    have "ctx_inv out pool' mem'"
      using assms a(2-4) by (auto simp: ctx_inv_def ctx_held_def m req_release_def)
    moreover have "mem_keeps out mem mem'" using assms(2) by (auto simp: mem_keeps_def m(1) req_release_def ctx_held_def)
    ultimately show ?thesis using a(1) by blast
  qed
qed

text \<open>Giving a context to the ring, and getting one back.\<close>

lemma ctx_give:
  assumes "ctx_inv out pool mem" and "ctx_held a out pool mem" and "is_io (io_req ctx)"
  shows "ctx_inv (add_mset (UCtx a) out) pool (mem\<lparr>mem_ctx := (mem_ctx mem)(a \<mapsto> ctx)\<rparr>)"
  using assms by (auto simp: ctx_inv_def ctx_held_def not_in_iff)

lemma ctx_back:
  assumes "ctx_inv (add_mset (UCtx a) out) pool mem"
  shows "ctx_inv out pool mem" and "ctx_held a out pool mem" and "\<exists>ctx. mem_ctx mem a = Some ctx \<and> is_io (io_req ctx)"
proof -
  have c: "count (add_mset (UCtx a) out) p \<le> 1" for p using assms by (simp add: ctx_inv_def)
  have "count out p \<le> 1" for p using c [of p] by (simp split: if_splits)
  then show "ctx_inv out pool mem" using assms by (simp add: ctx_inv_def)
  have "UCtx a \<notin># out" using c [of "UCtx a"] by (simp add: not_in_iff)
  moreover have "a \<notin># pooled fv_items pool" using assms by (auto simp: ctx_inv_def)
  ultimately show "ctx_held a out pool mem" using assms by (auto simp: ctx_inv_def ctx_held_def)
  show "\<exists>ctx. mem_ctx mem a = Some ctx \<and> is_io (io_req ctx)" using assms by (auto simp: ctx_inv_def)
qed

lemma ctx_inv_notifier:
  "ctx_inv out pool mem \<Longrightarrow> UNotifier \<notin># out \<Longrightarrow> ctx_inv (add_mset UNotifier out) pool mem"
  "ctx_inv (add_mset UNotifier out) pool mem \<Longrightarrow> ctx_inv out pool mem"
proof -
  show "ctx_inv out pool mem \<Longrightarrow> UNotifier \<notin># out \<Longrightarrow> ctx_inv (add_mset UNotifier out) pool mem"
    by (auto simp: ctx_inv_def not_in_iff)
  assume i: "ctx_inv (add_mset UNotifier out) pool mem"
  then have c: "count (add_mset UNotifier out) p \<le> 1" for p by (simp add: ctx_inv_def)
  have "count out p \<le> 1" for p using c [of p] by (simp split: if_splits)
  with i show "ctx_inv out pool mem" by (simp add: ctx_inv_def)
qed

lemma out_keys_simps [simp]:
  "out_keys mem {#} = {#}" "out_keys mem (add_mset UNotifier out) = out_keys mem out"
  "out_keys mem (add_mset (UCtx a) out) = add_mset (req_key (io_req (the (mem_ctx mem a)))) (out_keys mem out)"
  by (simp_all add: out_keys_def)

lemma out_keys_cong: "mem_keeps out mem mem' \<Longrightarrow> out_keys mem' out = out_keys mem out"
  unfolding out_keys_def mem_keeps_def
  by (intro arg_cong [of _ _ "\<Sum>\<^sub>#"] image_mset_cong) (auto split: uptr.splits)

lemma out_keys_give:
  assumes "UCtx a \<notin># out"
  shows "out_keys (mem\<lparr>mem_ctx := (mem_ctx mem)(a \<mapsto> ctx)\<rparr>) (add_mset (UCtx a) out) =
    add_mset (req_key (io_req ctx)) (out_keys mem out)"
proof -
  have "mem_keeps out mem (mem\<lparr>mem_ctx := (mem_ctx mem)(a \<mapsto> ctx)\<rparr>)" using assms by (auto simp: mem_keeps_def)
  from out_keys_cong [OF this] show ?thesis by simp
qed

section \<open>One pass of the loop\<close>

abbreviation rp_ring :: "('cb, 'ring, 'q) Reaper \<Rightarrow> 'ring" where
  "rp_ring s \<equiv> wi_ring (rp_wk s)"

abbreviation rp_items :: "('cb, 'ring, 'q) io_view \<Rightarrow> ('cb, 'ring, 'q) Reaper \<Rightarrow> 'cb PendingReq list" where
  "rp_items W s \<equiv> vw_items W (wi_queue (rp_wk s))"

text \<open>A statistic, or a ring that shows the same, changes nothing of interest.\<close>

lemma stat_add_fields [simp]:
  "wi_ring (stat_add t n wk) = wi_ring wk" "wi_queue (stat_add t n wk) = wi_queue wk"
  "wi_uncompleted (stat_add t n wk) = wi_uncompleted wk" "wi_unsubmit (stat_add t n wk) = wi_unsubmit wk"
  "wi_notifier (stat_add t n wk) = wi_notifier wk"
  by (simp_all add: stat_add_def)

lemma on_ring_fields [simp]:
  "wi_ring (on_ring f wk) = f (wi_ring wk)" "wi_queue (on_ring f wk) = wi_queue wk"
  "wi_uncompleted (on_ring f wk) = wi_uncompleted wk" "wi_unsubmit (on_ring f wk) = wi_unsubmit wk"
  "wi_notifier (on_ring f wk) = wi_notifier wk"
  by (simp_all add: on_ring_def)

lemma rp_upd_fields [simp]:
  "rp_wk (rp_upd f s) = f (rp_wk s)" "rp_pool (rp_upd f s) = rp_pool s" "rp_mem (rp_upd f s) = rp_mem s"
  "rp_called (rp_upd f s) = rp_called s"
  by (simp_all add: rp_upd_def)

lemma rp_call_fields [simp]:
  "rp_wk (rp_call req res s) = rp_wk s" "rp_pool (rp_call req res s) = rp_pool s" "rp_mem (rp_call req res s) = rp_mem s"
  "called_keys (rp_called (rp_call req res s)) = add_mset (req_key req) (called_keys (rp_called s))"
  by (simp_all add: rp_call_def called_keys_def req_key_def)

lemma rp_free_held:
  assumes "ctx_inv out (rp_pool s) (rp_mem s)" and "ctx_held a out (rp_pool s) (rp_mem s)"
  shows "\<exists>s'. rp_free wid a s = Some s' \<and> ctx_inv out (rp_pool s') (rp_mem s') \<and> mem_keeps out (rp_mem s) (rp_mem s') \<and>
    rp_wk s' = rp_wk s \<and> rp_called s' = rp_called s"
  using ctx_free [OF assms, of wid] by (auto simp: rp_free_def)

lemma completed:
  assumes "ring_laws A W" and "io_inv W p s" and "cq_data c \<in># vw_flight W (rp_ring s)" and "vw_cur W (rp_ring s) = Some (cq_data c)"
    and "rearm \<longrightarrow> UNotifier \<notin># in_ring W (rp_ring s)"
  shows "\<exists>s'. pollLoop_complete A wid c rearm s = Some (s', rearm \<or> cq_data c = UNotifier) \<and> io_inv W p s' \<and>
    io_ledger W s' = io_ledger W s \<and>
    vw_prep W (rp_ring s') = vw_prep W (rp_ring s) \<and> vw_flight W (rp_ring s') = vw_flight W (rp_ring s) - {#cq_data c#} \<and>
    (rearm \<or> cq_data c = UNotifier \<longrightarrow> UNotifier \<notin># in_ring W (rp_ring s'))"
proof -
  let ?r = "rp_ring s" and ?d = "cq_data c" and ?m = "rp_mem s"
  obtain F where F: "vw_flight W ?r = add_mset ?d F" using assms(3) by (metis insert_DiffM)
  let ?out = "F + mset (vw_prep W ?r)"
  have ir: "in_ring W ?r = add_mset ?d ?out" by (simp add: in_ring_def F)
  have inv: "ctx_inv (add_mset ?d ?out) (rp_pool s) ?m" using assms(2) by (simp add: io_inv_def ir)
  have u: "wi_uncompleted (rp_wk s) = int (size F) + 1" using assms(2) by (simp add: io_inv_def F)
  show ?thesis
  proof (cases ?d)
    case UNotifier
    have "count (add_mset ?d ?out) UNotifier \<le> 1" using inv by (simp add: ctx_inv_def)
    then have n: "UNotifier \<notin># ?out" by (simp add: UNotifier not_in_iff)
    have t: "pr_type (wi_notifier (rp_wk s)) = reqt REQ_TYPE_INTERNAL_REQ" using assms(2) by (simp add: io_inv_def)
    note fd = ring_fd [OF assms(1)]
    have c: "vw_cur W (read_fd A fd ?r) = Some ?d" for fd using assms(4) fd(3) by simp
    have e: "vw_prep W (cqe_seen A (read_fd A fd ?r)) = vw_prep W ?r" "vw_flight W (cqe_seen A (read_fd A fd ?r)) = F" for fd
      using ring_seen [OF assms(1) c] fd(1,2) by (simp_all add: F)
    have "ctx_inv ?out (rp_pool s) ?m" using inv ctx_inv_notifier(2) by (simp add: UNotifier)
    then show ?thesis
      using assms(2) n ir by (simp add: pollLoop_complete_def complete_req_def UNotifier t io_inv_def io_ledger_def in_ring_def e u F)
  next
    case (UCtx a)
    note b = ctx_back [OF inv [unfolded UCtx]]
    obtain ctx where ctx: "mem_ctx ?m a = Some ctx" "is_io (io_req ctx)" using b(3) by blast
    let ?s1 = "rp_call (io_req ctx) (cq_res c) (rp_upd (\<lambda>wk. wk\<lparr>wi_uncompleted := wi_uncompleted wk - 1\<rparr>) s)"
    from rp_free_held [of ?out ?s1 a wid] b(1,2) obtain s' where
      s': "rp_free wid a ?s1 = Some s'" "ctx_inv ?out (rp_pool s') (rp_mem s')" "mem_keeps ?out ?m (rp_mem s')"
        "rp_wk s' = rp_wk ?s1" "rp_called s' = rp_called ?s1" by auto
    note e = ring_seen [OF assms(1,4)]
    have r: "pollLoop_complete A wid c rearm s = Some (rp_upd (on_ring (cqe_seen A) \<circ> stat_add IOURING_STATISTIC_RSP 1) s', rearm)"
      using ctx s'(1) by (simp add: pollLoop_complete_def complete_req_def UCtx is_io_def)
    have "io_ledger W (rp_upd (on_ring (cqe_seen A) \<circ> stat_add IOURING_STATISTIC_RSP 1) s') = io_ledger W s"
      using ir by (simp add: io_ledger_def s'(4,5) in_ring_def e F out_keys_cong [OF s'(3)] UCtx ctx(1))
    moreover have "io_inv W p (rp_upd (on_ring (cqe_seen A) \<circ> stat_add IOURING_STATISTIC_RSP 1) s')"
      using assms(2) s'(2) by (simp add: io_inv_def s'(4) in_ring_def e F u)
    moreover have "rearm \<longrightarrow> UNotifier \<notin># ?out" using assms(5) ir by simp
    ultimately show ?thesis using r by (simp add: s'(4) e in_ring_def F UCtx)
  qed
qed

lemma rearmed:
  assumes "ring_laws A W" and "io_inv W p s" and "rearm \<longrightarrow> UNotifier \<notin># in_ring W (rp_ring s)"
  obtains s' n where "pollLoop_rearm A rearm s = (s', n)" and "io_inv W p s'" and "io_ledger W s' = io_ledger W s"
    and "vw_prep W (rp_ring s') = vw_prep W (rp_ring s) @ replicate n UNotifier" and "vw_flight W (rp_ring s') = vw_flight W (rp_ring s)"
    and "wi_queue (rp_wk s') = wi_queue (rp_wk s)" and "wi_uncompleted (rp_wk s') = wi_uncompleted (rp_wk s)"
    and "n \<le> 1" and "rearm \<or> n = 0" and "rearm \<Longrightarrow> n = 0 \<Longrightarrow> \<exists>r. get_sqe A (rp_ring s) = (r, None)"
proof (cases rearm)
  case False
  then show ?thesis using that [of s 0] assms(2) by (simp add: pollLoop_rearm_def)
next
  case True
  obtain r e where g: "get_sqe A (rp_ring s) = (r, e)" by (cases "get_sqe A (rp_ring s)")
  show ?thesis
  proof (cases e)
    case None
    note v = ring_no_sqe [OF assms(1) g [unfolded None]]
    show ?thesis
      using that [of "rp_upd (on_ring (\<lambda>_. r)) s" 0] assms(2) True
      by (simp add: pollLoop_rearm_def g None io_inv_def io_ledger_def in_ring_def v)
  next
    case (Some e')
    let ?s' = "rp_upd (on_ring (\<lambda>_. sqe_set_data A e' UNotifier (prep_sqe A e' (PollAdd (pr_fd (wi_notifier (rp_wk s)))) r))) s"
    note v = ring_get_sqe [OF assms(1) g [unfolded Some]]
    have "in_ring W (rp_ring ?s') = add_mset UNotifier (in_ring W (rp_ring s))" by (simp add: in_ring_def v)
    then have "io_inv W p ?s'" "io_ledger W ?s' = io_ledger W s"
      using assms(2,3) True ctx_inv_notifier(1) by (auto simp: io_inv_def io_ledger_def v)
    then show ?thesis using that [of ?s' 1] True by (simp add: pollLoop_rearm_def g Some v)
  qed
qed

text \<open>A request in hand: taken from the queue, not yet in the ring.\<close>

lemma taken:
  assumes "ring_laws A W" and "io_inv W p s" and "is_io req"
  shows "\<exists>x. pollLoop_take A wid req s = Some x \<and> (case x of
      Inl s' \<Rightarrow> io_inv W p s' \<and> io_ledger W s' = add_mset (req_key req) (io_ledger W s) \<and> (\<exists>r. get_sqe A (rp_ring s) = (r, None)) \<and>
        vw_prep W (rp_ring s') = vw_prep W (rp_ring s) \<and> vw_flight W (rp_ring s') = vw_flight W (rp_ring s) \<and>
        wi_queue (rp_wk s') = wi_queue (rp_wk s) \<and> wi_uncompleted (rp_wk s') = wi_uncompleted (rp_wk s)
    | Inr (s', a) \<Rightarrow> io_inv W p s' \<and> io_ledger W s' = add_mset (req_key req) (io_ledger W s) \<and>
        vw_prep W (rp_ring s') = vw_prep W (rp_ring s) @ [UCtx a] \<and> vw_flight W (rp_ring s') = vw_flight W (rp_ring s) \<and>
        wi_queue (rp_wk s') = wi_queue (rp_wk s) \<and> wi_uncompleted (rp_wk s') = wi_uncompleted (rp_wk s))"
proof -
  let ?out = "in_ring W (rp_ring s)"
  have inv: "ctx_inv ?out (rp_pool s) (rp_mem s)" using assms(2) by (simp add: io_inv_def)
  obtain pool mem a where a: "FixCountAllocator_AllocByShard FixCountVector_ops wid (rp_pool s) (rp_mem s) = Some (pool, mem, a)"
    "ctx_inv ?out pool mem" "ctx_held a ?out pool mem" "mem_keeps ?out (rp_mem s) mem"
    using ctx_alloc [OF inv] by blast
  have t: "0 < pr_type req" "pr_type req < 6" using assms(3) by (auto simp: is_io_def)
  have a0: "a \<noteq> 0" and al: "mem_ctx mem a \<noteq> None" and ao: "UCtx a \<notin># ?out" using a(3) by (simp_all add: ctx_held_def)
  obtain r e where g: "get_sqe A (rp_ring s) = (r, e)" by (cases "get_sqe A (rp_ring s)")
  let ?s1 = "s\<lparr>rp_pool := pool, rp_mem := mem\<rparr>"
  show ?thesis
  proof (cases e)
    case None
    note v = ring_no_sqe [OF assms(1) g [unfolded None]]
    let ?s2 = "rp_call req (ioerr IOURING_ERR_ALLOC_SQE_FAILED) (rp_upd (on_ring (\<lambda>_. r)) ?s1)"
    obtain s3 where s3: "rp_free wid a ?s2 = Some s3" "ctx_inv ?out (rp_pool s3) (rp_mem s3)" "mem_keeps ?out mem (rp_mem s3)"
      "rp_wk s3 = rp_wk ?s2" "rp_called s3 = rp_called ?s2"
      using rp_free_held [of ?out ?s2 a wid] a(2,3) by auto
    let ?s4 = "rp_upd (stat_add IOURING_STATISTIC_GET_SQE_FAIL 1) s3"
    have "pollLoop_take A wid req s = Some (Inl ?s4)"
      using t a0 s3(1) by (simp add: pollLoop_take_def a(1) g None)
    moreover have "io_inv W p ?s4" using assms(2) s3(2) by (simp add: io_inv_def s3(4) in_ring_def v)
    moreover have "io_ledger W ?s4 = add_mset (req_key req) (io_ledger W s)"
      using out_keys_cong [OF s3(3)] out_keys_cong [OF a(4)] by (simp add: io_ledger_def s3(4,5) in_ring_def v)
    ultimately show ?thesis using g None by (simp add: s3(4) v)
  next
    case (Some e')
    obtain ctx where ctx: "mem_ctx mem a = Some ctx" using al by blast
    let ?ctx = "\<lparr>io_req = req, io_iov = ctx_iov req (io_iov ctx)\<rparr>" and ?r = "sqe_set_data A e' (UCtx a) (prep_req A e' a req r)"
    let ?s4 = "rp_upd (on_ring (\<lambda>_. ?r)) (?s1\<lparr>rp_mem := mem\<lparr>mem_ctx := (mem_ctx mem)(a \<mapsto> ?ctx)\<rparr>\<rparr>)"
    have "\<exists>op. prep_req A e' a req r = prep_sqe A e' op r"
      using assms(3) by (auto simp: prep_req_def is_io_def)
    then obtain op where "?r = sqe_set_data A e' (UCtx a) (prep_sqe A e' op r)" by auto
    then have v: "vw_prep W ?r = vw_prep W (rp_ring s) @ [UCtx a]" "vw_flight W ?r = vw_flight W (rp_ring s)"
      using ring_get_sqe [OF assms(1) g [unfolded Some]] by simp_all
    have "pollLoop_take A wid req s = Some (Inr (?s4, a))"
      using t a0 by (simp add: pollLoop_take_def a(1) g Some ctx)
    moreover have ir: "in_ring W ?r = add_mset (UCtx a) ?out" by (simp add: in_ring_def v)
    moreover have "io_inv W p ?s4"
      using assms(2) ctx_give [OF a(2,3), of ?ctx] assms(3) by (simp add: io_inv_def ir v)
    moreover have "io_ledger W ?s4 = add_mset (req_key req) (io_ledger W s)"
      using out_keys_give [OF ao, of mem ?ctx] out_keys_cong [OF a(4)] by (simp add: io_ledger_def ir)
    ultimately show ?thesis by (simp add: v)
  qed
qed

text \<open>How the filling loop leaves the queue: empty, at a limit, or without room in the ring.\<close>

lemma filled:
  assumes "ring_laws A W" and "queue_laws V W" and "0 \<le> uo_max_batch_num opt" and "uo_max_batch_num opt < 2 ^ 31"
    and "io_inv W p s"
  shows "\<exists>s' new. pollLoop_fill A V opt wid n s unsub = Some (s', unsub @ new) \<and> io_inv W p s' \<and> io_ledger W s' = io_ledger W s \<and>
    vw_prep W (rp_ring s') = vw_prep W (rp_ring s) @ map UCtx new \<and> vw_flight W (rp_ring s') = vw_flight W (rp_ring s) \<and>
    wi_uncompleted (rp_wk s') = wi_uncompleted (rp_wk s) \<and>
    (new = [] \<or> wi_uncompleted (rp_wk s) < uo_iodepth opt \<and> int (length (unsub @ new) + n) \<le> uo_max_batch_num opt) \<and>
    (rp_items W s' = [] \<or> uo_iodepth opt \<le> wi_uncompleted (rp_wk s') \<or> uo_max_batch_num opt \<le> int (length (unsub @ new) + n) \<or>
     (\<exists>r r'. vw_prep W r = vw_prep W (rp_ring s) @ map UCtx new \<and> int (length (unsub @ new) + n) < uo_max_batch_num opt \<and> get_sqe A r = (r', None)))"
  using assms
proof (induction A V opt wid n s unsub rule: pollLoop_fill.induct)
  case (1 A V opt wid n s unsub)
  have m: "unat (word_of_int (uo_max_batch_num opt) :: u32) = nat (uo_max_batch_num opt)"
    using "1.prems"(3,4) by (simp add: unat_eq_nat_uint uint_word_of_int)
  let ?go = "wi_uncompleted (rp_wk s) < uo_iodepth opt \<and> length unsub + n < nat (uo_max_batch_num opt)"
  show ?case
  proof (cases ?go)
    case False
    then have "pollLoop_fill A V opt wid n s unsub = Some (s, unsub @ [])"
      by (subst pollLoop_fill.simps) (auto simp: m)
    moreover have "uo_iodepth opt \<le> wi_uncompleted (rp_wk s) \<or> uo_max_batch_num opt \<le> int (length unsub + n)"
      using False by linarith
    ultimately show ?thesis using "1.prems"(5) by (intro exI [of _ s] exI [of _ "[]"]) auto
  next
    case True
    show ?thesis
    proof (cases "rp_items W s")
      case Nil
      then obtain q r v where d: "v2_Dequeue V False (wi_queue (rp_wk s)) = (q, r, v)" "r \<noteq> 0" "vw_items W q = []"
        using "1.prems"(2) by (auto simp: queue_laws_def)
      let ?s' = "rp_upd (\<lambda>wk. wk\<lparr>wi_queue := q\<rparr>) s"
      have "pollLoop_fill A V opt wid n s unsub = Some (?s', unsub @ [])"
        using True d by (subst pollLoop_fill.simps) (simp add: m)
      moreover have "io_inv W p ?s'" "io_ledger W ?s' = io_ledger W s"
        using "1.prems"(5) Nil d(3) by (simp_all add: io_inv_def io_ledger_def)
      ultimately show ?thesis using d(3) by (intro exI [of _ ?s'] exI [of _ "[]"]) simp
    next
      case (Cons req reqs)
      then obtain q where d: "v2_Dequeue V False (wi_queue (rp_wk s)) = (q, 0, Some req)" "vw_items W q = reqs"
        using "1.prems"(2) unfolding queue_laws_def by blast
      let ?s1 = "rp_upd (\<lambda>wk. wk\<lparr>wi_queue := q, wi_unsubmit := wi_unsubmit wk - 1\<rparr>) s"
      have i1: "io_inv W p ?s1" and io: "is_io req" and l1: "io_ledger W s = add_mset (req_key req) (io_ledger W ?s1)"
        using "1.prems"(5) Cons d(2) by (simp_all add: io_inv_def io_ledger_def)
      from taken [OF "1.prems"(1) i1 io, of wid] obtain x where x: "pollLoop_take A wid req ?s1 = Some x" and
        y: "case x of
            Inl s' \<Rightarrow> io_inv W p s' \<and> io_ledger W s' = add_mset (req_key req) (io_ledger W ?s1) \<and> (\<exists>r. get_sqe A (rp_ring ?s1) = (r, None)) \<and>
              vw_prep W (rp_ring s') = vw_prep W (rp_ring ?s1) \<and> vw_flight W (rp_ring s') = vw_flight W (rp_ring ?s1) \<and>
              wi_queue (rp_wk s') = wi_queue (rp_wk ?s1) \<and> wi_uncompleted (rp_wk s') = wi_uncompleted (rp_wk ?s1)
          | Inr (s', a) \<Rightarrow> io_inv W p s' \<and> io_ledger W s' = add_mset (req_key req) (io_ledger W ?s1) \<and>
              vw_prep W (rp_ring s') = vw_prep W (rp_ring ?s1) @ [UCtx a] \<and> vw_flight W (rp_ring s') = vw_flight W (rp_ring ?s1) \<and>
              wi_queue (rp_wk s') = wi_queue (rp_wk ?s1) \<and> wi_uncompleted (rp_wk s') = wi_uncompleted (rp_wk ?s1)" by blast
      show ?thesis
      proof (cases x)
        case (Inl s')
        then have "pollLoop_fill A V opt wid n s unsub = Some (s', unsub @ [])"
          using True d x by (subst pollLoop_fill.simps) (simp add: m)
        moreover have "\<exists>r r'. vw_prep W r = vw_prep W (rp_ring s) @ map UCtx [] \<and> int (length (unsub @ []) + n) < uo_max_batch_num opt \<and>
            get_sqe A r = (r', None)"
          using y Inl True by - (rule exI [of _ "rp_ring s"], auto simp del: of_nat_add)
        ultimately show ?thesis using y Inl l1 by (intro exI [of _ s'] exI [of _ "[]"]) auto
      next
        case (Inr z)
        then obtain s' a where z: "x = Inr (s', a)" by (cases z) auto
        have f: "pollLoop_fill A V opt wid n s unsub = pollLoop_fill A V opt wid n s' (unsub @ [a])"
          using True d x z by (subst pollLoop_fill.simps) (simp add: m)
        have "io_inv W p s'" using y z by simp
        from "1.IH" [OF True [folded m] d(1) [symmetric] refl _ refl x z refl "1.prems"(1-4) this] obtain s'' new where
          h: "pollLoop_fill A V opt wid n s' (unsub @ [a]) = Some (s'', (unsub @ [a]) @ new)" "io_inv W p s''" "io_ledger W s'' = io_ledger W s'"
            "vw_prep W (rp_ring s'') = vw_prep W (rp_ring s') @ map UCtx new" "vw_flight W (rp_ring s'') = vw_flight W (rp_ring s')"
            "wi_uncompleted (rp_wk s'') = wi_uncompleted (rp_wk s')"
            "new = [] \<or> wi_uncompleted (rp_wk s') < uo_iodepth opt \<and> int (length ((unsub @ [a]) @ new) + n) \<le> uo_max_batch_num opt"
            "rp_items W s'' = [] \<or> uo_iodepth opt \<le> wi_uncompleted (rp_wk s'') \<or> uo_max_batch_num opt \<le> int (length ((unsub @ [a]) @ new) + n) \<or>
             (\<exists>r r'. vw_prep W r = vw_prep W (rp_ring s') @ map UCtx new \<and> int (length ((unsub @ [a]) @ new) + n) < uo_max_batch_num opt \<and> get_sqe A r = (r', None))"
          by auto
        have "int (length (unsub @ a # new) + n) \<le> uo_max_batch_num opt" using h(7) True by auto
        then show ?thesis using f h y z l1 True by (intro exI [of _ s''] exI [of _ "a # new"]) auto
      qed
    qed
  qed
qed

lemma handed_over:
  assumes "ring_laws A W" and "submits A W" and "io_inv W p s" and "length (vw_prep W (rp_ring s)) = length unsub + n"
  shows "\<exists>s'. pollLoop_submit A wid n unsub rearm s = Some (s', rearm \<and> vw_prep W (rp_ring s) = []) \<and> io_inv W p s' \<and>
    io_ledger W s' = io_ledger W s \<and> vw_prep W (rp_ring s') = [] \<and>
    vw_flight W (rp_ring s') = vw_flight W (rp_ring s) + mset (vw_prep W (rp_ring s)) \<and>
    wi_queue (rp_wk s') = wi_queue (rp_wk s)"
proof (cases "vw_prep W (rp_ring s) = []")
  case True
  then show ?thesis using assms(3,4) by (simp add: pollLoop_submit_def)
next
  case False
  then obtain r n' where r: "submit_retry A (rp_ring s) = Some (r, n')" "0 < n'" using assms(2) unfolding submits_def by blast
  then have v: "n' = int (length unsub) + int n" "vw_prep W r = []" "vw_flight W r = vw_flight W (rp_ring s) + mset (vw_prep W (rp_ring s))"
    using ring_submit_retry [OF assms(1) r(1)] assms(4) by (simp_all add: submitted_def)
  let ?s' = "rp_upd (stat_add IOURING_STATISTIC_SUBMIT 1 \<circ> (\<lambda>wk. wk\<lparr>wi_uncompleted := wi_uncompleted wk + (int (length unsub) + int n)\<rparr>))
    (rp_upd (on_ring (\<lambda>_. r)) s)"
  have "pollLoop_submit A wid n unsub rearm s = Some (?s', False)"
    using r v(1) by (simp add: pollLoop_submit_def)
  moreover have "in_ring W r = in_ring W (rp_ring s)" by (simp add: in_ring_def v)
  moreover have "int (size (vw_flight W r)) = int (size (vw_flight W (rp_ring s))) + (int (length unsub) + int n)"
    using assms(4) by (simp add: v(3))
  ultimately show ?thesis using False assms(3) v(2,3) by (simp add: io_inv_def io_ledger_def)
qed

text \<open>Requests of users in flight.\<close>

definition in_flight :: "('cb, 'ring, 'q) io_view \<Rightarrow> ('cb, 'ring, 'q) Reaper \<Rightarrow> nat" where
  "in_flight W s = size (filter_mset (\<lambda>x. x \<noteq> UNotifier) (vw_flight W (rp_ring s)))"

text \<open>Between two passes of the loop.\<close>

definition io_ok :: "('cb, 'ring, 'q) io_view \<Rightarrow> UringOptions \<Rightarrow> nat \<Rightarrow> ('cb, 'ring, 'q) Reaper \<Rightarrow> bool \<Rightarrow> bool" where
  "io_ok W opt p s rearm \<longleftrightarrow> io_inv W p s \<and> vw_prep W (rp_ring s) = [] \<and>
     (rearm \<longrightarrow> UNotifier \<notin># vw_flight W (rp_ring s)) \<and> int (in_flight W s) < uo_iodepth opt + uo_max_batch_num opt"

definition opt_ok :: "UringOptions \<Rightarrow> bool" where
  "opt_ok opt \<longleftrightarrow> 0 < uo_max_batch_num opt \<and> uo_max_batch_num opt < 2 ^ 31 \<and> 0 < uo_iodepth opt"

text \<open>The ring has an entry left as long as fewer than a batch are prepared.\<close>

definition has_room :: "('ring, 'sqe) uring_api \<Rightarrow> ('cb, 'ring, 'q) io_view \<Rightarrow> UringOptions \<Rightarrow> bool" where
  "has_room A W opt \<longleftrightarrow> (\<forall>r r'. int (length (vw_prep W r)) < uo_max_batch_num opt \<longrightarrow> get_sqe A r \<noteq> (r', None))"

text \<open>Why a worker may sleep: nothing to do, or enough in flight to be woken by.\<close>

definition may_sleep :: "('cb, 'ring, 'q) io_view \<Rightarrow> UringOptions \<Rightarrow> ('cb, 'ring, 'q) Reaper \<Rightarrow> bool" where
  "may_sleep W opt s \<longleftrightarrow> rp_items W s = [] \<or> uo_iodepth opt \<le> wi_uncompleted (rp_wk s)"

lemma in_flight_bound: "in_flight W s \<le> size (vw_flight W (rp_ring s))"
  by (simp add: in_flight_def size_filter_mset_lesseq)

lemma worked:
  assumes "ring_laws A W" and "queue_laws V W" and "submits A W" and "opt_ok opt" and "io_ok W opt p s rearm"
  shows "\<exists>s' wait rearm'. pollLoop_work A V opt wid rearm s = Some (s', wait, rearm') \<and> io_ok W opt p s' rearm' \<and>
    io_ledger W s' = io_ledger W s \<and>
    (has_room A W opt \<longrightarrow> rearm \<or> UNotifier \<in># vw_flight W (rp_ring s) \<longrightarrow>
      UNotifier \<in># vw_flight W (rp_ring s') \<and> (wait \<longrightarrow> may_sleep W opt s'))"
proof -
  have s: "io_inv W p s" "vw_prep W (rp_ring s) = []" "rearm \<longrightarrow> UNotifier \<notin># in_ring W (rp_ring s)"
    "int (in_flight W s) < uo_iodepth opt + uo_max_batch_num opt"
    using assms(5) by (simp_all add: io_ok_def in_ring_def)
  obtain s1 n where r: "pollLoop_rearm A rearm s = (s1, n)" and r1: "io_inv W p s1" "io_ledger W s1 = io_ledger W s"
    "vw_prep W (rp_ring s1) = replicate n UNotifier" "vw_flight W (rp_ring s1) = vw_flight W (rp_ring s)"
    "wi_uncompleted (rp_wk s1) = wi_uncompleted (rp_wk s)"
    and n: "n \<le> 1" "rearm \<or> n = 0" "rearm \<Longrightarrow> n = 0 \<Longrightarrow> \<exists>r. get_sqe A (rp_ring s) = (r, None)"
    using rearmed [OF assms(1) s(1,3)] s(2) by (metis append_Nil)
  have o: "0 \<le> uo_max_batch_num opt" "uo_max_batch_num opt < 2 ^ 31" "0 < uo_max_batch_num opt"
    using assms(4) by (simp_all add: opt_ok_def)
  from filled [OF assms(1,2) o(1,2) r1(1), of wid n "[]"] obtain s2 new where
    f: "pollLoop_fill A V opt wid n s1 [] = Some (s2, new)" "io_inv W p s2" "io_ledger W s2 = io_ledger W s"
      "vw_prep W (rp_ring s2) = replicate n UNotifier @ map UCtx new" "vw_flight W (rp_ring s2) = vw_flight W (rp_ring s)"
      "wi_uncompleted (rp_wk s2) = wi_uncompleted (rp_wk s)"
      "new = [] \<or> wi_uncompleted (rp_wk s) < uo_iodepth opt \<and> int (length new + n) \<le> uo_max_batch_num opt"
    and stop: "rp_items W s2 = [] \<or> uo_iodepth opt \<le> wi_uncompleted (rp_wk s2) \<or> uo_max_batch_num opt \<le> int (length new + n) \<or>
      (\<exists>r r'. vw_prep W r = vw_prep W (rp_ring s1) @ map UCtx new \<and> int (length new + n) < uo_max_batch_num opt \<and> get_sqe A r = (r', None))"
    using r1 by auto
  have "length (vw_prep W (rp_ring s2)) = length new + n" by (simp add: f(4))
  from handed_over [OF assms(1,3) f(2) this, of wid rearm] obtain s3 where
    h: "pollLoop_submit A wid n new rearm s2 = Some (s3, rearm \<and> vw_prep W (rp_ring s2) = [])" "io_inv W p s3"
      "io_ledger W s3 = io_ledger W s2" "vw_prep W (rp_ring s3) = []"
      "vw_flight W (rp_ring s3) = vw_flight W (rp_ring s2) + mset (vw_prep W (rp_ring s2))"
      "wi_queue (rp_wk s3) = wi_queue (rp_wk s2)" by blast
  let ?s4 = "if new \<noteq> [] then rp_upd (stat_add IOURING_STATISTIC_REQ (of_nat (length new))) s3 else s3"
  let ?rearm = "rearm \<and> vw_prep W (rp_ring s2) = []" and ?wait = "int (length new) + int n < uo_max_batch_num opt"
  have w: "pollLoop_work A V opt wid rearm s = Some (?s4, ?wait, ?rearm)"
    by (simp add: pollLoop_work_def r f(1) h(1))
  have same: "rp_ring ?s4 = rp_ring s3" "wi_queue (rp_wk ?s4) = wi_queue (rp_wk s2)" "wi_uncompleted (rp_wk ?s4) = wi_uncompleted (rp_wk s3)"
    "io_ledger W ?s4 = io_ledger W s3" "io_inv W p ?s4"
    using h by (simp_all add: io_ledger_def io_inv_def)
  have fl: "vw_flight W (rp_ring s3) = vw_flight W (rp_ring s) + replicate_mset n UNotifier + mset (map UCtx new)"
    by (simp add: h(5) f(4,5))
  have u: "wi_uncompleted (rp_wk s3) = int (size (vw_flight W (rp_ring s3)))" "wi_uncompleted (rp_wk s) = int (size (vw_flight W (rp_ring s)))"
    using h(2) s(1) by (simp_all add: io_inv_def)
  have "filter_mset (\<lambda>x. x \<noteq> UNotifier) (replicate_mset n UNotifier) = {#}" "filter_mset (\<lambda>x. x \<noteq> UNotifier) (mset (map UCtx new)) = mset (map UCtx new)"
    by (simp_all add: filter_mset_eq_conv)
  then have i: "in_flight W s3 = in_flight W s + length new" by (simp add: in_flight_def fl)
  have "int (in_flight W s3) < uo_iodepth opt + uo_max_batch_num opt"
    using i s(4) f(7) u(2) in_flight_bound [of W s] by auto
  moreover have "?rearm \<longrightarrow> UNotifier \<notin># vw_flight W (rp_ring s3)" using s(3) by (auto simp: fl f(4) in_ring_def)
  ultimately have ok: "io_ok W opt p ?s4 ?rearm" using same(1,5) h(4) by (simp add: io_ok_def in_flight_def)
  have "UNotifier \<in># vw_flight W (rp_ring ?s4) \<and> (?wait \<longrightarrow> may_sleep W opt ?s4)"
    if room: "has_room A W opt" "rearm \<or> UNotifier \<in># vw_flight W (rp_ring s)"
  proof
    have "n = 1" if rearm
      using n(1) n(3) [OF that] room(1) s(2) o(3) unfolding has_room_def by (cases n) auto
    then show "UNotifier \<in># vw_flight W (rp_ring ?s4)" using room(2) unfolding same(1) fl by auto
    have "wi_uncompleted (rp_wk s) \<le> wi_uncompleted (rp_wk s3)" by (simp add: u fl)
    moreover have "\<nexists>r r'. vw_prep W r = vw_prep W (rp_ring s1) @ map UCtx new \<and> int (length new + n) < uo_max_batch_num opt \<and> get_sqe A r = (r', None)"
      using room(1) r1(3) unfolding has_room_def by fastforce
    ultimately show "?wait \<longrightarrow> may_sleep W opt ?s4" using stop same(2,3) f(6) by (auto simp: may_sleep_def)
  qed
  moreover have "io_ledger W ?s4 = io_ledger W s" using same(4) h(3) f(3) by simp
  ultimately show ?thesis using w ok by blast
qed

lemma passed:
  assumes "ring_laws A W" and "queue_laws V W" and "submits A W" and "opt_ok opt" and "io_ok W opt p s rearm"
    and "wait \<longrightarrow> wait_cqe A (rp_ring s) \<noteq> None"
  shows "\<exists>s' wait' rearm'. pollLoop_iter A V opt wid (s, wait, rearm) = Some (s', wait', rearm') \<and> io_ok W opt p s' rearm' \<and>
    io_ledger W s' = io_ledger W s \<and>
    (has_room A W opt \<longrightarrow> UNotifier \<in># vw_flight W (rp_ring s) \<longrightarrow>
      UNotifier \<in># vw_flight W (rp_ring s') \<and>
      (wait' \<longrightarrow> may_sleep W opt s' \<or> wait \<and> wi_queue (rp_wk s') = wi_queue (rp_wk s) \<and> wi_uncompleted (rp_wk s') = wi_uncompleted (rp_wk s) \<and>
        (\<exists>ret c. wait_cqe A (rp_ring s) = Some (rp_ring s', ret, c))))"
proof -
  obtain r ret c where q: "(if wait then wait_cqe A (rp_ring s) else Some (peek_cqe A (rp_ring s))) = Some (r, ret, c)"
    using assms(6) by (metis not_Some_eq prod_cases3)
  then have "wait_cqe A (rp_ring s) = Some (r, ret, c) \<or> peek_cqe A (rp_ring s) = (r, ret, c)" by (auto split: if_splits)
  note v = ring_cqe [OF assms(1) this]
  let ?s1 = "rp_upd (on_ring (\<lambda>_. r)) s"
  have w: "pollLoop_wait A wait s = Some (?s1, ret, c)" using q by (simp add: pollLoop_wait_def)
  have s1: "io_ok W opt p ?s1 rearm" "io_ledger W ?s1 = io_ledger W s" "vw_flight W (rp_ring ?s1) = vw_flight W (rp_ring s)"
    using assms(5) by (auto simp: io_ok_def io_inv_def io_ledger_def in_ring_def in_flight_def v(1,2))
  consider "wait" "ret < 0" | "\<not> (wait \<and> ret < 0)" "(if ret = 0 then c else None) = None"
    | c' where "\<not> (wait \<and> ret < 0)" "ret = 0" "c = Some c'" by (cases "wait \<and> ret < 0"; cases "ret = 0"; cases c) simp_all
  then show ?thesis
  proof cases
    case 1
    then have "pollLoop_iter A V opt wid (s, wait, rearm) = Some (rp_upd (stat_add IOURING_STATISTIC_POLL_FAIL 1) ?s1, wait, rearm)"
      using w by (simp add: pollLoop_iter_def)
    then show ?thesis using s1 q 1
      by (intro exI [of _ "rp_upd (stat_add IOURING_STATISTIC_POLL_FAIL 1) ?s1"] exI [of _ wait] exI [of _ rearm])
        (simp add: io_ok_def io_inv_def io_ledger_def in_flight_def)
  next
    case 2
    then have "pollLoop_iter A V opt wid (s, wait, rearm) = pollLoop_work A V opt wid rearm ?s1"
      using w by (auto simp: pollLoop_iter_def)
    then show ?thesis using worked [OF assms(1-4) s1(1), of wid] s1(2,3) by auto
  next
    case 3
    from v(3) [OF 3(2,3)] have c': "cq_data c' \<in># vw_flight W (rp_ring ?s1)" "vw_cur W (rp_ring ?s1) = Some (cq_data c')" by (simp_all add: v(2))
    have i: "io_inv W p ?s1" "rearm \<longrightarrow> UNotifier \<notin># in_ring W (rp_ring ?s1)" using s1(1) by (simp_all add: io_ok_def in_ring_def)
    obtain s2 where s2: "pollLoop_complete A wid c' rearm ?s1 = Some (s2, rearm \<or> cq_data c' = UNotifier)" "io_inv W p s2"
      "io_ledger W s2 = io_ledger W s" "vw_prep W (rp_ring s2) = []" "vw_flight W (rp_ring s2) = vw_flight W (rp_ring s) - {#cq_data c'#}"
      "rearm \<or> cq_data c' = UNotifier \<longrightarrow> UNotifier \<notin># in_ring W (rp_ring s2)"
      using completed [OF assms(1) i(1) c' i(2), of wid] s1 by (auto simp: io_ok_def)
    have "in_flight W s2 \<le> in_flight W s" by (simp add: in_flight_def s2(5) multiset_filter_mono size_mset_mono)
    then have ok: "io_ok W opt p s2 (rearm \<or> cq_data c' = UNotifier)"
      using s2(2,4,6) assms(5) by (auto simp: io_ok_def in_ring_def)
    have "pollLoop_iter A V opt wid (s, wait, rearm) = pollLoop_work A V opt wid (rearm \<or> cq_data c' = UNotifier) s2"
      using 3 s2(1) w by (auto simp: pollLoop_iter_def)
    moreover have "(rearm \<or> cq_data c' = UNotifier) \<or> UNotifier \<in># vw_flight W (rp_ring s2)"
      if "UNotifier \<in># vw_flight W (rp_ring s)" using that by (auto simp: s2(5) in_diff_count)
    ultimately show ?thesis using worked [OF assms(1-4) ok, of wid] s2(3) by (metis (no_types, lifting))
  qed
qed

section \<open>Runs\<close>

text \<open>
  A caller enqueues a request or counts one that it has enqueued, or the thread makes a pass; a pass that would
  wait for ever leaves the thread asleep. A state has the two variables of the loop, the number of
  requests enqueued and not counted, and the requests accepted so far.
\<close>

datatype 'cb io_event = IoEnqueue "'cb PendingReq" | IoCount | IoPass

type_synonym ('cb, 'ring, 'q) io_state = "('cb, 'ring, 'q) Reaper \<times> bool \<times> bool \<times> nat \<times> ('cb \<times> u64) multiset"

fun io_step ::
  "('ring, 'sqe) uring_api \<Rightarrow> ('cb PendingReq, 'q) queue_v2 \<Rightarrow> UringOptions \<Rightarrow> int \<Rightarrow> 'cb io_event \<Rightarrow> ('cb, 'ring, 'q) io_state \<Rightarrow>
     ('cb, 'ring, 'q) io_state option" where
  "io_step A V opt wid (IoEnqueue req) (s, wait, rearm, n, given) =
     (case issue_enqueue V req (rp_wk s) of
        (wk, ret) \<Rightarrow> if ret \<noteq> 0 then Some (rp_upd (\<lambda>_. wk) s, wait, rearm, n, given)
                     else Some (rp_upd (\<lambda>_. wk) s, wait, rearm, Suc n, add_mset (req_key req) given))"
| "io_step A V opt wid IoCount (s, wait, rearm, n, given) =
     (if n = 0 then Some (s, wait, rearm, n, given) else Some (rp_upd (issue_count A) s, wait, rearm, n - 1, given))"
| "io_step A V opt wid IoPass (s, wait, rearm, n, given) =
     (if wait \<and> wait_cqe A (rp_ring s) = None then Some (s, wait, rearm, n, given)
      else map_option (\<lambda>(s', wait', rearm'). (s', wait', rearm', n, given)) (pollLoop_iter A V opt wid (s, wait, rearm)))"

fun io_run ::
  "('ring, 'sqe) uring_api \<Rightarrow> ('cb PendingReq, 'q) queue_v2 \<Rightarrow> UringOptions \<Rightarrow> int \<Rightarrow> 'cb io_event list \<Rightarrow> ('cb, 'ring, 'q) io_state \<Rightarrow>
     ('cb, 'ring, 'q) io_state option" where
  "io_run A V opt wid [] st = Some st"
| "io_run A V opt wid (ev # evs) st =
     (case io_step A V opt wid ev st of None \<Rightarrow> None | Some st' \<Rightarrow> io_run A V opt wid evs st')"

definition io_event_fine :: "'cb io_event \<Rightarrow> bool" where
  "io_event_fine ev = (case ev of IoEnqueue req \<Rightarrow> is_io req | _ \<Rightarrow> True)"

text \<open>What \<open>Start\<close> leaves when its submission of the notifier succeeds, with fresh pools.\<close>

definition io_ready :: "('cb, 'ring, 'q) io_view \<Rightarrow> ('cb, 'ring, 'q) Reaper \<Rightarrow> bool" where
  "io_ready W s \<longleftrightarrow> vw_prep W (rp_ring s) = [] \<and> vw_flight W (rp_ring s) = {#UNotifier#} \<and> rp_items W s = [] \<and>
     wi_uncompleted (rp_wk s) = 1 \<and> wi_unsubmit (rp_wk s) = 0 \<and> pr_type (wi_notifier (rp_wk s)) = reqt REQ_TYPE_INTERNAL_REQ \<and>
     rp_called s = [] \<and> pools_ok fv_ok (rp_pool s) \<and> pooled fv_items (rp_pool s) = {#} \<and>
     fa_alloc (rp_pool s) = req_alloc \<and> fa_release (rp_pool s) = req_release"

definition io_run_inv :: "('ring, 'sqe) uring_api \<Rightarrow> ('cb, 'ring, 'q) io_view \<Rightarrow> UringOptions \<Rightarrow> ('cb, 'ring, 'q) io_state \<Rightarrow> bool" where
  "io_run_inv A W opt st \<longleftrightarrow> (case st of (s, wait, rearm, n, given) \<Rightarrow>
     io_ok W opt n s rearm \<and> io_ledger W s = given \<and>
     (has_room A W opt \<longrightarrow> UNotifier \<in># vw_flight W (rp_ring s) \<and>
       (wait \<longrightarrow> may_sleep W opt s \<or> vw_event W (rp_ring s) \<or> length (rp_items W s) \<le> n)))"

lemma io_ready_inv:
  assumes "io_ready W s" and "opt_ok opt"
  shows "io_run_inv A W opt (s, True, False, 0, {#})"
  using assms
  by (simp add: io_run_inv_def io_ready_def io_ok_def io_inv_def ctx_inv_def in_ring_def opt_ok_def io_ledger_def called_keys_def
      in_flight_def may_sleep_def)

lemma io_step_inv:
  assumes "ring_laws A W" and "queue_laws V W" and "submits A W" and "opt_ok opt" and "io_run_inv A W opt st" and "io_event_fine ev"
  shows "\<exists>st'. io_step A V opt wid ev st = Some st' \<and> io_run_inv A W opt st'"
proof -
  obtain s wait rearm n given where st: "st = (s, wait, rearm, n, given)" by (metis prod_cases5)
  have s: "io_ok W opt n s rearm" "io_ledger W s = given"
    "has_room A W opt \<Longrightarrow> UNotifier \<in># vw_flight W (rp_ring s)"
    "has_room A W opt \<Longrightarrow> wait \<Longrightarrow> may_sleep W opt s \<or> vw_event W (rp_ring s) \<or> length (rp_items W s) \<le> n"
    using assms(5) by (simp_all add: st io_run_inv_def)
  show ?thesis
  proof (cases ev)
    case (IoEnqueue req)
    obtain q ret where q: "v2_Enqueue V req False (wi_queue (rp_wk s)) = (q, ret)" by (cases "v2_Enqueue V req False (wi_queue (rp_wk s))")
    then have "vw_items W q = (if ret = 0 then rp_items W s @ [req] else rp_items W s)" using assms(2) by (simp add: queue_laws_def)
    then show ?thesis using s assms(6)
      by (auto simp: st IoEnqueue issue_enqueue_def q io_run_inv_def io_ok_def io_inv_def io_ledger_def in_flight_def may_sleep_def io_event_fine_def)
  next
    case IoCount
    note fd = ring_fd(4-6) [OF assms(1)]
    have u: "wi_unsubmit (rp_wk s) = 0" if "length (rp_items W s) = n" using s(1) that by (simp add: io_ok_def io_inv_def)
    have "length (rp_items W s) \<le> n - 1 \<or> length (rp_items W s) = n" if "length (rp_items W s) \<le> n" using that by linarith
    then show ?thesis using s u
      by (auto simp: st IoCount issue_count_def Let_def io_run_inv_def io_ok_def io_inv_def io_ledger_def in_flight_def may_sleep_def
          in_ring_def fd)
  next
    case IoPass
    show ?thesis
    proof (cases "wait \<and> wait_cqe A (rp_ring s) = None")
      case True
      then show ?thesis using assms(5) by (simp add: st IoPass)
    next
      case False
      then have "wait \<longrightarrow> wait_cqe A (rp_ring s) \<noteq> None" by simp
      from passed [OF assms(1-4) s(1) this, of wid] obtain s' wait' rearm' where
        p: "pollLoop_iter A V opt wid (s, wait, rearm) = Some (s', wait', rearm')" "io_ok W opt n s' rearm'" "io_ledger W s' = io_ledger W s"
        and l: "has_room A W opt \<longrightarrow> UNotifier \<in># vw_flight W (rp_ring s) \<longrightarrow> UNotifier \<in># vw_flight W (rp_ring s') \<and>
          (wait' \<longrightarrow> may_sleep W opt s' \<or> wait \<and> wi_queue (rp_wk s') = wi_queue (rp_wk s) \<and> wi_uncompleted (rp_wk s') = wi_uncompleted (rp_wk s) \<and>
            (\<exists>ret c. wait_cqe A (rp_ring s) = Some (rp_ring s', ret, c)))" by blast
      have ev: "vw_event W (rp_ring s') = vw_event W (rp_ring s)" if "wait_cqe A (rp_ring s) = Some (rp_ring s', ret, c)" for ret c
        using assms(1) that unfolding ring_laws_def event_law_def by blast
      have "may_sleep W opt s' \<or> vw_event W (rp_ring s') \<or> length (rp_items W s') \<le> n" if "has_room A W opt" "wait'"
        using l s(3,4) that ev by (auto simp: may_sleep_def)
      moreover have "UNotifier \<in># vw_flight W (rp_ring s')" if "has_room A W opt" using l s(3) that by blast
      ultimately have "io_run_inv A W opt (s', wait', rearm', n, given)" using p(2,3) s(2) by (simp add: io_run_inv_def)
      moreover have "io_step A V opt wid ev st = Some (s', wait', rearm', n, given)"
        using p(1) by (simp only: st IoPass io_step.simps False if_False option.map prod.case)
      ultimately show ?thesis by blast
    qed
  qed
qed

lemma io_run_keeps:
  assumes "ring_laws A W" and "queue_laws V W" and "submits A W" and "opt_ok opt" and "io_run_inv A W opt st"
    and "\<forall>ev \<in> set evs. io_event_fine ev"
  shows "\<exists>st'. io_run A V opt wid evs st = Some st' \<and> io_run_inv A W opt st'"
  using assms(5,6)
proof (induction evs arbitrary: st)
  case (Cons ev evs)
  from io_step_inv [OF assms(1-4) Cons.prems(1), of ev wid] Cons show ?case by fastforce
qed simp

section \<open>After a failed submission\<close>

text \<open>The entries of a failed submission stay in the ring. These lemmas hold in any state, the invariant broken or not.\<close>

lemma taken_ring:
  assumes "ring_laws A W" and "pollLoop_take A wid req s = Some x"
  shows "case x of Inl s' \<Rightarrow> vw_prep W (rp_ring s') = vw_prep W (rp_ring s) \<and> vw_flight W (rp_ring s') = vw_flight W (rp_ring s)
    | Inr (s', a) \<Rightarrow> vw_prep W (rp_ring s') = vw_prep W (rp_ring s) @ [UCtx a] \<and> vw_flight W (rp_ring s') = vw_flight W (rp_ring s)"
proof -
  obtain r e where g: "get_sqe A (rp_ring s) = (r, e)" by (cases "get_sqe A (rp_ring s)")
  have v: "vw_prep W (sqe_set_data A e' d (prep_req A e' a req r)) = vw_prep W (rp_ring s) @ [d]"
    "vw_flight W (sqe_set_data A e' d (prep_req A e' a req r)) = vw_flight W (rp_ring s)" if "e = Some e'" for e' d a
    using ring_get_sqe [OF assms(1) g [unfolded that]] by (auto simp: prep_req_def Let_def split: prod.splits)
  have n: "vw_prep W r = vw_prep W (rp_ring s)" "vw_flight W r = vw_flight W (rp_ring s)" if "e = None"
    using ring_no_sqe [OF assms(1) g [unfolded that]] by simp_all
  show ?thesis using assms(2) n v
    by (auto simp: pollLoop_take_def g rp_free_def Let_def split: if_splits option.splits prod.splits)
qed

lemma filled_ring:
  assumes "ring_laws A W" and "pollLoop_fill A V opt wid n s unsub = Some (s', unsub')"
  shows "length (vw_prep W (rp_ring s')) + length unsub = length (vw_prep W (rp_ring s)) + length unsub' \<and>
    vw_flight W (rp_ring s') = vw_flight W (rp_ring s)"
  using assms
proof (induction A V opt wid n s unsub rule: pollLoop_fill.induct)
  case (1 A V opt wid n s unsub)
  let ?go = "wi_uncompleted (rp_wk s) < uo_iodepth opt \<and> length unsub + n < unat (word_of_int (uo_max_batch_num opt) :: u32)"
  obtain q ret v where d: "v2_Dequeue V False (wi_queue (rp_wk s)) = (q, ret, v)" by (metis prod_cases3)
  show ?case
  proof (cases "?go \<and> ret = 0")
    case False
    then show ?thesis using "1.prems"(2) d by (subst (asm) pollLoop_fill.simps) (auto split: if_splits)
  next
    case True
    let ?s1 = "\<lambda>req. rp_upd (\<lambda>wk. wk\<lparr>wi_queue := q, wi_unsubmit := wi_unsubmit wk - 1\<rparr>) s"
    obtain req x where x: "v = Some req" "pollLoop_take A wid req (?s1 req) = Some x"
      using "1.prems"(2) True d by (subst (asm) pollLoop_fill.simps) (auto split: option.splits)
    note t = taken_ring [OF "1.prems"(1) x(2)]
    show ?thesis
    proof (cases x)
      case (Inl s2)
      then have "s' = s2" "unsub' = unsub"
        using "1.prems"(2) True d x by (subst (asm) pollLoop_fill.simps, simp)+
      then show ?thesis using t Inl by simp
    next
      case (Inr z)
      then obtain s2 a where z: "x = Inr (s2, a)" by (cases z) auto
      have f: "pollLoop_fill A V opt wid n s2 (unsub @ [a]) = Some (s', unsub')"
        using "1.prems"(2) True d x z by (subst (asm) pollLoop_fill.simps) simp
      have go: ?go using True by simp
      from "1.IH" [OF go d [symmetric] refl _ x(1) x(2) z refl "1.prems"(1) f] True t z show ?thesis by simp
    qed
  qed
qed

lemma fail_all_ring: "fail_all wid ret as s = Some s' \<Longrightarrow> rp_wk s' = rp_wk s"
  by (induction as arbitrary: s) (auto simp: rp_free_def split: option.splits)

lemma submit_blocked:
  assumes "ring_laws A W" and "pollLoop_submit A wid n unsub rearm s = Some (s', rearm')"
    and "length unsub + n < length (vw_prep W (rp_ring s))"
  shows "vw_prep W (rp_ring s') = vw_prep W (rp_ring s) \<and> vw_flight W (rp_ring s') = vw_flight W (rp_ring s)"
proof (cases "length unsub + n = 0")
  case True
  then show ?thesis using assms(2) by (simp add: pollLoop_submit_def)
next
  case False
  then have pos: "0 < int (length unsub) + int n" by linarith
  obtain r ret where r: "submit_retry A (rp_ring s) = Some (r, ret)"
    using assms(2) pos by (cases "submit_retry A (rp_ring s)") (auto simp: pollLoop_submit_def)
  have sub: "submitted W (rp_ring s) r ret" by (rule ring_submit_retry [OF assms(1) r])
  have "ret \<le> 0"
  proof (rule ccontr)
    assume "\<not> ret \<le> 0"
    then have "ret \<noteq> int (length unsub) + int n" using sub assms(3) by (simp add: submitted_def)
    then show False using assms(2) pos \<open>\<not> ret \<le> 0\<close> by (simp add: pollLoop_submit_def r)
  qed
  moreover from this have "wi_ring (rp_wk s') = r"
    using assms(2) pos by (auto simp: pollLoop_submit_def r Let_def dest!: fail_all_ring)
  ultimately show ?thesis using sub by (simp add: submitted_def)
qed

text \<open>Nothing is submitted any more.\<close>

definition io_dead :: "('cb, 'ring, 'q) io_view \<Rightarrow> 'ring \<Rightarrow> 'ring \<Rightarrow> bool" where
  "io_dead W r r' \<longleftrightarrow> vw_prep W r' \<noteq> [] \<and> vw_flight W r' \<subseteq># vw_flight W r"

lemma pass_blocked:
  assumes "ring_laws A W" and "pollLoop_iter A V opt wid (s, wait, rearm) = Some (s', wait', rearm')"
    and "vw_prep W (rp_ring s) \<noteq> []"
  shows "io_dead W (rp_ring s) (rp_ring s')"
proof -
  have work: "vw_prep W (rp_ring s') \<noteq> [] \<and> vw_flight W (rp_ring s') = vw_flight W (rp_ring s)"
    if go: "pollLoop_work A V opt wid rearm s = Some (s', wait', rearm')" and ne: "vw_prep W (rp_ring s) \<noteq> []" for s rearm s' wait' rearm'
  proof -
    obtain s1 n where r: "pollLoop_rearm A rearm s = (s1, n)" by (metis surj_pair)
    then have r1: "length (vw_prep W (rp_ring s1)) = length (vw_prep W (rp_ring s)) + n" "vw_flight W (rp_ring s1) = vw_flight W (rp_ring s)"
      using ring_get_sqe [OF assms(1)] ring_no_sqe [OF assms(1)]
      by (auto simp: pollLoop_rearm_def split: if_splits prod.splits option.splits)
    obtain s2 unsub where f: "pollLoop_fill A V opt wid n s1 [] = Some (s2, unsub)"
      using go by (cases "pollLoop_fill A V opt wid n s1 []") (auto simp: pollLoop_work_def r)
    note f1 = filled_ring [OF assms(1) f]
    obtain s3 rearm3 where h: "pollLoop_submit A wid n unsub rearm s2 = Some (s3, rearm3)"
      using go by (cases "pollLoop_submit A wid n unsub rearm s2") (auto simp: pollLoop_work_def r f)
    have "length unsub + n < length (vw_prep W (rp_ring s2))" using f1 r1(1) ne by simp
    note h1 = submit_blocked [OF assms(1) h this]
    have "rp_ring s' = rp_ring s3" using go by (auto simp: pollLoop_work_def r f h)
    then show ?thesis using h1 f1 r1 ne by auto
  qed
  obtain r ret c where q: "(if wait then wait_cqe A (rp_ring s) else Some (peek_cqe A (rp_ring s))) = Some (r, ret, c)"
    using assms(2) by (cases "if wait then wait_cqe A (rp_ring s) else Some (peek_cqe A (rp_ring s))")
      (auto simp: pollLoop_iter_def pollLoop_wait_def split: prod.splits)
  then have "wait_cqe A (rp_ring s) = Some (r, ret, c) \<or> peek_cqe A (rp_ring s) = (r, ret, c)" by (auto split: if_splits)
  note v = ring_cqe [OF assms(1) this]
  let ?s1 = "rp_upd (on_ring (\<lambda>_. r)) s"
  have w: "pollLoop_wait A wait s = Some (?s1, ret, c)" using q by (simp add: pollLoop_wait_def)
  have complete: "vw_prep W (rp_ring s2) = vw_prep W (rp_ring s) \<and> vw_flight W (rp_ring s2) \<subseteq># vw_flight W (rp_ring s)"
    if "pollLoop_complete A wid c' rearm ?s1 = Some (s2, rearm2)" "ret = 0" "c = Some c'" for c' s2 rearm2
  proof -
    have cur: "vw_cur W r = Some (cq_data c')" using v(3) that(2,3) by simp
    have cur': "vw_cur W (read_fd A fd r) = Some (cq_data c')" for fd using cur ring_fd(3) [OF assms(1)] by simp
    show ?thesis
      using that(1) ring_seen [OF assms(1) cur] ring_seen [OF assms(1) cur'] ring_fd [OF assms(1)] v(1,2)
      by (auto simp: pollLoop_complete_def rp_free_def Let_def split: option.splits if_splits uptr.splits)
  qed
  show ?thesis
  proof (cases "wait \<and> ret < 0")
    case True
    then show ?thesis using assms(2,3) w v(1,2) by (auto simp: pollLoop_iter_def io_dead_def)
  next
    case False
    then have i: "pollLoop_iter A V opt wid (s, wait, rearm) = (case (if ret = 0 then c else None) of
        None \<Rightarrow> pollLoop_work A V opt wid rearm ?s1
      | Some c' \<Rightarrow> (case pollLoop_complete A wid c' rearm ?s1 of None \<Rightarrow> None
          | Some (s2, rearm2) \<Rightarrow> pollLoop_work A V opt wid rearm2 s2))"
      using w by (simp only: pollLoop_iter_def prod.case option.case if_False)
    show ?thesis
    proof (cases "if ret = 0 then c else None")
      case None
      then show ?thesis using work [of rearm ?s1 s' wait' rearm'] assms(2,3) i v(1,2) by (simp add: io_dead_def)
    next
      case (Some c')
      then have c: "ret = 0" "c = Some c'" by (simp_all split: if_splits)
      obtain s2 rearm2 where s2: "pollLoop_complete A wid c' rearm ?s1 = Some (s2, rearm2)"
        "pollLoop_work A V opt wid rearm2 s2 = Some (s', wait', rearm')"
        using assms(2) i Some by (auto split: option.splits)
      show ?thesis using complete [OF s2(1) c] work [OF s2(2)] assms(3) by (simp add: io_dead_def)
    qed
  qed
qed

lemma run_blocked:
  assumes "ring_laws A W" and "io_run A V opt wid evs st = Some st'" and "vw_prep W (rp_ring (fst st)) \<noteq> []"
  shows "io_dead W (rp_ring (fst st)) (rp_ring (fst st'))"
  using assms(2,3)
proof (induction evs arbitrary: st)
  case Nil
  then show ?case by (simp add: io_dead_def)
next
  case (Cons ev evs)
  obtain st1 where st1: "io_step A V opt wid ev st = Some st1" "io_run A V opt wid evs st1 = Some st'"
    using Cons.prems(1) by (auto split: option.splits)
  obtain s wait rearm n given where st: "st = (s, wait, rearm, n, given)" by (metis prod_cases5)
  have "io_dead W (rp_ring (fst st)) (rp_ring (fst st1))"
  proof (cases ev)
    case (IoEnqueue req)
    then show ?thesis using st1(1) Cons.prems(2) by (auto simp: st issue_enqueue_def io_dead_def split: prod.splits if_splits)
  next
    case IoCount
    then show ?thesis using st1(1) Cons.prems(2) ring_fd [OF assms(1)]
      by (auto simp: st issue_count_def Let_def io_dead_def split: if_splits)
  next
    case IoPass
    then consider "st1 = st" | s' wait' rearm' where "pollLoop_iter A V opt wid (s, wait, rearm) = Some (s', wait', rearm')"
      "st1 = (s', wait', rearm', n, given)" using st1(1) by (auto simp: st split: if_splits)
    then show ?thesis
    proof cases
      case 1
      then show ?thesis using Cons.prems(2) by (simp add: io_dead_def)
    next
      case 2
      then show ?thesis using pass_blocked [OF assms(1) 2(1)] Cons.prems(2) by (simp add: st)
    qed
  qed
  moreover from this Cons.IH [OF st1(2)] have "io_dead W (rp_ring (fst st1)) (rp_ring (fst st'))" by (simp add: io_dead_def)
  ultimately show ?case by (auto simp: io_dead_def intro: subset_mset.order_trans)
qed

section \<open>Starting and stopping\<close>

lemma start_worker_ready:
  fixes pool :: "'cb ctx_pool"
  assumes "ring_laws A W" and "start_worker A V K junk opt flags k = Some (k', 0, Some wk)"
    and "\<And>k k' ret r. k_queue_init K (uo_iodepth opt) flags k = (k', ret, r) \<Longrightarrow> vw_prep W r = [] \<and> vw_flight W r = {#}"
    and "\<And>q q'. v2_Init V (uo_iodepth opt) q = Some q' \<Longrightarrow> vw_items W q' = []"
    and "\<And>r. vw_prep W r \<noteq> [] \<Longrightarrow> 0 < snd (submit A r)"
    and "FixCountAllocator_Init FixCountVector_ops shard capacity req_alloc req_release = Some pool"
    and "0 < shard" and "shard < 2 ^ 31" and "unat capacity < 2 ^ 31"
  shows "io_ready W \<lparr>rp_wk = wk, rp_pool = pool, rp_mem = mem, rp_called = []\<rparr>"
proof -
  obtain k1 efd where e: "k_eventfd K k = (k1, efd)" by (cases "k_eventfd K k")
  obtain k2 ret r where q: "k_queue_init K (uo_iodepth opt) flags k1 = (k2, ret, r)" by (metis prod_cases3)
  have efd: "\<not> efd < 0" using assms(2) e by (auto simp: start_worker_def)
  have ret: "ret = 0" using assms(2) e q efd by (auto simp: start_worker_def Let_def split: if_splits)
  obtain qu where qu: "v2_Init V (uo_iodepth opt) (v2_new V) = Some qu"
    using assms(2) e q efd ret by (cases "v2_Init V (uo_iodepth opt) (v2_new V)") (simp_all add: start_worker_def)
  obtain r1 e' where g: "get_sqe A r = (r1, Some e')"
    using assms(2) e q efd ret qu by (cases "get_sqe A r"; cases "snd (get_sqe A r)") (simp_all add: start_worker_def)
  let ?r = "sqe_set_data A e' UNotifier (prep_sqe A e' (PollAdd efd) r1)"
  have p: "vw_prep W ?r = [UNotifier]" "vw_flight W ?r = {#}"
    using ring_get_sqe [OF assms(1) g] assms(3) [OF q] by simp_all
  obtain r2 n where s: "submit A ?r = (r2, n)" by (cases "submit A ?r")
  have "0 < n" using assms(5) [of ?r] p(1) s by simp
  moreover have "submitted W ?r r2 n" using assms(1) s unfolding ring_laws_def submit_law_def by blast
  ultimately have r2: "vw_prep W r2 = []" "vw_flight W r2 = {#UNotifier#}" using p by (simp_all add: submitted_def)
  have "wi_ring wk = r2" "wi_uncompleted wk = 1" "wi_unsubmit wk = 0" "wi_queue wk = qu" "pr_type (wi_notifier wk) = reqt REQ_TYPE_INTERNAL_REQ"
    using assms(2) e q efd ret qu g s by (auto simp: start_worker_def Let_def)
  moreover have "pools_ok fv_ok pool \<and> pooled fv_items pool = {#} \<and> fa_alloc pool = req_alloc \<and> fa_release pool = req_release"
    using fcv.Init_pooled [OF assms(7-9), of "req_alloc :: 'cb ctx_mem \<Rightarrow> _" req_release] assms(6) by auto
  ultimately show ?thesis using r2 assms(4) [OF qu] by (simp add: io_ready_def)
qed

lemma stop_workers_threads: "stop_workers A K ws k = Some x \<Longrightarrow> w \<in> set ws \<Longrightarrow> has_thread w"
  by (induction ws arbitrary: k x) (auto simp: has_thread_def Let_def split: option.splits if_splits)

lemma start_worker_error:
  "start_worker A V K junk opt flags k = Some (k', ret, wk) \<Longrightarrow> ret \<noteq> 0 \<Longrightarrow> \<not> has_thread wk"
  by (auto simp: start_worker_def has_thread_def Let_def split: prod.splits if_splits option.splits)

lemma start_workers_error:
  assumes "start_workers A V K junk opt flags js ws k = Some (k', ret, ws')" and "ret \<noteq> 0"
    and "\<forall>i \<in> set js. i < length ws \<and> \<not> has_thread (ws ! i)" and "distinct js"
  shows "\<exists>w \<in> set ws'. \<not> has_thread w"
  using assms
proof (induction js arbitrary: ws k)
  case (Cons i js)
  obtain k1 ret1 wk where w: "start_worker A V K junk opt flags k = Some (k1, ret1, wk)"
    using Cons.prems(1) by (auto split: option.splits)
  let ?ws = "case wk of None \<Rightarrow> ws | Some w \<Rightarrow> ws[i := Some w]"
  show ?case
  proof (cases "ret1 = 0")
    case True
    then have "start_workers A V K junk opt flags js ?ws k1 = Some (k', ret, ws')"
      using Cons.prems(1) w by (simp add: Let_def split: if_splits)
    moreover have "\<forall>j \<in> set js. j < length ?ws \<and> \<not> has_thread (?ws ! j)" using Cons.prems(3,4) by (auto simp: nth_list_update split: option.splits)
    ultimately show ?thesis using Cons.IH [of ?ws k1] Cons.prems(2,4) by simp
  next
    case False
    then have "ws' = ?ws" using Cons.prems(1) w by (simp add: Let_def split: if_splits)
    moreover have "i < length ?ws" "\<not> has_thread (?ws ! i)"
      using Cons.prems(3) start_worker_error [OF w False] by (auto split: option.splits)
    ultimately show ?thesis by (metis nth_mem)
  qed
qed simp

lemma failed_start:
  assumes "iu_workers iu = []" and "0 < uo_instances (iu_opt iu)" and "IoUring_Start A V K junk iu k = Some (iu', k', ret)" and "ret \<noteq> 0"
  shows "IoUring_Stop A K iu' k'' = None"
proof -
  let ?n = "nat (uo_instances (iu_opt iu))"
  obtain flags ws where w: "start_workers A V K junk (iu_opt iu) flags [0..<?n] (resized ?n []) k = Some (k', ret, ws)"
    "iu' = iu\<lparr>iu_stop := False, iu_workers := ws\<rparr>"
    using assms by (auto simp: IoUring_Start_def Let_def split: option.splits if_splits)
  have "\<exists>w \<in> set ws. \<not> has_thread w"
    by (rule start_workers_error [OF w(1) assms(4)]) (auto simp: resized_def has_thread_def)
  then have "stop_workers A K ws k'' = None" using stop_workers_threads by (metis not_Some_eq)
  then show ?thesis by (simp add: IoUring_Stop_def w(2))
qed

end
