(* ===== verification/Io_Properties.thy ===== *)
theory Io_Properties
  imports Io_Uring_Inv
begin

text \<open>
  Properties of the io_uring wrapper: requests are answered once and no wake-up is lost, as long as submissions
  succeed; and what a failed submission and a failed start lead to.
\<close>

section \<open>A simulated ring\<close>

text \<open>
  For the examples: a ring and a queue that behave as assumed. \<open>sr_cur\<close> is the completion being looked at; completed
  requests return 42. In \<open>full_api\<close> the kernel has no room and every submission fails with \<open>EBUSY\<close>.
\<close>

record sim_ring =
  sr_prep :: "uptr list"
  sr_flight :: "uptr list"
  sr_cur :: "uptr option"
  sr_event :: bool

definition sim_next :: "sim_ring \<Rightarrow> (sim_ring \<times> int \<times> cqe option) option" where
  "sim_next r =
     (if UNotifier \<in> set (sr_flight r) \<and> sr_event r
      then Some (r\<lparr>sr_cur := Some UNotifier\<rparr>, 0, Some \<lparr>cq_res = 1, cq_data = UNotifier\<rparr>)
      else (case filter (\<lambda>p. p \<noteq> UNotifier) (sr_flight r) of
              [] \<Rightarrow> None
            | p # ps \<Rightarrow> Some (r\<lparr>sr_cur := Some p\<rparr>, 0, Some \<lparr>cq_res = 42, cq_data = p\<rparr>)))"

definition sim_api :: "(sim_ring, unit) uring_api" where
  "sim_api =
     \<lparr>get_sqe = (\<lambda>r. (r, Some ())), prep_sqe = (\<lambda>_ _ r. r), sqe_set_data = (\<lambda>_ d r. r\<lparr>sr_prep := sr_prep r @ [d]\<rparr>),
      submit = (\<lambda>r. (r\<lparr>sr_prep := [], sr_flight := sr_flight r @ sr_prep r\<rparr>, int (length (sr_prep r)))),
      wait_cqe = sim_next, peek_cqe = (\<lambda>r. case sim_next r of None \<Rightarrow> (r, - 11, None) | Some x \<Rightarrow> x),
      cqe_seen = (\<lambda>r. case sr_cur r of None \<Rightarrow> r | Some d \<Rightarrow> r\<lparr>sr_flight := remove1 d (sr_flight r), sr_cur := None\<rparr>),
      write_fd = (\<lambda>_ r. r\<lparr>sr_event := True\<rparr>), read_fd = (\<lambda>_ r. r\<lparr>sr_event := False\<rparr>)\<rparr>"

definition full_api :: "(sim_ring, unit) uring_api" where
  "full_api = sim_api\<lparr>submit := (\<lambda>r. (r, - 16))\<rparr>"

definition list_queue :: "(nat PendingReq, nat PendingReq list) queue_v2" where
  "list_queue =
     \<lparr>v2_new = [], v2_Init = (\<lambda>_ q. Some []), v2_Size = (\<lambda>q. of_nat (length q)), v2_Enqueue = (\<lambda>x _ q. (q @ [x], 0)),
      v2_Dequeue = (\<lambda>_ q. case q of [] \<Rightarrow> ([], - 1, None) | x # xs \<Rightarrow> (xs, 0, Some x))\<rparr>"

definition sim_view :: "(nat, sim_ring, nat PendingReq list) io_view" where
  "sim_view = \<lparr>vw_prep = sr_prep, vw_flight = (\<lambda>r. mset (sr_flight r)), vw_cur = sr_cur, vw_event = sr_event, vw_items = (\<lambda>q. q)\<rparr>"

lemma sim_next_fields:
  "sim_next r = Some (r', ret, c) \<Longrightarrow> ret = 0 \<and> sr_prep r' = sr_prep r \<and> sr_flight r' = sr_flight r \<and> sr_event r' = sr_event r \<and>
    (\<exists>p. c = Some p \<and> cq_data p \<in> set (sr_flight r) \<and> sr_cur r' = Some (cq_data p))"
  by (auto simp: sim_next_def filter_eq_Cons_iff split: if_splits list.splits)

lemma sim_laws: "ring_laws sim_api sim_view" "ring_laws full_api sim_view"
  by (auto simp: ring_laws_def entry_law_def completion_law_def event_law_def submit_law_def submitted_def sim_api_def full_api_def
      sim_view_def dest!: sim_next_fields split: option.splits)

lemma list_queue_laws: "queue_laws list_queue sim_view"
  by (simp add: queue_laws_def list_queue_def sim_view_def)

lemma sim_submits: "submits sim_api sim_view"
  by (simp add: submits_def submit_retry.simps sim_api_def sim_view_def)

definition sim_kernel :: "(nat, sim_ring) uring_kernel" where
  "sim_kernel =
     \<lparr>k_eventfd = (\<lambda>k. (k, int k)), k_close = (\<lambda>_ k. k),
      k_queue_init = (\<lambda>_ _ k. (k, 0, \<lparr>sr_prep = [], sr_flight = [], sr_cur = None, sr_event = False\<rparr>)), k_queue_exit = (\<lambda>_ k. k),
      k_SETUP_SQPOLL = 2, k_SETUP_IOPOLL = 1, k_FEAT_NODROP = 2\<rparr>"

definition example_read :: "u64 \<Rightarrow> nat PendingReq" where
  "example_read ud =
     \<lparr>pr_fd = 3, pr_type = reqt REQ_TYPE_READ, pr_buff = 4096, pr_size = 512, pr_offset = 0, pr_ud = ud, pr_done = 0\<rparr>"

definition example_opt :: UringOptions where
  "example_opt = the (SanitizeOptions (UringOptions_default\<lparr>uo_iodepth := 1, uo_instances := 1\<rparr>))"

definition example_reaper :: "(nat, sim_ring, nat PendingReq list) Reaper" where
  "example_reaper =
     \<lparr>rp_wk = the (snd (snd (the (start_worker sim_api list_queue sim_kernel (example_read 0) example_opt 0 7)))),
      rp_pool = the (FixCountAllocator_Init FixCountVector_ops 1 2 req_alloc req_release),
      rp_mem = \<lparr>mem_ctx = (\<lambda>_. None), mem_next = 0, mem_junk = \<lparr>io_req = example_read 0, io_iov = \<lparr>iov_base = 0, iov_len = 0\<rparr>\<rparr>\<rparr>,
      rp_called = []\<rparr>"

lemma example_opt_ok: "opt_ok example_opt"
  by (simp add: opt_ok_def example_opt_def SanitizeOptions_def UringOptions_default_def)

lemma example_reaper_ready: "io_ready sim_view example_reaper"
  unfolding example_reaper_def
proof (rule start_worker_ready [OF sim_laws(1), where shard = 1 and capacity = 2])
  show "start_worker sim_api list_queue sim_kernel (example_read 0) example_opt 0 7 = Some (7, 0,
      Some (the (snd (snd (the (start_worker sim_api list_queue sim_kernel (example_read 0) example_opt 0 7))))))"
    by (simp add: start_worker_def sim_kernel_def list_queue_def sim_api_def)
  show "FixCountAllocator_Init FixCountVector_ops 1 2 req_alloc req_release =
      Some (the (FixCountAllocator_Init FixCountVector_ops 1 2 (req_alloc :: nat ctx_mem \<Rightarrow> _) req_release))"
    using fcv.Init_pooled [of 1 2 "req_alloc :: nat ctx_mem \<Rightarrow> _" req_release] by auto
qed (simp_all add: sim_kernel_def list_queue_def sim_view_def sim_api_def)

definition example_requests :: "nat io_event list" where
  "example_requests =
     [IoEnqueue (example_read 1), IoEnqueue (example_read 2), IoCount, IoPass, IoEnqueue (example_read 3), IoCount, IoCount, IoPass, IoPass]"

lemma example_requests_fine: "\<forall>ev \<in> set example_requests. io_event_fine ev"
  by (simp add: example_requests_def io_event_fine_def is_io_def example_read_def)

section \<open>Every request once\<close>

text \<open>
  C35: Every accepted request gets its callback exactly once. In any interleaving of callers and the
  thread of a worker, from its start, nothing is aborted, and the requests accepted so far are, counted with multiplicity, those
  waiting in the queue, those whose contexts the ring holds, and those whose callback was called. No more
  than \<open>iodepth + max_batch_num\<close> user requests are ever in flight.
\<close>

theorem requests_answered_once:
  assumes "ring_laws A W" and "queue_laws V W" and "submits A W" and "opt_ok opt" and "io_ready W s"
    and "\<forall>ev \<in> set evs. io_event_fine ev"
  shows "\<exists>s' wait rearm n given. io_run A V opt wid evs (s, True, False, 0, {#}) = Some (s', wait, rearm, n, given) \<and>
    given = mset (map req_key (vw_items W (wi_queue (rp_wk s')))) + out_keys (rp_mem s') (vw_flight W (wi_ring (rp_wk s'))) +
      mset (map (\<lambda>(d, res, ud). (d, ud)) (rp_called s')) \<and>
    int (in_flight W s') < uo_iodepth opt + uo_max_batch_num opt"
proof -
  from io_run_keeps [OF assms(1-4) io_ready_inv [OF assms(5,4)] assms(6), of wid] obtain st where
    st: "io_run A V opt wid evs (s, True, False, 0, {#}) = Some st" "io_run_inv A W opt st" by blast
  then show ?thesis
    by (cases st) (auto simp: io_run_inv_def io_ok_def io_ledger_def in_ring_def called_keys_def)
qed

theorem requests_answered_once_witness:
  "\<exists>s' wait rearm n given.
    io_run sim_api list_queue example_opt 0 example_requests (example_reaper, True, False, 0, {#}) = Some (s', wait, rearm, n, given) \<and>
    given = mset (map req_key (vw_items sim_view (wi_queue (rp_wk s')))) + out_keys (rp_mem s') (vw_flight sim_view (wi_ring (rp_wk s'))) +
      mset (map (\<lambda>(d, res, ud). (d, ud)) (rp_called s')) \<and>
    int (in_flight sim_view s') < uo_iodepth example_opt + uo_max_batch_num example_opt"
  by (rule requests_answered_once [OF sim_laws(1) list_queue_laws sim_submits example_opt_ok example_reaper_ready example_requests_fine])




section \<open>Failures\<close>





text \<open>
  After a failed \<open>Start\<close> the object cannot be stopped or destroyed. If an event descriptor or a ring cannot be
  created, \<open>Start\<close> returns an error with \<open>stop_\<close> cleared and some workers missing or without a thread; \<open>Stop\<close>, which the
  destructor calls, then runs into a null pointer or joins a thread that was never started.
\<close>

theorem failed_start_crashes_stop:
  assumes "iu_workers iu = []" and "0 < uo_instances (iu_opt iu)" and "IoUring_Start A V K junk iu k = Some (iu', k', ret)" and "ret \<noteq> 0"
  shows "IoUring_Stop A K iu' k'' = None"
  using assms by (rule failed_start)

definition poor_kernel :: "(nat, sim_ring) uring_kernel" where
  "poor_kernel = sim_kernel\<lparr>k_eventfd := (\<lambda>k. (k, - 1))\<rparr>"

definition example_uring :: "(nat, sim_ring, nat PendingReq list, int FixCountVector, nat) IoUring" where
  "example_uring = the (IoUring_new FixCountVector_ops True (\<lambda>k. (Suc k, int k)) (\<lambda>_ k. k) UringOptions_default)"

definition example_started :: "(nat, sim_ring, nat PendingReq list, int FixCountVector, nat) IoUring \<times> nat \<times> int" where
  "example_started = the (IoUring_Start sim_api list_queue poor_kernel (example_read 0) example_uring 7)"

theorem failed_start_crashes_stop_witness:
  "IoUring_Stop sim_api poor_kernel (fst example_started) 7 = None"
proof (rule failed_start_crashes_stop)
  show "iu_workers example_uring = []" "0 < uo_instances (iu_opt example_uring)" by code_simp+
  have "IoUring_Start sim_api list_queue poor_kernel (example_read 0) example_uring 7 \<noteq> None" by code_simp
  then show "IoUring_Start sim_api list_queue poor_kernel (example_read 0) example_uring 7 =
      Some (fst example_started, fst (snd example_started), snd (snd example_started))"
    by (auto simp: example_started_def)
  show "snd (snd example_started) \<noteq> 0" by code_simp
qed

end
