(* ===== verification/Response_Shape.thy ===== *)
theory Response_Shape
  imports Proposer_Inv
begin

text \<open>
  What a single response changes in an instance of the proposer, for the invariant of a group in \<open>Group_Inv\<close>: a
  response that does not count leaves the round as it is or ends it, a promise or vote is counted, only a promise
  that completes a majority leads to an accept request, and only a vote that completes one to a chosen request.
\<close>

text \<open>Two proposals for the same entry of the same instance.\<close>

definition names :: "Proposal \<Rightarrow> Proposal \<Rightarrow> bool" where
  "names pp q \<longleftrightarrow> p_pinst q = p_pinst pp \<and> p_pentry q = p_pentry pp"

lemma names_refl [simp]: "names pp pp"
  by (simp add: names_def)

lemma names_fields [simp]: "names pp (q\<lparr>p_status := a\<rparr>) = names pp q" "names pp (q\<lparr>p_data := b\<rparr>) = names pp q"
  "names pp (q\<lparr>p_size := c\<rparr>) = names pp q" "names pp (q\<lparr>p_last_chosen := d\<rparr>) = names pp q"
  "names pp (q\<lparr>p_last_chosen_from := f\<rparr>) = names pp q"
  by (simp_all add: names_def)

section \<open>What a response changes\<close>

text \<open>
  The request of a round keeps its id, value id, entry and instance (only its opaque value and term are copied from answers); a response that does
  not count changes nothing else that matters, or ends the round.
\<close>

definition same_request :: "PaxosMsg \<Rightarrow> PaxosMsg \<Rightarrow> bool" where
  "same_request a b \<longleftrightarrow> p_pid (m_body b) = p_pid (m_body a) \<and> names (m_body a) (m_body b)"

definition same_value :: "PaxosMsg \<Rightarrow> PaxosMsg \<Rightarrow> bool" where
  "same_value a b \<longleftrightarrow> same_request a b \<and> p_value_id (m_body b) = p_value_id (m_body a)"

definition same_round :: "InstanceState \<Rightarrow> InstanceState \<Rightarrow> bool" where
  "same_round s s' \<longleftrightarrow> is_term s' = is_term s \<and>
     (is_req s' = None \<or> (phase s' = phase s \<and> notified s' = notified s \<and> is_lastv s' = is_lastv s \<and>
        is_valid_rsp_count s' = is_valid_rsp_count s \<and> rel_option same_value (is_req s) (is_req s')))"

lemma same_request_refl [simp]: "same_request a a"
  by (simp add: same_request_def)

lemma same_request_trans: "same_request a b \<Longrightarrow> same_request b c \<Longrightarrow> same_request a c"
  by (simp add: same_request_def names_def)

lemma same_request_meta [simp]: "same_request a (with_meta rsp b) = same_request a b"
  by (simp add: same_request_def names_def)

lemma same_request_header [simp]: "same_request a (Proposer_accept_header cf s b) = same_request a b"
  by (simp add: same_request_def names_def)

lemma same_value_request: "same_value a b \<Longrightarrow> same_request a b"
  by (simp add: same_value_def)

lemma same_value_refl [simp]: "same_value a a"
  by (simp add: same_value_def)

lemma same_value_trans: "same_value a b \<Longrightarrow> same_value b c \<Longrightarrow> same_value a c"
  using same_request_trans by (auto simp: same_value_def)

lemma same_value_meta [simp]: "same_value a (with_meta rsp b) = same_value a b"
  by (simp add: same_value_def)

lemma same_value_header [simp]: "same_value a (Proposer_accept_header cf s b) = same_value a b"
  by (simp add: same_value_def)

lemma same_round_refl [simp]: "same_round s s"
  by (cases "is_req s") (simp_all add: same_round_def)

lemma same_round_trans:
  assumes "same_round s t" and "same_round t u"
  shows "same_round s u"
proof (cases "is_req u")
  case (Some c)
  then obtain b where "is_req t = Some b" "same_value b c"
    using assms(2) by (auto simp: same_round_def option_rel_Some2)
  moreover from this(1) obtain a where "is_req s = Some a" "same_value a b"
    using assms(1) by (auto simp: same_round_def option_rel_Some2)
  ultimately show ?thesis using assms Some same_value_trans by (auto simp: same_round_def)
qed (use assms in \<open>simp add: same_round_def\<close>)

lemma settle_shape: "settle v s = Some (s', res) \<Longrightarrow> \<exists>p. s' = s\<lparr>is_ret := p\<rparr>"
  by (auto simp: settle_def split: if_splits)

lemma same_round_ret [simp]: "same_round s (s\<lparr>is_ret := p\<rparr>)"
  by (cases "is_req s") (simp_all add: same_round_def)

lemma same_round_idle [simp]: "is_term s' = is_term s \<Longrightarrow> is_req s' = None \<Longrightarrow> same_round s s'"
  by (simp add: same_round_def)

lemma prepare_out_round:
  assumes "prepare_out_step ret fin first ms s = Some (s', ms', res, r)"
  shows "ms' = ms" and "same_round s s'"
proof -
  show "ms' = ms" using assms by (rule prepare_out_shape(1))
  show "same_round s s'"
    using assms by (auto simp: prepare_out_step_def Let_def dest!: settle_shape split: if_splits Option.bind_splits)
qed

lemma accept_out_round:
  assumes "accept_out_step ret fin ms s = Some (s', ms', res, r)"
  shows "ms' = ms" and "same_round s s'"
  using assms by (auto simp: accept_out_step_def Let_def dest!: settle_shape split: if_splits Option.bind_splits)

lemma out_round:
  "same_round s t \<Longrightarrow> prepare_out_step ret fin first ms t = Some (s', ms', res, r) \<Longrightarrow> ms' = ms \<and> same_round s s'"
  "same_round s t \<Longrightarrow> accept_out_step ret fin ms t = Some (s', ms', res, r) \<Longrightarrow> ms' = ms \<and> same_round s s'"
proof -
  assume "same_round s t" and out: "prepare_out_step ret fin first ms t = Some (s', ms', res, r)"
  with same_round_trans prepare_out_round [OF out] show "ms' = ms \<and> same_round s s'" by blast
next
  assume "same_round s t" and out: "accept_out_step ret fin ms t = Some (s', ms', res, r)"
  with same_round_trans accept_out_round [OF out] show "ms' = ms \<and> same_round s s'" by blast
qed

text \<open>A prepare response that is no promise.\<close>

lemma prepare_step_other:
  assumes "is_req s = Some req" and "\<not> grants (p_pid (m_body req)) rsp" and "prepare_step cf rsp req s = Some (s', ms, res, ret)"
  shows "ms = [] \<and> same_round s s'"
proof -
  have same: "same_round s (s\<lparr>is_rsp_count := x\<rparr>)"
    "same_round s (s\<lparr>is_rsp_count := x, is_req := Some (with_meta rsp req), is_ig := g\<rparr>)" for x g
    using assms(1) by (simp_all add: same_round_def)
  have "prepare_verdict req rsp \<noteq> Granted" using assms(2) prepare_verdict_grants by blast
  then show ?thesis
    using assms(3)
    by (cases "prepare_verdict req rsp")
      (auto simp: prepare_step_def Let_def dest: prepare_out_round(1) out_round(1) [OF same_round_refl] out_round(1) [OF same(1)]
        out_round(1) [OF same(2)] split: Option.bind_splits)
qed

text \<open>
  A promise: it is counted, and either nothing is sent or an accept request with the id of the promise, for the
  request of the round or for the last vote. In the second case the last vote has been in the state, or is this response.
\<close>

definition vote_of :: "PaxosMsg \<Rightarrow> InstanceState \<Rightarrow> InstanceState \<Rightarrow> bool" where
  "vote_of rsp s s' \<longleftrightarrow> (notified s' \<longrightarrow> notified s \<and> is_lastv s' = is_lastv s \<or>
     (\<exists>m. is_lastv s' = Some m \<and> p_pid (m_body m) = p_pid (m_body rsp) \<and> names (m_body rsp) (m_body m)))"

lemma clone_fields: "CloneProposalMsg m = Some m' \<Longrightarrow> p_pid (m_body m') = p_pid (m_body m) \<and> names (m_body m) (m_body m')"
  by (auto simp: CloneProposalMsg_def memcpy_Proposal_def Let_def names_def split: option.splits if_splits)

lemma last_vote_vote_of:
  assumes "last_vote_step rsp req s = Some (s', has, first)"
  shows "vote_of rsp s s'" "has = notified s'" "is_term s' = is_term s"
  using assms
  by (auto simp: last_vote_step_def vote_of_def dest!: clone_fields split: if_splits Option.bind_splits)

definition counted :: "PaxosMsg \<Rightarrow> InstanceState \<Rightarrow> InstanceState \<Rightarrow> bool" where
  "counted rsp s s' \<longleftrightarrow> is_term s' = is_term s \<and>
     (is_req s' = None \<or> (phase s' = phase s \<and> vote_of rsp s s' \<and>
        is_valid_rsp_count s' = is_valid_rsp_count s + 1 \<and> rel_option same_value (is_req s) (is_req s')))"

lemma counted_same: "counted rsp s t \<Longrightarrow> same_round t u \<Longrightarrow> counted rsp s u"
proof (cases "is_req u")
  case (Some c)
  assume a: "counted rsp s t" "same_round t u"
  then obtain b where "is_req t = Some b" "same_value b c"
    using Some by (auto simp: same_round_def option_rel_Some2)
  moreover from this(1) obtain d where "is_req s = Some d" "same_value d b"
    using a by (auto simp: counted_def option_rel_Some2)
  ultimately show ?thesis using a Some same_value_trans by (auto simp: counted_def same_round_def vote_of_def)
qed (simp add: counted_def same_round_def)

lemma prepare_step_grant:
  assumes "is_req s = Some req" and "grants (p_pid (m_body req)) rsp" and "prepare_step cf rsp req s = Some (s', ms, res, ret)"
  shows "ms = [] \<and> counted rsp s s' \<or>
    (\<exists>m. ms = [m] \<and> m_type m = mt kMsgType_ACCEPT_REQ \<and> is_term s' = is_term s \<and> p_pid (m_body rsp) \<noteq> 0 \<and>
       (\<forall>req'. is_req s' = Some req' \<longrightarrow> same_value req req' \<and> phase s' = ACCEPTING \<and> is_valid_rsp_count s' = 0) \<and>
       unat (cf_total_acceptor cf div 2 + 1) \<le> unat (is_valid_rsp_count s) + 1 \<and>
       (same_request req m \<or> notified s \<and> (\<exists>l. is_lastv s = Some l \<and> same_request l m) \<or> same_request rsp m))"
proof -
  let ?s = "s\<lparr>is_rsp_count := is_rsp_count s + 1, is_req := Some (with_meta rsp req)\<rparr>"
  have granted: "prepare_verdict req rsp = Granted" using assms(2) prepare_verdict_grants by blast
  then obtain s3 has first where lv: "last_vote_step rsp (with_meta rsp req) ?s = Some (s3, has, first)"
    using assms(3) by (auto simp: prepare_step_def Let_def split: Option.bind_splits)
  let ?s4 = "s3\<lparr>is_valid_rsp_count := is_valid_rsp_count s3 + 1\<rparr>"
  note shape = last_vote_shape [OF lv] last_vote_vote_of [OF lv]
  have vote: "vote_of rsp s s3" using shape(4) by (simp add: vote_of_def)
  have cnt: "counted rsp s ?s4" using shape vote assms(1) by (simp add: counted_def vote_of_def)
  let ?enough = "cf_total_acceptor cf div 2 + 1 \<le> ucast (is_valid_rsp_count ?s4)"
  let ?fin = "ucast (is_rsp_count s + 1) = cf_total_acceptor cf"
  show ?thesis
  proof (cases "(if has \<and> ?enough then ?fin else ?enough) \<and> p_pid (m_body rsp) > 0")
    case True
    then have enough: ?enough by (auto split: if_splits)
    have v: "unat (cf_total_acceptor cf div 2 + 1) \<le> unat (is_valid_rsp_count s) + 1"
    proof -
      have "unat (cf_total_acceptor cf div 2 + 1) \<le> unat (ucast (is_valid_rsp_count ?s4) :: u32)"
        using enough by (simp add: word_le_nat_alt)
      also have "\<dots> = unat (is_valid_rsp_count s + 1)" using shape(3) by (simp add: unat_ucast_u8)
      also have "\<dots> \<le> unat (is_valid_rsp_count s) + 1" by (rule count_up)
      finally show ?thesis .
    qed
    obtain m0 where m0: "(if has then is_lastv ?s4 else is_req ?s4) = Some m0"
      "prepare_out_step (m_errcode rsp) False first [Proposer_accept_header cf ?s4 m0]
         (to_accepting (if has then ?s4 else ?s4\<lparr>is_req := Some (Proposer_accept_header cf ?s4 m0)\<rparr>)) = Some (s', ms, res, ret)"
      using assms(3) True granted lv by (auto simp: prepare_step_def Let_def split: Option.bind_splits if_splits)
    let ?m = "Proposer_accept_header cf ?s4 m0"
    have ms: "ms = [?m]" and s': "same_round (to_accepting (if has then ?s4 else ?s4\<lparr>is_req := Some ?m\<rparr>)) s'"
      using prepare_out_round [OF m0(2)] by simp_all
    have "is_term s' = is_term s" using s' shape(6) by (simp add: same_round_def split: if_splits)
    moreover have "same_request req ?m \<or> notified s \<and> (\<exists>l. is_lastv s = Some l \<and> same_request l ?m) \<or> same_request rsp ?m"
    proof (cases has)
      case True
      then have "notified s3" "is_lastv s3 = Some m0" using m0(1) shape(5) by simp_all
      then have "notified s \<and> is_lastv s = Some m0 \<or> same_request rsp m0"
        using vote by (auto simp: vote_of_def same_request_def)
      then show ?thesis by auto
    next
      case False
      then have "with_meta rsp req = m0" using m0(1) shape(1) by simp
      then have "same_request req m0" by auto
      then show ?thesis by simp
    qed
    moreover have "same_value req req' \<and> phase s' = ACCEPTING \<and> is_valid_rsp_count s' = 0" if "is_req s' = Some req'" for req'
    proof -
      have "\<exists>a. is_req (if has then ?s4 else ?s4\<lparr>is_req := Some ?m\<rparr>) = Some a \<and> same_value req a"
        using m0(1) shape(1) by (auto split: if_splits)
      moreover have "is_valid_rsp_count (to_accepting t) = 0" for t by (simp add: to_accepting_def)
      ultimately show ?thesis using s' that same_value_trans by (auto simp: same_round_def)
    qed
    ultimately show ?thesis using ms v True by auto
  next
    case False
    then have "(\<exists>r f. prepare_out_step r f first [] ?s4 = Some (s', ms, res, ret))"
      using assms(3) granted lv by (auto simp: prepare_step_def Let_def split: Option.bind_splits if_splits)
    then show ?thesis using prepare_out_round counted_same [OF cnt] by metis
  qed
qed

text \<open>
  A response to an accept request never leads to another one. Only a vote for the request of the round is counted, and only
  one that completes a majority leads to a chosen request, which ends the round.
\<close>

lemma accept_step_other:
  assumes "is_req s = Some req" and "accept_verdict req rsp \<noteq> Voted" and "accept_step cf rsp req s = Some (s', ms, res, ret)"
  shows "ms = [] \<and> same_round s s'"
proof -
  have same: "same_round s (s\<lparr>is_rsp_count := x\<rparr>)"
    "same_round s (s\<lparr>is_rsp_count := x, is_req := Some (with_meta rsp req)\<rparr>)"
    "same_round s (s\<lparr>is_rsp_count := x, is_req := Some (with_meta rsp req), is_ig := g\<rparr>)" for x g
    using assms(1) by (simp_all add: same_round_def)
  show ?thesis
    using assms(2,3)
    by (cases "accept_verdict req rsp")
      (auto simp: accept_step_def Let_def dest: out_round(2) [OF same_round_refl] out_round(2) [OF same(1)]
        out_round(2) [OF same(2)] out_round(2) [OF same(3)] split: Option.bind_splits)
qed

lemma accept_step_vote:
  assumes "is_req s = Some req" and "accept_verdict req rsp = Voted" and "accept_step cf rsp req s = Some (s', ms, res, ret)"
  shows "is_term s' = is_term s \<and>
    (ms = [] \<and> (\<forall>req'. is_req s' = Some req' \<longrightarrow> same_value req req' \<and> phase s' = phase s \<and>
        is_valid_rsp_count s' = is_valid_rsp_count s + 1) \<or>
     ms = [Proposer_chosen_msg cf rsp] \<and> is_req s' = None \<and>
       unat (cf_total_acceptor cf div 2 + 1) \<le> unat (is_valid_rsp_count s) + 1)"
proof -
  let ?s = "s\<lparr>is_rsp_count := is_rsp_count s + 1, is_req := Some (with_meta rsp req),
    is_valid_rsp_count := is_valid_rsp_count s + 1\<rparr>"
  show ?thesis
  proof (cases "cf_total_acceptor cf div 2 + 1 \<le> ucast (is_valid_rsp_count s + 1)")
    case True
    then have "unat (cf_total_acceptor cf div 2 + 1) \<le> unat (ucast (is_valid_rsp_count s + 1) :: u32)"
      by (simp add: word_le_nat_alt)
    also have "\<dots> = unat (is_valid_rsp_count s + 1)" by (simp add: unat_ucast_u8)
    also have "\<dots> \<le> unat (is_valid_rsp_count s) + 1" by (rule count_up)
    finally have v: "unat (cf_total_acceptor cf div 2 + 1) \<le> unat (is_valid_rsp_count s) + 1" .
    let ?u = "fst (InstanceState_UpdateChosenInfo (p_pentry (m_body rsp)) (ucast (p_proposer (m_body rsp))) ?s)"
    have out: "accept_out_step (m_errcode rsp) True [Proposer_chosen_msg cf rsp] ?u = Some (s', ms, res, ret)"
      using assms(2,3) True by (simp add: accept_step_def Let_def)
    have "is_req s' = None"
      using out by (auto simp: accept_out_step_def Let_def dest!: settle_shape split: if_splits Option.bind_splits)
    moreover have "is_term ?u = is_term s" by (simp add: InstanceState_UpdateChosenInfo_def)
    ultimately show ?thesis using accept_out_round [OF out] v by (simp add: same_round_def)
  next
    case False
    then have "\<exists>fin. accept_out_step (m_errcode rsp) fin [] ?s = Some (s', ms, res, ret)"
      using assms(2,3) by (auto simp: accept_step_def Let_def)
    then have "ms = []" "same_round ?s s'" using accept_out_round by blast+
    have meta: "same_value (with_meta rsp req) x = same_value req x" for x
      by (simp add: same_value_def same_request_def names_def)
    show ?thesis using \<open>ms = []\<close> \<open>same_round ?s s'\<close> by (cases "is_req s'") (simp_all add: same_round_def meta phase_def)
  qed
qed

lemma accept_verdict_Voted:
  "accept_verdict req rsp = Voted \<longleftrightarrow> m_type rsp = mt kMsgType_ACCEPT_RSP \<and> m_errcode rsp = err kErrCode_OK \<and>
     p_status (m_body rsp) = st kPaxosState_ACCEPTED \<and> p_pid (m_body rsp) = p_pid (m_body req) \<and>
     p_value_id (m_body rsp) = p_value_id (m_body req)"
  by (simp add: accept_verdict_def)

lemma timeout_step_round:
  "timeout_step s = Some (s', ms, res, ret) \<Longrightarrow> ms = [] \<and> is_req s' = None \<and> is_term s' = is_term s"
  by (auto simp: timeout_step_def Let_def dest!: settle_shape split: if_splits Option.bind_splits)

end
