(* ===== verification/Group.thy ===== *)
theory Group
  imports Proposer_Properties Response_Shape
begin

text \<open>
  A whole group: proposers and acceptors on every server, and a network between them. A step is a
  call of a client, a request that reaches an acceptor, an answer that reaches the proposer's
  callback, a timeout, or an entry learnt from the log; requests and answers may be lost, delayed, repeated
  and reordered, except that the callback of a request is called at most once. The
  theory holds the step relation and what a single answer says.
\<close>

section \<open>The system\<close>

text \<open>
  \<open>gr_log\<close> is the history of answers, \<open>gr_used\<close> are the requests, by server and position in \<open>ps_sent\<close>, whose
  callback has been called with one.
\<close>

record ('db, 'conn) group =
  gr_prop :: "nat \<Rightarrow> 'conn Proposer"
  gr_acc :: "nat \<Rightarrow> ('db, nat) Acceptor"
  gr_log :: "answer list"
  gr_used :: "(nat \<times> nat) list"

text \<open>
  What a run is restricted to. Of the proposers, only the member with id 0, the master, skips the prepare
  phase, the term of an instance does not wrap around, and the value id of a new proposal is on no earlier request of the
  server for the instance (value ids could wrap around, or one adopted from a peer could be drawn again). Of the acceptors, the cache has room for the entries in use, and the entry
  that a request finds, in the cache or on disk, holds proposals for itself.
\<close>

definition fresh_value :: "('conn \<times> PaxosMsg \<times> RpcKey) list \<Rightarrow> u64 \<Rightarrow> u64 \<Rightarrow> bool" where
  "fresh_value snt i v \<longleftrightarrow> (\<forall>(c, m, key) \<in> set snt. p_pinst (m_body m) = i \<longrightarrow> p_value_id (m_body m) \<noteq> v)"

definition may_propose :: "u64 \<Rightarrow> u8 list \<Rightarrow> u64 \<Rightarrow> 'conn Proposer \<Rightarrow> bool" where
  "may_propose opaque val pinst P =
     (case ps_slot P pinst of None \<Rightarrow> True | Some i \<Rightarrow> (case ps_at P i of None \<Rightarrow> True | Some s \<Rightarrow>
        is_term s \<noteq> npos \<and> fresh_value (ps_sent P) i (ig_id (is_vig s)) \<and> (is_proposer_id s = 0 \<or> \<not> one_phase (ps_config P) i opaque val s)))"

definition holds_for :: "Proposal \<Rightarrow> Proposal option \<Rightarrow> bool" where
  "holds_for pp x = (case x of None \<Rightarrow> True | Some q \<Rightarrow> names pp q)"

definition labelled :: "'db plog_env \<Rightarrow> ('db, 'cb) Acceptor \<Rightarrow> Proposal \<Rightarrow> bool" where
  "labelled S ac pp \<longleftrightarrow>
     (let e = ac_entry S ac (p_pinst pp) (p_pentry pp)
      in holds_for pp (en_accepted e) \<and> holds_for pp (en_promised e))"

definition may_deliver :: "'db plog_env \<Rightarrow> PaxosMsg \<Rightarrow> ('db, 'cb) Acceptor \<Rightarrow> bool" where
  "may_deliver S msg ac \<longleftrightarrow> wf_PaxosMsg msg \<and>
     em_room (p_pentry (m_body msg)) (ac_mng ac (p_pinst (m_body msg))) \<and> labelled S ac (m_body msg)"

text \<open>
  \<open>peer\<close> tells which acceptor is behind a connection. A connection writes its own request id into the message.
\<close>

inductive group_step :: "'db plog_env \<Rightarrow> ('conn \<Rightarrow> nat) \<Rightarrow> ('db, 'conn) group \<Rightarrow> ('db, 'conn) group \<Rightarrow> bool"
  for S peer where
  propose:
    "length val < 2 ^ 32 \<Longrightarrow> may_propose opaque val pinst (gr_prop g q) \<Longrightarrow>
     proposer_step (Propose opaque val pinst) (gr_prop g q) = Some P \<Longrightarrow>
     group_step S peer g (g\<lparr>gr_prop := (gr_prop g)(q := P)\<rparr>)"
| learn:
    "proposer_step (Learn msg from_plog) (gr_prop g q) = Some P \<Longrightarrow>
     group_step S peer g (g\<lparr>gr_prop := (gr_prop g)(q := P)\<rparr>)"
| expire:
    "rm_msg m = None \<Longrightarrow> proposer_step (Respond m) (gr_prop g q) = Some P \<Longrightarrow>
     group_step S peer g (g\<lparr>gr_prop := (gr_prop g)(q := P)\<rparr>)"
| deliver:
    "(c, m, key) \<in> set (ps_sent (gr_prop g q)) \<Longrightarrow> msg = m\<lparr>m_reqid := r\<rparr> \<Longrightarrow>
     may_deliver S msg (gr_acc g (peer c)) \<Longrightarrow>
     Acceptor_doHandleMsg S \<lparr>rq_cb = cb, rq_msg = msg\<rparr> (gr_acc g (peer c)) = Some (ac', out) \<Longrightarrow>
     log' = (case out of None \<Rightarrow> gr_log g | Some (_, rsp) \<Rightarrow> (peer c, msg, rsp) # gr_log g) \<Longrightarrow>
     group_step S peer g (g\<lparr>gr_acc := (gr_acc g)(peer c := ac'), gr_log := log'\<rparr>)"
| respond:
    "j < length (ps_sent (gr_prop g q)) \<Longrightarrow> ps_sent (gr_prop g q) ! j = (c, m, key) \<Longrightarrow> (q, j) \<notin> set (gr_used g) \<Longrightarrow>
     (peer c, m\<lparr>m_reqid := r\<rparr>, rsp) \<in> set (gr_log g) \<Longrightarrow>
     proposer_step (Respond (answer_to key rsp)) (gr_prop g q) = Some P \<Longrightarrow>
     group_step S peer g (g\<lparr>gr_prop := (gr_prop g)(q := P), gr_used := (q, j) # gr_used g\<rparr>)"

definition group_reach :: "'db plog_env \<Rightarrow> ('conn \<Rightarrow> nat) \<Rightarrow> ('db, 'conn) group \<Rightarrow> ('db, 'conn) group \<Rightarrow> bool" where
  "group_reach S peer = (group_step S peer)\<^sup>*\<^sup>*"

text \<open>The answers about one entry, as the theory \<open>Synod\<close> collects them.\<close>

definition group_cluster :: "u64 \<Rightarrow> u64 \<Rightarrow> ('db, 'conn) group \<Rightarrow> ('db, nat) cluster" where
  "group_cluster i k g = \<lparr>cl_acc = gr_acc g,
     cl_log = filter (\<lambda>(a, msg, rsp). concerns i k (gr_acc g a) msg) (gr_log g)\<rparr>"

section \<open>What an answer says\<close>

definition answer_ok :: "PaxosMsg \<Rightarrow> PaxosMsg \<Rightarrow> bool" where
  "answer_ok msg rsp \<longleftrightarrow>
     (m_type rsp = mt kMsgType_PREPARE_RSP \<longrightarrow> m_type msg = mt kMsgType_PREPARE_REQ \<and> names (m_body msg) (m_body rsp) \<and>
        (p_status (m_body rsp) = st kPaxosState_PROMISED \<longrightarrow> p_pid (m_body msg) \<le> p_pid (m_body rsp))) \<and>
     (m_type rsp = mt kMsgType_ACCEPT_RSP \<longrightarrow> m_errcode rsp = err kErrCode_OK \<longrightarrow>
        m_type msg = mt kMsgType_ACCEPT_REQ \<and> names (m_body msg) (m_body rsp) \<and>
        (p_status (m_body rsp) = st kPaxosState_ACCEPTED \<longrightarrow> p_pid (m_body rsp) = p_pid (m_body msg) \<and>
           p_value_id (m_body rsp) = p_value_id (m_body msg)))"

lemma stamp_fields [simp]: "m_type (Acceptor_stamp ac msg rsp) = m_type rsp" "m_errcode (Acceptor_stamp ac msg rsp) = m_errcode rsp"
  by (simp_all add: Acceptor_stamp_def)

lemma labelledD:
  assumes "labelled S ac pp"
  shows "en_accepted (ac_entry S ac (p_pinst pp) (p_pentry pp)) = Some q \<Longrightarrow> names pp q"
    and "en_promised (ac_entry S ac (p_pinst pp) (p_pentry pp)) = Some q \<Longrightarrow> names pp q"
  using assms by (simp_all add: labelled_def holds_for_def Let_def)

lemma prepare_answer_names:
  assumes "labelled S ac pp"
  shows "names pp (fst (prepare_answer saved pp (ac_entry S ac (p_pinst pp) (p_pentry pp))))"
  using labelledD [OF assms] by (auto simp: prepare_answer_def split: option.splits)

lemma prepare_reply_names: "names pp (m_body (prepare_reply saved l p e)) = names pp (fst (prepare_answer saved p e))"
  by (simp add: prepare_reply_def split_beta)

lemma accept_answer_names:
  assumes "labelled S ac pp"
  shows "names pp (accept_answer saved pp (ac_entry S ac (p_pinst pp) (p_pentry pp)))"
  using labelledD [OF assms] by (auto simp: accept_answer_def accept_duplicate_def split: option.splits)

lemma other_answer_type:
  assumes "Acceptor_dispatch S msg ac = Some (ac1, Some r)"
    and "m_type msg \<noteq> mt kMsgType_PREPARE_REQ" "m_type msg \<noteq> mt kMsgType_ACCEPT_REQ"
  shows "m_type r = mt kMsgType_CHOSEN_RSP \<or> m_type r = mt kMsgType_INVALID_REQ"
  using assms by (auto simp: Acceptor_dispatch_def Let_def split: if_splits)

lemma answer_ok_run:
  assumes "ac_inv S ac" and "may_deliver S msg ac"
    and run: "Acceptor_doHandleMsg S \<lparr>rq_cb = cb, rq_msg = msg\<rparr> ac = Some (ac', Some (cb', rsp))"
  shows "answer_ok msg rsp"
proof -
  let ?pp = "m_body msg"
  let ?e = "ac_entry S ac (p_pinst ?pp) (p_pentry ?pp)"
  have wf: "wf_PaxosMsg msg" "wf_Proposal ?pp" and lab: "labelled S ac ?pp"
    using assms(2) by (simp_all add: may_deliver_def wf_PaxosMsg_def)
  consider "m_type msg = mt kMsgType_PREPARE_REQ" | "m_type msg = mt kMsgType_ACCEPT_REQ"
    | "m_type msg \<noteq> mt kMsgType_PREPARE_REQ" "m_type msg \<noteq> mt kMsgType_ACCEPT_REQ" by blast
  then show ?thesis
  proof cases
    case 1
    have "m_type rsp = mt kMsgType_PREPARE_RSP" and "names ?pp (m_body rsp)"
    proof -
      obtain ac1 r where h: "Acceptor_handlePrepareReq S ?pp ac = Some (ac1, r)" "names ?pp (m_body r)"
      proof (cases "ac_lags ac ?pp")
        case True
        from that [OF handlePrepareReq_lags [OF assms(1) True]] show ?thesis by simp
      next
        case False
        obtain m' wp where "Acceptor_handlePrepareReq S ?pp ac = Some (ac_upd (p_pinst ?pp) m' wp ac,
           prepare_reply (saved_as S (ac_mng ac (p_pinst ?pp)) (p_pentry ?pp) (prepare_entry ?pp ?e))
             (em_last_chosen_entry (ac_mng ac (p_pinst ?pp))) ?pp ?e)"
          by (rule handlePrepareReq_impl [OF assms(1) wf(2) False refl ac_entry_def])
        from that [OF this] prepare_answer_names [OF lab] show ?thesis by (simp only: prepare_reply_names)
      qed
      with run 1 show "m_type rsp = mt kMsgType_PREPARE_RSP" "names ?pp (m_body rsp)"
        by (auto simp: Acceptor_doHandleMsg_def Acceptor_dispatch_def)
    qed
    with 1 promised_id_bound(1) [OF assms(1) wf(1) 1 run] show ?thesis by (simp add: answer_ok_def)
  next
    case 2
    let ?ok = "\<lambda>r. m_errcode r = 0 \<longrightarrow> names ?pp (m_body r) \<and>
      (p_status (m_body r) = st kPaxosState_ACCEPTED \<longrightarrow> p_pid (m_body r) = p_pid ?pp \<and> p_value_id (m_body r) = p_value_id ?pp)"
    have "m_type rsp = mt kMsgType_ACCEPT_RSP" and "?ok rsp"
    proof -
      obtain ac1 r where h: "Acceptor_handleAcceptReq S ?pp ac = Some (ac1, r)" "?ok r"
      proof (cases "ac_lags ac ?pp")
        case True
        from that [OF handleAcceptReq_lags [OF assms(1) True]] show ?thesis by simp
      next
        case False
        obtain m' wp where "Acceptor_handleAcceptReq S ?pp ac = Some (ac_upd (p_pinst ?pp) m' wp ac,
           accept_reply (saved_as S (ac_mng ac (p_pinst ?pp)) (p_pentry ?pp) (as_accepted ?pp ?e))
             (em_last_chosen_entry (ac_mng ac (p_pinst ?pp))) ?pp ?e)"
          by (rule handleAcceptReq_impl [OF assms(1) wf(2) False refl ac_entry_def refl])
        from that [OF this] accept_answer_names [OF lab] show ?thesis
          by (simp add: accept_reply_def) (simp add: accept_ok_def accept_errcode_def accept_answer_def)
      qed
      with run 2 show "m_type rsp = mt kMsgType_ACCEPT_RSP" "?ok rsp"
        by (auto simp: Acceptor_doHandleMsg_def Acceptor_dispatch_def)
    qed
    then show ?thesis using 2 by (simp add: answer_ok_def)
  next
    case 3
    from run obtain ac1 r where "Acceptor_dispatch S msg ac = Some (ac1, Some r)" "m_type rsp = m_type r"
      by (auto simp: Acceptor_doHandleMsg_def split: Option.bind_splits option.splits)
    with other_answer_type [OF this(1) 3] have "m_type rsp \<noteq> mt kMsgType_PREPARE_RSP" "m_type rsp \<noteq> mt kMsgType_ACCEPT_RSP"
      by auto
    then show ?thesis by (simp add: answer_ok_def)
  qed
qed

end
