(* ===== verification/Group_Round.thy ===== *)
theory Group_Round
  imports Group
begin

text \<open>
  One round of a proposer in a group: the counters of promises and votes are backed by answers of that many different
  acceptors to the requests of the round, whatever other messages are under way.
\<close>

section \<open>One round\<close>

text \<open>The requests of a certain kind, by position: the prepare requests of an instance with a term, and the
  accept requests with a value id.\<close>

type_synonym 'conn sends = "('conn \<times> PaxosMsg \<times> RpcKey) list"

definition requests :: "(PaxosMsg \<Rightarrow> bool) \<Rightarrow> 'conn sends \<Rightarrow> nat set" where
  "requests Q snt = {j. j < length snt \<and> Q (fst (snd (snt ! j)))}"

definition prepare_of :: "u64 \<Rightarrow> u64 \<Rightarrow> PaxosMsg \<Rightarrow> bool" where
  "prepare_of i t m \<longleftrightarrow> m_type m = mt kMsgType_PREPARE_REQ \<and> p_pinst (m_body m) = i \<and> p_term (m_body m) = t"

definition accept_of :: "u64 \<Rightarrow> u64 \<Rightarrow> PaxosMsg \<Rightarrow> bool" where
  "accept_of i v m \<longleftrightarrow> m_type m = mt kMsgType_ACCEPT_REQ \<and> p_pinst (m_body m) = i \<and> p_value_id (m_body m) = v"

abbreviation prepares :: "'conn sends \<Rightarrow> u64 \<Rightarrow> u64 \<Rightarrow> nat set" where
  "prepares snt i t \<equiv> requests (prepare_of i t) snt"

abbreviation accepts :: "'conn sends \<Rightarrow> u64 \<Rightarrow> u64 \<Rightarrow> nat set" where
  "accepts snt i v \<equiv> requests (accept_of i v) snt"

definition peer_of :: "('conn \<Rightarrow> nat) \<Rightarrow> 'conn sends \<Rightarrow> nat \<Rightarrow> nat" where
  "peer_of peer snt j = peer (fst (snt ! j))"

text \<open>A count is backed by a set of acceptors if that many of the requests went to acceptors in it.\<close>

definition backed :: "('conn \<Rightarrow> nat) \<Rightarrow> 'conn sends \<Rightarrow> nat set \<Rightarrow> nat \<Rightarrow> nat set \<Rightarrow> bool" where
  "backed peer snt Q x A \<longleftrightarrow> (\<exists>J \<subseteq> Q. x \<le> card J \<and> peer_of peer snt ` J \<subseteq> A)"

lemma finite_requests [simp]: "finite (requests Q snt)"
  by (rule finite_subset [of _ "{..<length snt}"]) (auto simp: requests_def)

lemma requests_Nil [simp]: "requests Q [] = {}"
  by (simp add: requests_def)

lemma requestsD: "j \<in> requests Q snt \<Longrightarrow> j < length snt \<and> Q (fst (snd (snt ! j)))"
  by (simp add: requests_def)

lemma requests_append:
  assumes "\<forall>(c, m, key) \<in> set new. \<not> Q m"
  shows "requests Q (snt @ new) = requests Q snt"
proof -
  have none: "\<not> Q (fst (snd x))" if "x \<in> set new" for x using assms that by (cases x) auto
  have "j \<notin> requests Q (snt @ new)" if "\<not> j < length snt" for j
    using none [of "new ! (j - length snt)"] that by (auto simp: requests_def nth_append)
  then show ?thesis by (auto simp: requests_def nth_append)
qed

lemma requests_batch:
  "requests Q (snt @ map (\<lambda>c. (c, m, key)) cs) =
     requests Q snt \<union> (if Q m then {length snt..<length snt + length cs} else {})"
proof (rule set_eqI)
  fix j
  show "j \<in> requests Q (snt @ map (\<lambda>c. (c, m, key)) cs) \<longleftrightarrow>
     j \<in> requests Q snt \<union> (if Q m then {length snt..<length snt + length cs} else {})"
  proof (cases "j < length snt")
    case True
    then show ?thesis by (simp add: requests_def nth_append)
  next
    case False
    then show ?thesis
      by (cases "j < length snt + length cs") (simp_all add: requests_def nth_append less_diff_conv2)
  qed
qed

lemma inj_batch:
  assumes "distinct (map peer cs)"
  shows "inj_on (peer_of peer (snt @ map (\<lambda>c. (c, m, key)) cs)) {length snt..<length snt + length cs}"
proof (rule inj_onI)
  let ?snt = "snt @ map (\<lambda>c. (c, m, key)) cs"
  fix a b assume ab: "a \<in> {length snt..<length snt + length cs}" "b \<in> {length snt..<length snt + length cs}"
    "peer_of peer ?snt a = peer_of peer ?snt b"
  then have "map peer cs ! (a - length snt) = map peer cs ! (b - length snt)" by (auto simp: peer_of_def nth_append)
  then have "a - length snt = b - length snt" using assms ab(1,2) by (subst (asm) nth_eq_iff_index_eq) auto
  then show "a = b" using ab(1,2) by auto
qed

lemma inj_append: "inj_on (peer_of peer snt) (requests Q snt) \<Longrightarrow> inj_on (peer_of peer (snt @ new)) (requests Q snt)"
  by (rule inj_on_cong [THEN iffD1]) (auto simp: peer_of_def nth_append dest: requestsD)

lemma backed_0 [simp]: "backed peer snt Q 0 A"
  by (auto simp: backed_def)

lemma backed_mono:
  assumes "backed peer snt Q x A" and "Q \<subseteq> Q'" and "A \<subseteq> A'" and "\<forall>j \<in> Q. snt' ! j = snt ! j"
  shows "backed peer snt' Q' x A'"
proof -
  obtain J where J: "J \<subseteq> Q" "x \<le> card J" "peer_of peer snt ` J \<subseteq> A" using assms(1) by (auto simp: backed_def)
  have "peer_of peer snt' ` J = peer_of peer snt ` J"
    by (rule image_cong) (use J(1) assms(4) in \<open>auto simp: peer_of_def\<close>)
  then have "peer_of peer snt' ` J \<subseteq> A'" using J(3) assms(3) by simp
  then show ?thesis unfolding backed_def using J(1,2) assms(2) by blast
qed

lemma backed_insert:
  assumes "backed peer snt (requests Q snt \<inter> used) x A" and "j \<in> requests Q snt" and "j \<notin> used" and "peer_of peer snt j \<in> A"
  shows "backed peer snt (requests Q snt \<inter> insert j used) (Suc x) A"
proof -
  obtain J where J: "J \<subseteq> requests Q snt \<inter> used" "x \<le> card J" "peer_of peer snt ` J \<subseteq> A"
    using assms(1) by (auto simp: backed_def)
  have "finite J" using J(1) finite_subset [of J "requests Q snt"] by auto
  moreover have "j \<notin> J" using J(1) assms(3) by auto
  ultimately show ?thesis using J assms(2,4) unfolding backed_def by (intro exI [of _ "insert j J"]) auto
qed

lemma backed_majority:
  assumes "backed peer snt (requests Q snt \<inter> used) x A" and "inj_on (peer_of peer snt) (requests Q snt)"
    and "\<forall>(c, m, key) \<in> set snt. peer c < N" and "N div 2 + 1 \<le> x"
  shows "majority N A"
proof -
  obtain J where J: "J \<subseteq> requests Q snt \<inter> used" "x \<le> card J" "peer_of peer snt ` J \<subseteq> A"
    using assms(1) by (auto simp: backed_def)
  have "peer_of peer snt j < N" if "j \<in> requests Q snt" for j
    using assms(3) nth_mem [of j snt] requestsD [OF that] by (cases "snt ! j") (auto simp: peer_of_def)
  then have "peer_of peer snt ` J \<subseteq> A \<inter> {..<N}" using J(1,3) by blast
  then have "card (peer_of peer snt ` J) \<le> card (A \<inter> {..<N})" by (intro card_mono) simp_all
  moreover have "card (peer_of peer snt ` J) = card J"
    by (rule card_image, rule inj_on_subset [OF assms(2)]) (use J(1) in blast)
  ultimately show ?thesis using J(2) assms(4) by (simp add: majority_def)
qed

text \<open>
  A term is used for one batch of prepare requests and a value id for one batch of accept requests, one to each peer;
  they carry the id of the request of the round, and every promise or vote counted is the answer of another peer. \<open>L k\<close> are the
  answers about entry \<open>k\<close>, \<open>used\<close> the requests that are answered.
\<close>

definition preparing_inv ::
    "('conn \<Rightarrow> nat) \<Rightarrow> u64 \<Rightarrow> (u64 \<Rightarrow> answer list) \<Rightarrow> nat set \<Rightarrow> 'conn sends \<Rightarrow> InstanceState \<Rightarrow> PaxosMsg \<Rightarrow> bool" where
  "preparing_inv peer i L used snt s req \<longleftrightarrow>
     (\<forall>j \<in> prepares snt i (is_term s - 1). same_request req (fst (snd (snt ! j)))) \<and>
     (notified s \<longrightarrow> (\<exists>l. is_lastv s = Some l \<and> same_request req l)) \<and>
     accepts snt i (p_value_id (m_body req)) = {} \<and>
     backed peer snt (prepares snt i (is_term s - 1) \<inter> used) (unat (is_valid_rsp_count s))
       (promisers (L (p_pentry (m_body req))) (p_pid (m_body req)))"

definition accepting_inv ::
    "('conn \<Rightarrow> nat) \<Rightarrow> u64 \<Rightarrow> (u64 \<Rightarrow> answer list) \<Rightarrow> nat set \<Rightarrow> 'conn sends \<Rightarrow> InstanceState \<Rightarrow> PaxosMsg \<Rightarrow> bool" where
  "accepting_inv peer i L used snt s req \<longleftrightarrow>
     (let A = accepts snt i (p_value_id (m_body req))
      in (\<forall>j \<in> A. same_request req (fst (snd (snt ! j)))) \<and> inj_on (peer_of peer snt) A \<and>
         backed peer snt (A \<inter> used) (unat (is_valid_rsp_count s))
           (voters (L (p_pentry (m_body req))) (p_pid (m_body req)) (p_value_id (m_body req))))"

definition round_inv ::
    "('conn \<Rightarrow> nat) \<Rightarrow> u64 \<Rightarrow> (u64 \<Rightarrow> answer list) \<Rightarrow> nat set \<Rightarrow> 'conn sends \<Rightarrow> InstanceState \<Rightarrow> bool" where
  "round_inv peer i L used snt s \<longleftrightarrow>
     (\<forall>t. prepares snt i t \<noteq> {} \<longrightarrow> t < is_term s) \<and>
     (\<forall>t. inj_on (peer_of peer snt) (prepares snt i t)) \<and>
     (\<forall>req. is_req s = Some req \<longrightarrow> p_pinst (m_body req) = i \<and>
        (phase s = PREPARING \<longrightarrow> preparing_inv peer i L used snt s req) \<and>
        (phase s = ACCEPTING \<longrightarrow> accepting_inv peer i L used snt s req))"

text \<open>The invariant is kept when there are more answers, and when other messages are sent.\<close>

lemma answers_mono: "set log \<subseteq> set log' \<Longrightarrow> promisers log p \<subseteq> promisers log' p \<and> voters log p v \<subseteq> voters log' p v"
  by (auto simp: promisers_def voters_def)

lemma round_inv_more:
  assumes inv: "round_inv peer i L used snt s" and L: "\<And>k. set (L k) \<subseteq> set (L' k)" and sub: "used \<subseteq> used'"
    and new: "\<forall>(c, m, key) \<in> set new. p_pinst (m_body m) = i \<longrightarrow>
      m_type m \<noteq> mt kMsgType_PREPARE_REQ \<and> m_type m \<noteq> mt kMsgType_ACCEPT_REQ"
  shows "round_inv peer i L' used' (snt @ new) s"
proof -
  have same: "prepares (snt @ new) i t = prepares snt i t" "accepts (snt @ new) i v = accepts snt i v" for t v
    by (rule requests_append, use new in \<open>fastforce simp: prepare_of_def accept_of_def\<close>)+
  have eq: "(snt @ new) ! j = snt ! j" if "j \<in> requests Q snt" for j Q
    using requestsD [OF that] by (simp add: nth_append)
  note mono = answers_mono [OF L]
  have count: "backed peer (snt @ new) (requests Q snt \<inter> used') x A'" if "backed peer snt (requests Q snt \<inter> used) x A" "A \<subseteq> A'"
    for Q x A A' by (rule backed_mono [OF that(1) _ that(2)]) (use sub eq in blast)+
  have "preparing_inv peer i L' used' (snt @ new) s req" if "preparing_inv peer i L used snt s req" for req
    using that count mono [THEN conjunct1] eq by (auto simp: preparing_inv_def same)
  moreover have "accepting_inv peer i L' used' (snt @ new) s req" if "accepting_inv peer i L used snt s req" for req
    using that count mono [THEN conjunct2] eq inj_append by (auto simp: accepting_inv_def same Let_def)
  moreover have "inj_on (peer_of peer (snt @ new)) (prepares snt i t)" for t
    by (rule inj_append) (use inv in \<open>simp add: round_inv_def\<close>)
  ultimately show ?thesis using inv by (simp add: round_inv_def same)
qed

lemma round_inv_idle:
  assumes "round_inv peer i L used snt s" and "is_req s' = None" and "is_term s' = is_term s"
  shows "round_inv peer i L used snt s'"
  using assms by (auto simp: round_inv_def)

lemma round_inv_same:
  assumes "round_inv peer i L used snt s" and "same_round s s'"
  shows "round_inv peer i L used snt s'"
proof (cases "is_req s'")
  case None
  then show ?thesis using assms by (simp add: round_inv_def same_round_def)
next
  case (Some req')
  then obtain req where req: "is_req s = Some req" "same_value req req'"
    using assms(2) by (auto simp: same_round_def option_rel_Some2)
  have "preparing_inv peer i L used snt s' req'" if "preparing_inv peer i L used snt s req"
    using that assms(2) Some req(2)
    by (auto simp: preparing_inv_def same_round_def same_value_def same_request_def names_def)
  moreover have "accepting_inv peer i L used snt s' req'" if "accepting_inv peer i L used snt s req"
    using that assms(2) Some req(2)
    by (auto simp: accepting_inv_def same_round_def same_value_def same_request_def names_def Let_def)
  ultimately show ?thesis
    using assms Some req by (auto simp: round_inv_def same_round_def same_value_def same_request_def names_def)
qed

text \<open>A promise or a vote of a peer that has not been counted yet.\<close>

lemma backed_less: "backed peer snt Q x A \<Longrightarrow> y \<le> x \<Longrightarrow> backed peer snt Q y A"
  unfolding backed_def using order_trans by blast

lemma round_inv_counted:
  assumes "round_inv peer i L used snt s" and "is_req s = Some req" and "phase s = PREPARING" and "counted rsp s s'"
    and "same_request req rsp" and "j \<in> prepares snt i (is_term s - 1)" and "j \<notin> used"
    and "peer_of peer snt j \<in> promisers (L (p_pentry (m_body req))) (p_pid (m_body req))"
  shows "round_inv peer i L (insert j used) snt s'"
proof (cases "is_req s'")
  case None
  then show ?thesis using assms(1,4) by (simp add: round_inv_def counted_def)
next
  case (Some req')
  then have s': "is_term s' = is_term s" "phase s' = PREPARING" "vote_of rsp s s'"
    "is_valid_rsp_count s' = is_valid_rsp_count s + 1" "same_value req req'"
    using assms(2,3,4) by (simp_all add: counted_def)
  have p: "preparing_inv peer i L used snt s req" and pi: "p_pinst (m_body req) = i"
    using assms(1-3) by (simp_all add: round_inv_def)
  have req': "p_pid (m_body req') = p_pid (m_body req)" "p_pentry (m_body req') = p_pentry (m_body req)"
    "p_pinst (m_body req') = i" "p_value_id (m_body req') = p_value_id (m_body req)"
    using s'(5) pi by (simp_all add: same_value_def same_request_def names_def)
  have "\<forall>j \<in> prepares snt i (is_term s' - 1). same_request req' (fst (snd (snt ! j)))"
    using p s'(1) req' pi by (auto simp: preparing_inv_def same_request_def names_def)
  moreover have "\<exists>l. is_lastv s' = Some l \<and> same_request req' l" if "notified s'"
  proof -
    from s'(3) that consider "notified s" "is_lastv s' = is_lastv s"
      | l where "is_lastv s' = Some l" "same_request rsp l" by (auto simp: vote_of_def same_request_def)
    then show ?thesis
    proof cases
      case 1
      then show ?thesis using p req' pi by (auto simp: preparing_inv_def same_request_def names_def)
    next
      case 2
      then show ?thesis using assms(5) req' pi by (auto simp: same_request_def names_def)
    qed
  qed
  moreover have "backed peer snt (prepares snt i (is_term s - 1) \<inter> insert j used) (unat (is_valid_rsp_count s'))
       (promisers (L (p_pentry (m_body req))) (p_pid (m_body req)))"
  proof -
    from p have "backed peer snt (prepares snt i (is_term s - 1) \<inter> used) (unat (is_valid_rsp_count s))
       (promisers (L (p_pentry (m_body req))) (p_pid (m_body req)))" by (simp add: preparing_inv_def)
    from backed_less [OF backed_insert [OF this assms(6-8)], of "unat (is_valid_rsp_count s')"] show ?thesis
      using count_up [of "is_valid_rsp_count s"] s'(4) by simp
  qed
  ultimately have "preparing_inv peer i L (insert j used) snt s' req'"
    using p s'(1) req' by (simp add: preparing_inv_def)
  then show ?thesis using assms(1) s'(1,2) Some req' by (simp add: round_inv_def)
qed

lemma round_inv_voted:
  assumes "round_inv peer i L used snt s" and "is_req s = Some req" and "phase s = ACCEPTING" and "is_term s' = is_term s"
    and "\<forall>req'. is_req s' = Some req' \<longrightarrow> same_value req req' \<and> phase s' = phase s \<and>
        is_valid_rsp_count s' = is_valid_rsp_count s + 1"
    and "j \<in> accepts snt i (p_value_id (m_body req))" and "j \<notin> used"
    and "peer_of peer snt j \<in> voters (L (p_pentry (m_body req))) (p_pid (m_body req)) (p_value_id (m_body req))"
  shows "round_inv peer i L (insert j used) snt s'"
proof (cases "is_req s'")
  case None
  then show ?thesis using assms(1,4) by (simp add: round_inv_def)
next
  case (Some req')
  then have s': "phase s' = ACCEPTING" "is_valid_rsp_count s' = is_valid_rsp_count s + 1" "same_value req req'"
    using assms(3,5) by simp_all
  have a: "accepting_inv peer i L used snt s req" and pi: "p_pinst (m_body req) = i"
    using assms(1-3) by (simp_all add: round_inv_def)
  have req': "p_pid (m_body req') = p_pid (m_body req)" "p_pentry (m_body req') = p_pentry (m_body req)"
    "p_pinst (m_body req') = i" "p_value_id (m_body req') = p_value_id (m_body req)"
    using s'(3) pi by (simp_all add: same_value_def same_request_def names_def)
  from a have "backed peer snt (accepts snt i (p_value_id (m_body req)) \<inter> used) (unat (is_valid_rsp_count s))
       (voters (L (p_pentry (m_body req))) (p_pid (m_body req)) (p_value_id (m_body req)))"
    by (simp add: accepting_inv_def Let_def)
  from backed_less [OF backed_insert [OF this assms(6-8)], of "unat (is_valid_rsp_count s')"]
  have "accepting_inv peer i L (insert j used) snt s' req'"
    using a count_up [of "is_valid_rsp_count s"] s'(2) req' pi by (auto simp: accepting_inv_def Let_def same_request_def names_def)
  then show ?thesis using assms(1,4) s'(1) Some req' by (simp add: round_inv_def)
qed

lemma word_less_Suc: "t \<noteq> npos \<Longrightarrow> t < t + 1" for t :: u64
proof -
  assume "t \<noteq> npos"
  then have "1 + t \<noteq> 0" by (metis add.commute eq_neg_iff_add_eq_0)
  from unatSuc [OF this] show "t < t + 1" by (simp add: word_less_nat_alt add.commute)
qed

lemma fresh_accepts: "fresh_value snt i v \<Longrightarrow> accepts snt i v = {}"
proof -
  assume fresh: "fresh_value snt i v"
  have "\<not> accept_of i v (fst (snd (snt ! j)))" if "j < length snt" for j
    using fresh nth_mem [OF that] by (cases "snt ! j") (auto simp: fresh_value_def accept_of_def)
  then show ?thesis by (auto simp: requests_def)
qed

text \<open>A new round: one batch of prepare requests, to distinct peers, with a term and a value id not used before.\<close>

lemma round_inv_start:
  assumes "round_inv peer i L used snt s" and "m_type m = mt kMsgType_PREPARE_REQ" and "p_term (m_body m) = is_term s"
    and "distinct (map peer cs)" and "is_term s \<noteq> npos" and "is_term s' = is_term s + 1"
    and "is_req s' = Some req" and "same_request req m" and "p_pinst (m_body req) = i" and "phase s' = PREPARING"
    and "\<not> notified s'" and "is_valid_rsp_count s' = 0" and "fresh_value snt i (p_value_id (m_body req))"
  shows "round_inv peer i L used (snt @ map (\<lambda>c. (c, m, key)) cs) s'"
proof -
  let ?snt = "snt @ map (\<lambda>c. (c, m, key)) cs"
  let ?new = "{length snt..<length snt + length cs}"
  have less: "is_term s < is_term s + 1" using assms(5) by (rule word_less_Suc)
  have old: "t < is_term s" if "prepares snt i t \<noteq> {}" for t using assms(1) that by (simp add: round_inv_def)
  then have none: "prepares snt i (is_term s) = {}" by blast
  have all: "prepares ?snt i t = (if t = is_term s then ?new else prepares snt i t)" for t
    using assms(2,3,8,9) none by (auto simp: requests_batch prepare_of_def same_request_def names_def)
  have "inj_on (peer_of peer ?snt) (prepares snt i t)" for t
    by (rule inj_append) (use assms(1) in \<open>simp add: round_inv_def\<close>)
  then have "inj_on (peer_of peer ?snt) (prepares ?snt i t)" for t
    using inj_batch [OF assms(4), of snt] by (simp add: all)
  moreover have "t < is_term s'" if "prepares ?snt i t \<noteq> {}" for t
    using that old less assms(6) by (auto simp: all split: if_splits intro: order_less_trans)
  moreover have "preparing_inv peer i L used ?snt s' req"
  proof -
    have "same_request req (fst (snd (?snt ! j)))" if "j \<in> ?new" for j using that assms(8) by (auto simp: nth_append)
    moreover have "accepts ?snt i (p_value_id (m_body req)) = {}"
      using fresh_accepts [OF assms(13)] assms(2) by (simp add: requests_batch accept_of_def)
    ultimately show ?thesis using assms(6,11,12) by (auto simp: preparing_inv_def all)
  qed
  ultimately show ?thesis using assms(7,9,10) by (simp add: round_inv_def)
qed

text \<open>One batch of accept requests, for the request of the round or with another value id.\<close>

lemma round_inv_accepting:
  assumes "round_inv peer i L used snt s" and "m_type m = mt kMsgType_ACCEPT_REQ" and "distinct (map peer cs)"
    and "is_term s \<le> is_term s'"
    and "\<forall>req. is_req s' = Some req \<longrightarrow> p_pinst (m_body req) = i \<and> phase s' = ACCEPTING \<and> is_valid_rsp_count s' = 0 \<and>
      same_request req m \<and> accepts snt i (p_value_id (m_body req)) = {}"
  shows "round_inv peer i L used (snt @ map (\<lambda>c. (c, m, key)) cs) s'"
proof -
  let ?snt = "snt @ map (\<lambda>c. (c, m, key)) cs"
  let ?new = "{length snt..<length snt + length cs}"
  have same: "prepares ?snt i t = prepares snt i t" for t using assms(2) by (simp add: requests_batch prepare_of_def)
  have "accepting_inv peer i L used ?snt s' req" if r: "is_req s' = Some req" for req
  proof -
    have h: "is_valid_rsp_count s' = 0" "same_request req m" "accepts snt i (p_value_id (m_body req)) = {}"
      using r assms(5) by simp_all
    have "same_request req (fst (snd (?snt ! j)))" if "j \<in> ?new" for j using that h(2) by (auto simp: nth_append)
    then show ?thesis using h inj_batch [OF assms(3)] by (auto simp: accepting_inv_def Let_def requests_batch)
  qed
  moreover have "inj_on (peer_of peer ?snt) (prepares snt i t)" for t
    by (rule inj_append) (use assms(1) in \<open>simp add: round_inv_def\<close>)
  moreover have "t < is_term s'" if "prepares snt i t \<noteq> {}" for t
    using that assms(1,4) order_less_le_trans by (auto simp: round_inv_def)
  ultimately show ?thesis using assms(5) by (simp add: round_inv_def same)
qed

end
