(* ===== verification/Group_Inv.thy ===== *)
theory Group_Inv
  imports Group_Round
begin

text \<open>
  The invariant of a group: that every proposer keeps the rule under which the acceptors agree (\<open>may_accept\<close> of \<open>Synod\<close>) and
  announces only what a majority has voted for, also when the rounds of several proposers, late answers and timeouts mix.
\<close>

section \<open>One server\<close>

text \<open>
  Of a message that was sent: its key is its header, an accept request may be sent under the rule, and a chosen request
  names a value that a majority has voted for. \<open>LL i k\<close> are the answers about entry \<open>k\<close> of instance \<open>i\<close>.
\<close>

definition sent_ok :: "nat \<Rightarrow> nat \<Rightarrow> (u64 \<Rightarrow> u64 \<Rightarrow> answer list) \<Rightarrow> PaxosMsg \<Rightarrow> bool" where
  "sent_ok N n LL m \<longleftrightarrow> unat (p_pinst (m_body m)) < n \<and>
     (m_type m = mt kMsgType_ACCEPT_REQ \<longrightarrow> may_accept N (LL (p_pinst (m_body m)) (p_pentry (m_body m))) (m_body m)) \<and>
     (m_type m = mt kMsgType_CHOSEN_REQ \<longrightarrow>
        majority N (voters (LL (p_pinst (m_body m)) (p_pentry (m_body m))) (p_pid (m_body m)) (p_value_id (m_body m))))"

definition key_of :: "PaxosMsg \<Rightarrow> RpcKey" where
  "key_of m = \<lparr>rk_pinst = p_pinst (m_body m), rk_entry = p_pentry (m_body m), rk_term = p_term (m_body m)\<rparr>"

definition wheel_ok :: "'conn Proposer \<Rightarrow> bool" where
  "wheel_ok P \<longleftrightarrow> tw_inv (ps_timeout P) \<and>
     tw_rounded (cf_timeout (ps_config P) * 2) (tw_granularity_ms (ps_timeout P)) + length (tw_wheel (ps_timeout P)) < 2 ^ 32"

definition server_ok :: "nat \<Rightarrow> nat \<Rightarrow> ('conn \<Rightarrow> nat) \<Rightarrow> 'conn Proposer \<Rightarrow> bool" where
  "server_ok N n peer P \<longleftrightarrow>
     (\<exists>mng. ps_conn P = Some mng \<and> distinct (map peer (cm_conn mng)) \<and> (\<forall>c \<in> set (cm_conn mng). peer c < N)) \<and>
     unat (cf_total_acceptor (ps_config P)) = N \<and> N < 2 ^ 31 \<and> length (ps_states P) = n \<and> 0 < n \<and> n < 2 ^ 32 \<and> wheel_ok P"

definition server_inv :: "nat \<Rightarrow> nat \<Rightarrow> ('conn \<Rightarrow> nat) \<Rightarrow> (u64 \<Rightarrow> u64 \<Rightarrow> answer list) \<Rightarrow> nat set \<Rightarrow> 'conn Proposer \<Rightarrow> bool" where
  "server_inv N n peer LL used P \<longleftrightarrow> server_ok N n peer P \<and>
     (\<forall>(c, m, key) \<in> set (ps_sent P). peer c < N \<and> key = key_of m \<and> sent_ok N n LL m) \<and>
     (\<forall>i s. ps_at P i = Some s \<longrightarrow> round_inv peer i (LL i) used (ps_sent P) s)"

lemma sent_ok_more:
  assumes "sent_ok N n LL m" and "\<And>i k. set (LL i k) \<subseteq> set (LL' i k)"
  shows "sent_ok N n LL' m"
proof -
  have "promisers (LL i k) p \<subseteq> promisers (LL' i k) p" "voters (LL i k) p v \<subseteq> voters (LL' i k) p v" for i k p v
    using answers_mono [OF assms(2)] by simp_all
  note mono = majority_mono [OF _ this(1)] majority_mono [OF _ this(2)]
  show ?thesis using assms(1) by (auto simp: sent_ok_def may_accept_def intro: mono)
qed

lemma server_inv_more:
  assumes "server_inv N n peer LL used P" and "\<And>i k. set (LL i k) \<subseteq> set (LL' i k)" and "used \<subseteq> used'"
  shows "server_inv N n peer LL' used' P"
proof -
  have "round_inv peer i (LL' i) used' (ps_sent P) s" if "round_inv peer i (LL i) used (ps_sent P) s" for i s
    using round_inv_more [OF that, of "LL' i" used' "[]"] assms(2,3) by simp
  moreover have "sent_ok N n LL' m" if "sent_ok N n LL m" for m using that assms(2) by (rule sent_ok_more)
  ultimately show ?thesis using assms(1) by (auto simp: server_inv_def)
qed

lemma bcasts_mem:
  assumes "ps_conn P = Some mng" and "(c, m, key) \<in> set (bcasts P ms)"
  shows "c \<in> set (cm_conn mng)" "m \<in> set ms" "key = key_of m"
  using assms by (auto simp: bcasts_def bcast_def key_of_def)

text \<open>One instance changes and messages for it are sent.\<close>

lemma server_inv_upd:
  assumes inv: "server_inv N n peer LL used P" and at: "ps_at P j = Some s" and sub: "used \<subseteq> used'"
    and ms: "\<forall>m \<in> set ms. p_pinst (m_body m) = j \<and> sent_ok N n LL m"
    and round: "round_inv peer j (LL j) used' (ps_sent P @ bcasts P ms) s'"
  shows "server_inv N n peer LL used' (ps_upd j s' (bcasts P ms) res P)"
proof -
  have len: "unat j < length (ps_states P)" using at by (rule ps_at_range)
  have ok: "server_ok N n peer P" using inv by (simp add: server_inv_def)
  then obtain mng where mng: "ps_conn P = Some mng" "\<forall>c \<in> set (cm_conn mng). peer c < N" by (auto simp: server_ok_def)
  note mem = bcasts_mem [OF mng(1), where ms = ms]
  have "round_inv peer i (LL i) used' (ps_sent P @ bcasts P ms) t"
    if "ps_at (ps_upd j s' (bcasts P ms) res P) i = Some t" for i t
  proof (cases "i = j")
    case True
    then show ?thesis using that len round by (simp add: ps_at_upd)
  next
    case False
    then have "ps_at P i = Some t" using that len by (simp add: ps_at_upd)
    then have "round_inv peer i (LL i) used (ps_sent P) t" using inv by (simp add: server_inv_def)
    then show ?thesis
    proof (rule round_inv_more)
      show "\<forall>(c, m, key) \<in> set (bcasts P ms). p_pinst (m_body m) = i \<longrightarrow>
          m_type m \<noteq> mt kMsgType_PREPARE_REQ \<and> m_type m \<noteq> mt kMsgType_ACCEPT_REQ"
        using mem(2) ms False by fastforce
    qed (use sub in simp_all)
  qed
  moreover have "server_ok N n peer (ps_upd j s' (bcasts P ms) res P)"
    using ok by (simp add: server_ok_def wheel_ok_def ps_upd_def)
  moreover have "peer c < N \<and> key = key_of m \<and> sent_ok N n LL m" if "(c, m, key) \<in> set (bcasts P ms)" for c m key
    using mem [OF that] mng(2) ms by auto
  ultimately show ?thesis using inv by (auto simp: server_inv_def)
qed

lemma server_inv_quiet:
  assumes "server_inv N n peer LL used P" and "ps_at P j = Some s" and "used \<subseteq> used'"
    and "round_inv peer j (LL j) used' (ps_sent P) s'"
    and "\<forall>m \<in> set ms. p_pinst (m_body m) = j \<and> sent_ok N n LL m \<and> m_type m = mt kMsgType_CHOSEN_REQ"
  shows "server_inv N n peer LL used' (ps_upd j s' (bcasts P ms) res P)"
proof (rule server_inv_upd [OF assms(1-3)])
  obtain mng where mng: "ps_conn P = Some mng" using assms(1) by (auto simp: server_inv_def server_ok_def)
  have "\<forall>(c, m, key) \<in> set (bcasts P ms). p_pinst (m_body m) = j \<longrightarrow>
      m_type m \<noteq> mt kMsgType_PREPARE_REQ \<and> m_type m \<noteq> mt kMsgType_ACCEPT_REQ"
  proof clarify
    fix c m key
    assume "(c, m, key) \<in> set (bcasts P ms)"
    with bcasts_mem(2) [OF mng] assms(5) have "m_type m = mt kMsgType_CHOSEN_REQ" by blast
    then show "m_type m \<noteq> mt kMsgType_PREPARE_REQ \<and> m_type m \<noteq> mt kMsgType_ACCEPT_REQ" by simp
  qed
  from round_inv_more [OF assms(4) _ _ this] show "round_inv peer j (LL j) used' (ps_sent P @ bcasts P ms) s'" by simp
qed (use assms(5) in blast)

text \<open>A batch of accept requests.\<close>

lemma server_inv_accepting:
  assumes inv: "server_inv N n peer LL used P" and at: "ps_at P j = Some s" and sub: "used \<subseteq> used'"
    and m: "m_type m = mt kMsgType_ACCEPT_REQ" "p_pinst (m_body m) = j" "sent_ok N n LL m"
    and s': "is_term s \<le> is_term s'" "\<forall>req. is_req s' = Some req \<longrightarrow> phase s' = ACCEPTING \<and> is_valid_rsp_count s' = 0 \<and>
      same_request req m \<and> accepts (ps_sent P) j (p_value_id (m_body req)) = {}"
  shows "server_inv N n peer LL used' (ps_upd j s' (bcasts P [m]) res P)"
proof (rule server_inv_upd [OF inv at sub])
  obtain mng where mng: "ps_conn P = Some mng" "distinct (map peer (cm_conn mng))"
    using inv by (auto simp: server_inv_def server_ok_def)
  have "round_inv peer j (LL j) used (ps_sent P) s" using inv at by (simp add: server_inv_def)
  from round_inv_more [OF this, of "LL j" used' "[]"] sub have "round_inv peer j (LL j) used' (ps_sent P) s" by simp
  then have "round_inv peer j (LL j) used' (ps_sent P @ map (\<lambda>c. (c, m, key_of m)) (cm_conn mng)) s'"
  proof (rule round_inv_accepting [OF _ m(1) mng(2) s'(1)])
    have "p_pinst (m_body req) = j" if "same_request req m" for req
      using that m(2) by (simp add: same_request_def names_def)
    with s'(2) show "\<forall>req. is_req s' = Some req \<longrightarrow> p_pinst (m_body req) = j \<and> phase s' = ACCEPTING \<and> is_valid_rsp_count s' = 0 \<and>
      same_request req m \<and> accepts (ps_sent P) j (p_value_id (m_body req)) = {}" by blast
  qed
  moreover have "bcasts P [m] = map (\<lambda>c. (c, m, key_of m)) (cm_conn mng)"
    using mng(1) by (simp add: bcast_def key_of_def)
  ultimately show "round_inv peer j (LL j) used' (ps_sent P @ bcasts P [m]) s'" by simp
qed (use m in simp)

section \<open>What the proposer does\<close>

lemma server_at:
  assumes "server_inv N n peer LL used P" and "unat i < n"
  obtains s where "ps_at P i = Some s" "ps_slot P i = Some i"
proof -
  have "length (ps_states P) = n" "n < 2 ^ 32" using assms(1) by (simp_all add: server_inv_def server_ok_def)
  with assms(2) ps_slot_range [of i P] show thesis by (intro that) (auto simp: ps_at_def)
qed

lemma server_slot:
  assumes "server_inv N n peer LL used P" and "ps_slot P p = Some i"
  shows "unat i < n"
proof -
  have n: "length (ps_states P) = n" "0 < n" "n < 2 ^ 32" using assms(1) by (simp_all add: server_inv_def server_ok_def)
  then have "unat (of_nat n :: u64) = n" by (simp add: unat_of_nat)
  with assms(2) n show ?thesis by (auto simp: ps_slot_def unat_mod split: if_splits)
qed

text \<open>A response of a worker, whatever instance it names.\<close>

lemma handleRpcResponse_cases:
  assumes "ps_slot P (rm_pinst m) = Some i" and "ps_at P i = Some s" and "rm_msg m = Some rsp"
    and "Proposer_handleRpcResponse m P = Some (P', r)"
  shows "P' = P \<or> rm_term m = is_term s - 1 \<and> is_req s \<noteq> None \<and>
    (phase s = PREPARING \<and> Proposer_handlePrepareRsp rsp P = Some (P', r) \<or>
     phase s = ACCEPTING \<and> Proposer_handleAcceptRsp rsp P = Some (P', r))"
  using assms
  by (auto simp: Proposer_handleRpcResponse_def phase_def split: if_splits)

lemma lift_stepD:
  "lift_step i P r = Some (P', x) \<Longrightarrow> \<exists>s ms res. r = Some (s, ms, res, x) \<and> P' = ps_upd i s (bcasts P ms) res P"
  by (cases r) auto

lemma handle_step_cases:
  assumes "server_inv N n peer LL used P"
  shows "Proposer_handlePrepareRsp rsp P = Some (P', r) \<Longrightarrow> P' = P \<or>
      (\<exists>s req s' ms res. ps_at P (p_pinst (m_body rsp)) = Some s \<and> is_req s = Some req \<and>
         prepare_step (ps_config P) rsp req s = Some (s', ms, res, r) \<and>
         P' = ps_upd (p_pinst (m_body rsp)) s' (bcasts P ms) res P)"
    and "Proposer_handleAcceptRsp rsp P = Some (P', r) \<Longrightarrow> P' = P \<or>
      (\<exists>s req s' ms res. ps_at P (p_pinst (m_body rsp)) = Some s \<and> is_req s = Some req \<and>
         accept_step (ps_config P) rsp req s = Some (s', ms, res, r) \<and>
         P' = ps_upd (p_pinst (m_body rsp)) s' (bcasts P ms) res P)"
proof -
  let ?j = "p_pinst (m_body rsp)"
  have conn: "ps_conn P \<noteq> None" using assms by (auto simp: server_inv_def server_ok_def)
  have pi: "p_pinst (m_body req) = ?j" if "ps_at P ?j = Some s" "is_req s = Some req" for s req
    using assms that by (simp add: server_inv_def round_inv_def)
  show "P' = P \<or> (\<exists>s req s' ms res. ps_at P ?j = Some s \<and> is_req s = Some req \<and>
         prepare_step (ps_config P) rsp req s = Some (s', ms, res, r) \<and> P' = ps_upd ?j s' (bcasts P ms) res P)"
    if h: "Proposer_handlePrepareRsp rsp P = Some (P', r)"
  proof (cases "ps_at P ?j")
    case None
    then show ?thesis using h by (simp add: Proposer_handlePrepareRsp_def Let_def)
  next
    case (Some s)
    show ?thesis
    proof (cases "is_req s")
      case None
      then show ?thesis using h Some by (simp add: Proposer_handlePrepareRsp_def Let_def)
    next
      case req: (Some req)
      from lift_stepD [OF trans [OF handlePrepareRsp_step [OF Some req refl pi [OF Some req] conn, symmetric] h]] Some req
      show ?thesis by blast
    qed
  qed
  show "P' = P \<or> (\<exists>s req s' ms res. ps_at P ?j = Some s \<and> is_req s = Some req \<and>
         accept_step (ps_config P) rsp req s = Some (s', ms, res, r) \<and> P' = ps_upd ?j s' (bcasts P ms) res P)"
    if h: "Proposer_handleAcceptRsp rsp P = Some (P', r)"
  proof (cases "ps_at P ?j")
    case None
    then show ?thesis using h by (simp add: Proposer_handleAcceptRsp_def Let_def)
  next
    case (Some s)
    show ?thesis
    proof (cases "is_req s")
      case None
      then show ?thesis using h Some by (simp add: Proposer_handleAcceptRsp_def Let_def)
    next
      case req: (Some req)
      from lift_stepD [OF trans [OF handleAcceptRsp_step [OF Some req refl pi [OF Some req] conn, symmetric] h]] Some req
      show ?thesis by blast
    qed
  qed
qed

text \<open>The answer \<open>rsp\<close> to the \<open>j\<close>-th message of a server, which has not been answered yet.\<close>

definition fresh_answer ::
    "('conn \<Rightarrow> nat) \<Rightarrow> (u64 \<Rightarrow> u64 \<Rightarrow> answer list) \<Rightarrow> nat set \<Rightarrow> 'conn sends \<Rightarrow> nat \<Rightarrow> PaxosMsg \<Rightarrow> PaxosMsg \<Rightarrow> bool" where
  "fresh_answer peer LL used snt j m rsp \<longleftrightarrow> j < length snt \<and> j \<notin> used \<and> fst (snd (snt ! j)) = m \<and> answer_ok m rsp \<and>
     (m_type m = mt kMsgType_PREPARE_REQ \<and> p_status (m_body rsp) = st kPaxosState_PROMISED \<longrightarrow>
        peer_of peer snt j \<in> promisers (LL (p_pinst (m_body m)) (p_pentry (m_body m))) (p_pid (m_body rsp))) \<and>
     (m_type m = mt kMsgType_ACCEPT_REQ \<and> p_status (m_body rsp) = st kPaxosState_ACCEPTED \<longrightarrow>
        peer_of peer snt j \<in> voters (LL (p_pinst (m_body m)) (p_pentry (m_body m))) (p_pid (m_body m)) (p_value_id (m_body m)))"

lemma round_inv_used: "round_inv peer i L used snt s \<Longrightarrow> round_inv peer i L (insert j used) snt s"
  using round_inv_more [of peer i L used snt s L "insert j used" "[]"] by auto

text \<open>A promise to the current round names its request, and its peer has promised the id of the round.\<close>

lemma grant_current:
  assumes "fresh_answer peer LL used snt j m rsp" and "round_inv peer i (LL i) used snt s" and "p_pinst (m_body m) = i"
    and "p_term (m_body m) = is_term s - 1" and "is_req s = Some req" and "phase s = PREPARING" and "grants (p_pid (m_body req)) rsp"
  shows "p_pinst (m_body rsp) = i" and "j \<in> prepares snt i (is_term s - 1)" and "same_request req rsp"
    and "peer_of peer snt j \<in> promisers (LL i (p_pentry (m_body req))) (p_pid (m_body req))"
proof -
  have g: "m_type rsp = mt kMsgType_PREPARE_RSP" "p_status (m_body rsp) = st kPaxosState_PROMISED"
    "p_pid (m_body rsp) \<le> p_pid (m_body req)" using assms(7) by (simp_all add: grants_def)
  then have m: "m_type m = mt kMsgType_PREPARE_REQ" "names (m_body m) (m_body rsp)" "p_pid (m_body m) \<le> p_pid (m_body rsp)"
    using assms(1) by (simp_all add: fresh_answer_def answer_ok_def)
  show j: "j \<in> prepares snt i (is_term s - 1)"
    using assms(1,3,4) m(1) by (auto simp: fresh_answer_def requests_def prepare_of_def)
  have "preparing_inv peer i (LL i) used snt s req" and pi: "p_pinst (m_body req) = i"
    using assms(2,5,6) by (simp_all add: round_inv_def)
  then have rm: "same_request req m" using j assms(1) by (auto simp: preparing_inv_def fresh_answer_def)
  then have pid: "p_pid (m_body rsp) = p_pid (m_body req)" using g(3) m(3) by (simp add: same_request_def)
  show "p_pinst (m_body rsp) = i" using m(2) assms(3) by (simp add: names_def)
  show "same_request req rsp" using rm m(2) pid by (simp add: same_request_def names_def)
  show "peer_of peer snt j \<in> promisers (LL i (p_pentry (m_body req))) (p_pid (m_body req))"
    using assms(1,3) m(1) g(2) pid rm pi by (auto simp: fresh_answer_def same_request_def names_def)
qed

text \<open>A vote for the request of the current round is an answer to its accept request, and its peer has voted.\<close>

lemma vote_current:
  assumes "fresh_answer peer LL used snt j m rsp" and "round_inv peer i (LL i) used snt s" and "p_pinst (m_body m) = i"
    and "is_req s = Some req" and "phase s = ACCEPTING" and "accept_verdict req rsp = Voted"
  shows "j \<in> accepts snt i (p_value_id (m_body req))" and "same_request req rsp"
    and "peer_of peer snt j \<in> voters (LL i (p_pentry (m_body req))) (p_pid (m_body req)) (p_value_id (m_body req))"
proof -
  have v: "m_type rsp = mt kMsgType_ACCEPT_RSP" "m_errcode rsp = err kErrCode_OK" "p_status (m_body rsp) = st kPaxosState_ACCEPTED"
    "p_pid (m_body rsp) = p_pid (m_body req)" "p_value_id (m_body rsp) = p_value_id (m_body req)"
    using assms(6) by (simp_all add: accept_verdict_Voted)
  then have m: "m_type m = mt kMsgType_ACCEPT_REQ" "names (m_body m) (m_body rsp)" "p_pid (m_body m) = p_pid (m_body req)"
    "p_value_id (m_body m) = p_value_id (m_body req)"
    using assms(1) by (simp_all add: fresh_answer_def answer_ok_def)
  show j: "j \<in> accepts snt i (p_value_id (m_body req))"
    using assms(1,3) m(1,4) by (auto simp: fresh_answer_def requests_def accept_of_def)
  have "accepting_inv peer i (LL i) used snt s req" using assms(2,4,5) by (simp add: round_inv_def)
  then have rm: "same_request req m" using j assms(1) by (auto simp: accepting_inv_def Let_def fresh_answer_def)
  show "same_request req rsp" using rm m(2) v(4) by (simp add: same_request_def names_def)
  show "peer_of peer snt j \<in> voters (LL i (p_pentry (m_body req))) (p_pid (m_body req)) (p_value_id (m_body req))"
    using assms(1,3) m v(3) rm by (auto simp: fresh_answer_def same_request_def names_def)
qed

lemma half_acceptors:
  assumes "server_inv N n peer LL used P"
  shows "unat (cf_total_acceptor (ps_config P) div 2 + 1) = N div 2 + 1"
proof -
  have "unat (cf_total_acceptor (ps_config P)) = N" "N < 2 ^ 31" using assms by (simp_all add: server_inv_def server_ok_def)
  then show ?thesis by (subst unat_add_noover) (simp_all add: unat_div)
qed

lemma server_promise:
  assumes inv: "server_inv N n peer LL used P" and fresh: "fresh_answer peer LL used (ps_sent P) j m rsp"
    and i: "p_pinst (m_body m) = i" and s: "ps_at P i = Some s" "phase s = PREPARING" "p_term (m_body m) = is_term s - 1"
    and t: "ps_at P (p_pinst (m_body rsp)) = Some t" "is_req t = Some req"
      "prepare_step (ps_config P) rsp req t = Some (t', ms, res, r)"
  shows "server_inv N n peer LL (insert j used) (ps_upd (p_pinst (m_body rsp)) t' (bcasts P ms) res P)"
proof -
  let ?j = "p_pinst (m_body rsp)" and ?snt = "ps_sent P"
  have round: "round_inv peer k (LL k) used ?snt u" if "ps_at P k = Some u" for k u
    using inv that by (simp add: server_inv_def)
  show ?thesis
  proof (cases "grants (p_pid (m_body req)) rsp")
    case False
    from prepare_step_other [OF t(2) False t(3)] have "ms = []" "same_round t t'" by simp_all
    with server_inv_quiet [OF inv t(1) _ round_inv_same [OF round_inv_used [OF round [OF t(1)]]], of j t' "[]"]
    show ?thesis by auto
  next
    case True
    have "m_type m = mt kMsgType_PREPARE_REQ" "names (m_body m) (m_body rsp)"
      using True fresh by (simp_all add: grants_def fresh_answer_def answer_ok_def)
    then have ji: "?j = i" using i by (simp add: names_def)
    then have ts: "t = s" using s(1) t(1) by simp
    note cur = grant_current [OF fresh round [OF s(1)] i s(3) t(2) [unfolded ts] s(2) True]
    have nused: "j \<notin> used" using fresh by (simp add: fresh_answer_def)
    from prepare_step_grant [OF t(2) True t(3)] show ?thesis
    proof
      assume "ms = [] \<and> counted rsp t t'"
      then have "ms = []" "counted rsp t t'" by simp_all
      with round_inv_counted [OF round [OF s(1)] t(2) [unfolded ts] s(2) _ cur(3,2) nused cur(4), of t'] ts ji
      have "round_inv peer ?j (LL ?j) (insert j used) ?snt t'" by simp
      from server_inv_quiet [OF inv t(1) _ this, of "[]"] \<open>ms = []\<close> show ?thesis by auto
    next
      assume "\<exists>x. ms = [x] \<and> m_type x = mt kMsgType_ACCEPT_REQ \<and> is_term t' = is_term t \<and> p_pid (m_body rsp) \<noteq> 0 \<and>
        (\<forall>req'. is_req t' = Some req' \<longrightarrow> same_value req req' \<and> phase t' = ACCEPTING \<and> is_valid_rsp_count t' = 0) \<and>
        unat (cf_total_acceptor (ps_config P) div 2 + 1) \<le> unat (is_valid_rsp_count t) + 1 \<and>
        (same_request req x \<or> notified t \<and> (\<exists>l. is_lastv t = Some l \<and> same_request l x) \<or> same_request rsp x)"
      then obtain x where x: "ms = [x]" "m_type x = mt kMsgType_ACCEPT_REQ" "is_term t' = is_term t" "p_pid (m_body rsp) \<noteq> 0"
        "unat (cf_total_acceptor (ps_config P) div 2 + 1) \<le> unat (is_valid_rsp_count t) + 1"
        and req': "\<forall>req'. is_req t' = Some req' \<longrightarrow> same_value req req' \<and> phase t' = ACCEPTING \<and> is_valid_rsp_count t' = 0"
        and same: "same_request req x \<or> notified t \<and> (\<exists>l. is_lastv t = Some l \<and> same_request l x) \<or> same_request rsp x" by blast
      have prep: "preparing_inv peer i (LL i) used ?snt s req" and pi: "p_pinst (m_body req) = i"
        using round [OF s(1)] t(2) ts s(2) by (simp_all add: round_inv_def)
      have sx: "same_request req x"
        using same prep cur(3) same_request_trans ts by (auto simp: preparing_inv_def)
      have "majority N (promisers (LL i (p_pentry (m_body req))) (p_pid (m_body req)))"
      proof (rule backed_majority)
        from prep have "backed peer ?snt (prepares ?snt i (is_term s - 1) \<inter> used) (unat (is_valid_rsp_count s))
          (promisers (LL i (p_pentry (m_body req))) (p_pid (m_body req)))" by (simp add: preparing_inv_def)
        from backed_insert [OF this cur(2) nused cur(4)]
        show "backed peer ?snt (prepares ?snt i (is_term s - 1) \<inter> insert j used) (Suc (unat (is_valid_rsp_count s)))
          (promisers (LL i (p_pentry (m_body req))) (p_pid (m_body req)))" .
        show "inj_on (peer_of peer ?snt) (prepares ?snt i (is_term s - 1))" using round [OF s(1)] by (simp add: round_inv_def)
        show "\<forall>(c, m, key) \<in> set ?snt. peer c < N" using inv by (auto simp: server_inv_def)
        show "N div 2 + 1 \<le> Suc (unat (is_valid_rsp_count s))" using x(5) half_acceptors [OF inv] ts by simp
      qed
      moreover have "p_pid (m_body req) \<noteq> 0" using x(4) cur(3) by (simp add: same_request_def)
      ultimately have "sent_ok N n LL x"
        using sx pi x(2) ps_at_range [OF s(1)] inv
        by (auto simp: sent_ok_def may_accept_def same_request_def names_def server_inv_def server_ok_def)
      moreover have "p_pinst (m_body x) = ?j" using sx pi ji by (simp add: same_request_def names_def)
      moreover have "same_request r x \<and> accepts ?snt ?j (p_value_id (m_body r)) = {}" if "same_value req r" for r
        using that sx prep ji by (auto simp: same_value_def same_request_def names_def preparing_inv_def)
      ultimately show ?thesis
        unfolding x(1) using server_inv_accepting [OF inv t(1), of "insert j used" x t'] x(2,3) req' by (auto simp: x(1))
    qed
  qed
qed

lemma server_vote:
  assumes inv: "server_inv N n peer LL used P" and fresh: "fresh_answer peer LL used (ps_sent P) j m rsp"
    and i: "p_pinst (m_body m) = i" and s: "ps_at P i = Some s" "phase s = ACCEPTING"
    and t: "ps_at P (p_pinst (m_body rsp)) = Some t" "is_req t = Some req"
      "accept_step (ps_config P) rsp req t = Some (t', ms, res, r)"
  shows "server_inv N n peer LL (insert j used) (ps_upd (p_pinst (m_body rsp)) t' (bcasts P ms) res P)"
proof (cases "accept_verdict req rsp = Voted")
  case False
  have "round_inv peer (p_pinst (m_body rsp)) (LL (p_pinst (m_body rsp))) (insert j used) (ps_sent P) t"
    using inv t(1) by (simp add: server_inv_def round_inv_used)
  with server_inv_quiet [OF inv t(1) _ round_inv_same, of "insert j used" t t' "[]"] accept_step_other [OF t(2) False t(3)]
  show ?thesis by auto
next
  case True
  let ?j = "p_pinst (m_body rsp)" and ?snt = "ps_sent P"
  have "names (m_body m) (m_body rsp)"
    using True fresh by (simp add: accept_verdict_Voted fresh_answer_def answer_ok_def)
  then have ji: "?j = i" using i by (simp add: names_def)
  then have ts: "t = s" using s(1) t(1) by simp
  have round: "round_inv peer i (LL i) used ?snt s" using inv s(1) by (simp add: server_inv_def)
  note cur = vote_current [OF fresh round i t(2) [unfolded ts] s(2) True]
  have nused: "j \<notin> used" using fresh by (simp add: fresh_answer_def)
  from accept_step_vote [OF t(2) True t(3)] consider
      (more) "ms = []" "is_term t' = is_term t" "\<forall>req'. is_req t' = Some req' \<longrightarrow> same_value req req' \<and> phase t' = phase t \<and>
        is_valid_rsp_count t' = is_valid_rsp_count t + 1"
    | (chosen) "ms = [Proposer_chosen_msg (ps_config P) rsp]" "is_req t' = None" "is_term t' = is_term t"
        "unat (cf_total_acceptor (ps_config P) div 2 + 1) \<le> unat (is_valid_rsp_count t) + 1"
    by (elim conjE disjE) simp_all
  then show ?thesis
  proof cases
    case more
    have "round_inv peer i (LL i) (insert j used) ?snt t'"
      by (rule round_inv_voted [OF round t(2) [unfolded ts] s(2) _ _ cur(1) nused cur(3)]) (use more(2,3) ts in simp_all)
    then show ?thesis using server_inv_quiet [OF inv t(1), of "insert j used" t' "[]"] more(1) ji by auto
  next
    case chosen
    let ?x = "Proposer_chosen_msg (ps_config P) rsp"
    have "accepting_inv peer i (LL i) used ?snt s req" using round t(2) ts s(2) by (simp add: round_inv_def)
    then have acc: "backed peer ?snt (accepts ?snt i (p_value_id (m_body req)) \<inter> used) (unat (is_valid_rsp_count s))
        (voters (LL i (p_pentry (m_body req))) (p_pid (m_body req)) (p_value_id (m_body req)))"
      "inj_on (peer_of peer ?snt) (accepts ?snt i (p_value_id (m_body req)))"
      by (simp_all add: accepting_inv_def Let_def)
    have "majority N (voters (LL i (p_pentry (m_body req))) (p_pid (m_body req)) (p_value_id (m_body req)))"
      by (rule backed_majority [OF backed_insert [OF acc(1) cur(1) nused cur(3)] acc(2)])
        (use chosen(4) half_acceptors [OF inv] ts inv in \<open>auto simp: server_inv_def\<close>)
    moreover have "m_type ?x = mt kMsgType_CHOSEN_REQ" "p_pinst (m_body ?x) = i" "p_pentry (m_body ?x) = p_pentry (m_body req)"
      "p_pid (m_body ?x) = p_pid (m_body req)" "p_value_id (m_body ?x) = p_value_id (m_body req)"
      using cur(2) True ji by (simp_all add: Proposer_chosen_msg_def accept_verdict_Voted same_request_def names_def)
    ultimately have "p_pinst (m_body ?x) = ?j \<and> sent_ok N n LL ?x \<and> m_type ?x = mt kMsgType_CHOSEN_REQ"
      using ps_at_range [OF s(1)] inv ji by (simp add: sent_ok_def server_inv_def server_ok_def)
    moreover have "round_inv peer ?j (LL ?j) (insert j used) ?snt t'"
      using round_inv_idle [OF round_inv_used [OF round] chosen(2)] chosen(3) ts ji by simp
    ultimately show ?thesis using server_inv_quiet [OF inv t(1), of "insert j used" t' ms] chosen(1) by auto
  qed
qed

lemma server_respond:
  assumes inv: "server_inv N n peer LL used P" and fresh: "fresh_answer peer LL used (ps_sent P) j m rsp"
    and run: "Proposer_handleRpcResponse (answer_to (key_of m) rsp) P = Some (P', r)"
  shows "server_inv N n peer LL (insert j used) P'"
proof -
  let ?i = "p_pinst (m_body m)"
  have mem: "ps_sent P ! j \<in> set (ps_sent P)" "fst (snd (ps_sent P ! j)) = m"
    using fresh by (simp_all add: fresh_answer_def)
  moreover obtain c key where "ps_sent P ! j = (c, m, key)" using mem(2) by (cases "ps_sent P ! j") auto
  ultimately have "sent_ok N n LL m" using inv by (auto simp: server_inv_def)
  then have "unat ?i < n" by (simp add: sent_ok_def)
  then obtain s where s: "ps_at P ?i = Some s" "ps_slot P ?i = Some ?i" by (rule server_at [OF inv])
  have key: "ps_slot P (rm_pinst (answer_to (key_of m) rsp)) = Some ?i" "rm_msg (answer_to (key_of m) rsp) = Some rsp"
    "rm_term (answer_to (key_of m) rsp) = p_term (m_body m)"
    using s(2) by (simp_all add: answer_to_def key_of_def)
  have same: "server_inv N n peer LL (insert j used) P" by (rule server_inv_more [OF inv]) auto
  from handleRpcResponse_cases [OF key(1) s(1) key(2) run] show ?thesis
  proof (elim disjE conjE)
    assume "P' = P"
    with same show ?thesis by simp
  next
    assume a: "rm_term (answer_to (key_of m) rsp) = is_term s - 1" "phase s = PREPARING"
      "Proposer_handlePrepareRsp rsp P = Some (P', r)"
    from handle_step_cases(1) [OF inv a(3)] same server_promise [OF inv fresh refl s(1) a(2)] a(1) key(3)
    show ?thesis by auto
  next
    assume a: "phase s = ACCEPTING" "Proposer_handleAcceptRsp rsp P = Some (P', r)"
    from handle_step_cases(2) [OF inv a(2)] same server_vote [OF inv fresh refl s(1) a(1)] show ?thesis by auto
  qed
qed

text \<open>A timeout, and an entry learnt from the log.\<close>

lemma server_expire:
  assumes inv: "server_inv N n peer LL used P" and none: "rm_msg m = None" and run: "Proposer_handleRpcResponse m P = Some (P', r)"
  shows "server_inv N n peer LL used P'"
proof -
  obtain i where i: "ps_slot P (rm_pinst m) = Some i"
    using run by (auto simp: Proposer_handleRpcResponse_def split: Option.bind_splits)
  obtain s where s: "ps_at P i = Some s" "ps_slot P i = Some i" by (rule server_at [OF inv server_slot [OF inv i]])
  let ?m = "m\<lparr>rm_pinst := i\<rparr>"
  have "Proposer_handleRpcResponse m P = Proposer_handleRpcResponse ?m P"
    using i s(2) by (simp add: Proposer_handleRpcResponse_def cong: if_cong)
  moreover have "Proposer_handleRpcResponse ?m P = lift_step i P (response_step (ps_config P) (rm_term m) None s)"
    using handleRpcResponse_step [OF s(1), of ?m] inv none s(1)
    by (auto simp: server_inv_def server_ok_def round_inv_def)
  ultimately have "lift_step i P (response_step (ps_config P) (rm_term m) None s) = Some (P', r)" using run by simp
  then obtain s' ms res where h: "response_step (ps_config P) (rm_term m) None s = Some (s', ms, res, r)"
    "P' = ps_upd i s' (bcasts P ms) res P" using lift_stepD by blast
  have "ms = [] \<and> same_round s s'"
    using h(1) timeout_step_round by (fastforce simp: response_step_def split: option.splits if_splits)
  moreover have "round_inv peer i (LL i) used (ps_sent P) s" using inv s(1) by (simp add: server_inv_def)
  ultimately show ?thesis
    using server_inv_quiet [OF inv s(1) order_refl round_inv_same, of s s' ms res] h(2) by simp
qed

lemma same_round_chosen: "same_round s (fst (InstanceState_UpdateChosenInfo c f s))"
  by (cases "is_req s") (simp_all add: same_round_def InstanceState_UpdateChosenInfo_def notified_def phase_def)

lemma server_learn:
  assumes inv: "server_inv N n peer LL used P" and run: "Proposer_OnEntryChosen msg from_plog P = Some (P', r)"
  shows "server_inv N n peer LL used P'"
proof -
  let ?pp = "m_body msg"
  obtain i where i: "ps_slot P (p_pinst ?pp) = Some i"
    using run by (auto simp: Proposer_OnEntryChosen_def Let_def split: Option.bind_splits)
  obtain s where s: "ps_at P i = Some s" "ps_slot P i = Some i" by (rule server_at [OF inv server_slot [OF inv i]])
  let ?s = "fst (InstanceState_UpdateChosenInfo (p_pentry ?pp) (ucast (p_proposer ?pp)) s)"
  have "P' = P \<or> P' = ps_upd i ?s [] [] P"
    using run i s UpdateChosenInfo_upd [OF ps_at_range [OF s(1)], of "p_pentry ?pp" "ucast (p_proposer ?pp)" s "[]" "[]"]
    by (auto simp: Proposer_OnEntryChosen_def Let_def ps_upd_self [OF s(1)] split: if_splits)
  moreover have "round_inv peer i (LL i) used (ps_sent P) ?s"
    by (rule round_inv_same [OF _ same_round_chosen]) (use inv s(1) in \<open>simp add: server_inv_def\<close>)
  ultimately show ?thesis
    using inv server_inv_quiet [OF inv s(1) order_refl, of ?s "[]" "[]"] by auto
qed

text \<open>A client proposes.\<close>

lemma server_inv_fields:
  assumes "server_inv N n peer LL used P" and "ps_conn Q = ps_conn P" and "ps_config Q = ps_config P"
    and "ps_states Q = ps_states P" and "ps_sent Q = ps_sent P" and "wheel_ok Q"
  shows "server_inv N n peer LL used Q"
proof -
  have "ps_at Q = ps_at P" using assms(4) by (simp add: ps_at_def fun_eq_iff)
  then show ?thesis using assms by (auto simp: server_inv_def server_ok_def)
qed

lemma propose_sends_fields [simp]:
  "p_pinst (m_body (propose_sends cf i opaque val s)) = i" "p_term (m_body (propose_sends cf i opaque val s)) = is_term s"
  "p_value_id (m_body (propose_sends cf i opaque val s)) = ig_id (is_vig s)"
  "p_value_id (m_body (propose_msg cf i opaque val s)) = ig_id (is_vig s)"
  "same_request (propose_msg cf i opaque val s) (propose_sends cf i opaque val s)"
  by (simp_all add: propose_sends_def propose_msg_def Let_def Proposer_accept_header_def same_request_def names_def
      InstanceState_allocPaxosMsg_def AllocProposalMsg_def IdGen_GetAndInc_def split: prod.split)

lemma propose_state_fields [simp]:
  "is_term (propose_state cf i opaque val f s) = is_term s + 1" "is_valid_rsp_count (propose_state cf i opaque val f s) = 0"
  "\<not> notified (propose_state cf i opaque val f s)"
  by (simp_all add: propose_state_def Let_def notified_def)

lemma server_propose:
  assumes inv: "server_inv N n peer LL used P" and len: "length val < 2 ^ 32" and may: "may_propose opaque val pinst P"
    and run: "Proposer_ProposeAsync opaque val pinst P = Some (P', f)"
  shows "server_inv N n peer LL used P'"
proof -
  let ?cf = "ps_config P"
  have ok: "wheel_ok P" "ps_conn P \<noteq> None" using inv by (auto simp: server_inv_def server_ok_def)
  obtain i where i: "ps_slot P pinst = Some i"
    using run by (auto simp: Proposer_ProposeAsync_def Let_def ps_slot_def split: Option.bind_splits if_splits)
  obtain s where s: "ps_at P i = Some s" "ps_slot P i = Some i" by (rule server_at [OF inv server_slot [OF inv i]])
  show ?thesis
  proof (cases "is_req s")
    case (Some req)
    then have "P' = P\<lparr>ps_futures := Suc (ps_futures P),
        ps_results := ps_results P @ [(Some (ps_futures P), err kErrCode_WORKING_IN_PROPGRESS)]\<rparr>"
      using run ProposeAsync_busy [OF ok(2) i s(1), of opaque val] by auto
    then show ?thesis using ok(1) by (intro server_inv_fields [OF inv]) (simp_all add: wheel_ok_def)
  next
    case None
    obtain tw where tw: "TimingWheel_AddTimeout (is_term s) (cf_timeout ?cf * 2)
        \<lparr>rk_pinst = i, rk_entry = is_last_chosen_entry s + 1, rk_term = is_term s\<rparr> (ps_timeout P) = Some (tw, True)"
      "tw_inv tw" "length (tw_wheel tw) = length (tw_wheel (ps_timeout P))"
      "tw_granularity_ms tw = tw_granularity_ms (ps_timeout P)"
      using TimingWheel_AddTimeout_due [of "ps_timeout P"] ok(1) unfolding wheel_ok_def by blast
    let ?m = "propose_sends ?cf i opaque val s" and ?s = "propose_state ?cf i opaque val (ps_futures P) s"
    let ?Q = "ps_upd i ?s (bcasts P [?m]) [] P"
    have P': "P' = (ps_upd i ?s (bcast P ?m) [] (P\<lparr>ps_futures := Suc (ps_futures P)\<rparr>))\<lparr>ps_timeout := tw\<rparr>"
      using run ProposeAsync_idle [OF ok(2) i s(1) None len tw(1), of opaque] by auto
    have npos: "is_term s \<noteq> npos" and fresh: "fresh_value (ps_sent P) i (ig_id (is_vig s))" and safe: "is_proposer_id s = 0 \<or> \<not> one_phase ?cf i opaque val s"
      using may i s(1) by (simp_all add: may_propose_def)
    obtain mng where mng: "ps_conn P = Some mng" "distinct (map peer (cm_conn mng))"
      using inv by (auto simp: server_inv_def server_ok_def)
    have round: "round_inv peer i (LL i) used (ps_sent P) s" using inv s(1) by (simp add: server_inv_def)
    have n: "unat i < n" using ps_at_range [OF s(1)] inv by (simp add: server_inv_def server_ok_def)
    have pi: "p_pinst (m_body (propose_msg ?cf i opaque val s)) = i" by (simp add: propose_msg_def Let_def)
    have "server_inv N n peer LL used ?Q"
    proof (cases "one_phase ?cf i opaque val s")
      case True
      then have m: "m_type ?m = mt kMsgType_ACCEPT_REQ" "p_pid (m_body ?m) = 1"
        using safe by (simp_all add: propose_sends_def one_phase_def InstanceState_canSkipPrepare_def)
      have "is_term s \<le> is_term ?s" using word_less_Suc [OF npos] by simp
      moreover have "\<forall>req. is_req ?s = Some req \<longrightarrow> phase ?s = ACCEPTING \<and> is_valid_rsp_count ?s = 0 \<and> same_request req ?m \<and>
          accepts (ps_sent P) i (p_value_id (m_body req)) = {}"
      proof (intro allI impI)
        fix req
        assume "is_req ?s = Some req"
        then have req: "req = ?m" using True by (simp add: propose_state_def propose_sends_def Let_def)
        have "phase ?s = ACCEPTING" using True by (simp add: propose_state_def Let_def phase_def)
        then show "phase ?s = ACCEPTING \<and> is_valid_rsp_count ?s = 0 \<and> same_request req ?m \<and>
            accepts (ps_sent P) i (p_value_id (m_body req)) = {}"
          using fresh_accepts [OF fresh] by (simp add: req)
      qed
      ultimately show ?thesis
        using m n by (intro server_inv_accepting [OF inv s(1) order_refl]) (simp_all add: sent_ok_def may_accept_def)
    next
      case False
      then have m: "m_type ?m = mt kMsgType_PREPARE_REQ" by (simp add: propose_sends_def propose_msg_def Let_def)
      have phase: "phase ?s = PREPARING" using False by (simp add: propose_state_def Let_def phase_def)
      have req: "is_req ?s = Some (propose_msg ?cf i opaque val s)" using False by (simp add: propose_state_def Let_def)
      have "round_inv peer i (LL i) used (ps_sent P @ map (\<lambda>c. (c, ?m, key_of ?m)) (cm_conn mng)) ?s"
        by (rule round_inv_start [OF round m _ mng(2) npos _ req _ pi phase]) (simp_all add: fresh)
      moreover have "bcasts P [?m] = map (\<lambda>c. (c, ?m, key_of ?m)) (cm_conn mng)"
        using mng(1) by (simp add: bcast_def key_of_def)
      ultimately show ?thesis
        using m n by (intro server_inv_upd [OF inv s(1) order_refl]) (simp_all add: sent_ok_def)
    qed
    then show ?thesis
      by (rule server_inv_fields) (use ok(1) tw(2-4) in \<open>simp_all add: P' wheel_ok_def\<close>, simp_all add: ps_upd_def)
  qed
qed

section \<open>The group\<close>

definition entry_log :: "('db, 'conn) group \<Rightarrow> u64 \<Rightarrow> u64 \<Rightarrow> answer list" where
  "entry_log g i k = cl_log (group_cluster i k g)"

definition acceptors_ok :: "'db plog_env \<Rightarrow> nat \<Rightarrow> ('db, 'conn) group \<Rightarrow> bool" where
  "acceptors_ok S n g \<longleftrightarrow> (\<forall>a. ac_inv S (gr_acc g a) \<and> length (pm_mngs (ac_pmn (gr_acc g a))) = n)"

text \<open>\<open>N\<close> acceptors and \<open>n\<close> log instances; nothing has been sent yet.\<close>

definition group_start :: "'db plog_env \<Rightarrow> nat \<Rightarrow> nat \<Rightarrow> ('conn \<Rightarrow> nat) \<Rightarrow> ('db, 'conn) group \<Rightarrow> bool" where
  "group_start S N n peer g \<longleftrightarrow> gr_log g = [] \<and> gr_used g = [] \<and> acceptors_ok S n g \<and>
     (\<forall>q. server_ok N n peer (gr_prop g q) \<and> ps_sent (gr_prop g q) = [] \<and>
        (\<forall>s \<in> set (ps_states (gr_prop g q)). is_req s = None))"

definition group_inv :: "'db plog_env \<Rightarrow> nat \<Rightarrow> nat \<Rightarrow> ('conn \<Rightarrow> nat) \<Rightarrow> ('db, 'conn) group \<Rightarrow> bool" where
  "group_inv S N n peer g \<longleftrightarrow> acceptors_ok S n g \<and> (\<forall>(a, msg, rsp) \<in> set (gr_log g). answer_ok msg rsp) \<and>
     (\<forall>q. server_inv N n peer (entry_log g) {j. (q, j) \<in> set (gr_used g)} (gr_prop g q))"

lemma group_inv_start:
  assumes "group_start S N n peer g"
  shows "group_inv S N n peer g"
proof -
  have "round_inv peer i L used [] s" if "ps_at (gr_prop g q) i = Some s" for q i s L used
  proof -
    have "s \<in> set (ps_states (gr_prop g q))" using that by (auto simp: ps_at_def split: if_splits)
    then show ?thesis using assms by (auto simp: group_start_def round_inv_def)
  qed
  then show ?thesis using assms by (auto simp: group_start_def group_inv_def server_inv_def)
qed

text \<open>An acceptor keeps its invariant and the number of its instances, so answers stay about the entry they were about.\<close>

lemma deliver_acceptor:
  assumes "acceptors_ok S n g" and "wf_PaxosMsg msg"
    and "Acceptor_doHandleMsg S \<lparr>rq_cb = cb, rq_msg = msg\<rparr> (gr_acc g a) = Some (ac', out)"
  shows "ac_inv S ac'" and "length (pm_mngs (ac_pmn ac')) = n" and "concerns i k ac' m = concerns i k (gr_acc g a) m"
proof -
  have ac: "ac_inv S (gr_acc g a)" "length (pm_mngs (ac_pmn (gr_acc g a))) = n"
    using assms(1) by (simp_all add: acceptors_ok_def)
  obtain m' wp out' where h: "Acceptor_doHandleMsg S \<lparr>rq_cb = cb, rq_msg = msg\<rparr> (gr_acc g a) =
      Some (ac_upd (p_pinst (m_body msg)) m' wp (gr_acc g a), out')" "handled S (gr_acc g a) msg cb m' wp out'"
    using handles_msg [OF ac(1) assms(2), of cb] by (auto simp: handles_def)
  then have ac': "ac' = ac_upd (p_pinst (m_body msg)) m' wp (gr_acc g a)" using assms(3) by simp
  show "ac_inv S ac'" using ac(1) h(2) by (auto simp: ac' handled_def Let_def intro: ac_inv_upd)
  show len: "length (pm_mngs (ac_pmn ac')) = n" using ac(2) by (simp add: ac' ac_upd_def PlogMng_put_def)
  show "concerns i k ac' m = concerns i k (gr_acc g a) m"
    using len ac(2) by (simp add: concerns_def PlogMng_slot_def)
qed

lemma deliver_log:
  assumes "acceptors_ok S n g" and "wf_PaxosMsg msg"
    and "Acceptor_doHandleMsg S \<lparr>rq_cb = cb, rq_msg = msg\<rparr> (gr_acc g a) = Some (ac', out)"
  shows "entry_log (g\<lparr>gr_acc := (gr_acc g)(a := ac'), gr_log := log'\<rparr>) i k =
    filter (\<lambda>(b, m, rsp). concerns i k (gr_acc g b) m) log'"
proof -
  have "concerns i k (((gr_acc g)(a := ac')) b) m = concerns i k (gr_acc g b) m" for b m
    using deliver_acceptor(3) [OF assms] by simp
  then show ?thesis by (simp add: entry_log_def group_cluster_def)
qed

lemma answer_ok_reqid [simp]: "answer_ok (m\<lparr>m_reqid := r\<rparr>) rsp = answer_ok m rsp"
  by (simp add: answer_ok_def)

lemma group_inv_server:
  assumes "group_inv S N n peer g" and "server_inv N n peer (entry_log g) used P"
    and "used = {j. (q, j) \<in> set u}" and "\<forall>q'. q' \<noteq> q \<longrightarrow> {j. (q', j) \<in> set u} = {j. (q', j) \<in> set (gr_used g)}"
  shows "group_inv S N n peer (g\<lparr>gr_prop := (gr_prop g)(q := P), gr_used := u\<rparr>)"
proof -
  have "entry_log (g\<lparr>gr_prop := (gr_prop g)(q := P), gr_used := u\<rparr>) = entry_log g"
    by (simp add: entry_log_def group_cluster_def fun_eq_iff)
  then show ?thesis using assms by (auto simp: group_inv_def acceptors_ok_def)
qed

lemma group_inv_step:
  assumes inv: "group_inv S N n peer g" and step: "group_step S peer g g'"
  shows "group_inv S N n peer g'"
proof -
  have servers: "server_inv N n peer (entry_log g) {j. (q, j) \<in> set (gr_used g)} (gr_prop g q)" for q
    using inv by (simp add: group_inv_def)
  have server: "group_inv S N n peer (g\<lparr>gr_prop := (gr_prop g)(q := P)\<rparr>)"
    if "server_inv N n peer (entry_log g) {j. (q, j) \<in> set (gr_used g)} P" for q P
    using group_inv_server [OF inv that refl] by simp
  from step show ?thesis
  proof (cases rule: group_step.cases)
    case (propose val opaque pinst q P)
    then show ?thesis using server_propose [OF servers] server by auto
  next
    case (learn msg from_plog q P)
    then show ?thesis using server_learn [OF servers] server by auto
  next
    case (expire m q P)
    then show ?thesis using server_expire [OF servers] server by auto
  next
    case (deliver c m key q msg r cb ac' out log')
    have acs: "acceptors_ok S n g" and wf: "wf_PaxosMsg msg"
      using inv deliver by (simp_all add: group_inv_def may_deliver_def)
    note ac = deliver_acceptor [OF acs wf deliver(5)] and log = deliver_log [OF acs wf deliver(5)]
    have "acceptors_ok S n g'" using acs ac(1,2) by (simp add: acceptors_ok_def deliver(1))
    moreover have "\<forall>(a, msg, rsp) \<in> set log'. answer_ok msg rsp"
    proof -
      have "ac_inv S (gr_acc g (peer c))" using acs by (simp add: acceptors_ok_def)
      from answer_ok_run [OF this deliver(4)] deliver(5,6) inv show ?thesis
        by (auto simp: group_inv_def split: option.splits)
    qed
    moreover have "set (entry_log g i k) \<subseteq> set (entry_log g' i k)" for i k
    proof -
      have "set (gr_log g) \<subseteq> set log'" using deliver(6) by (auto split: option.splits)
      then show ?thesis unfolding deliver(1) log by (auto simp: entry_log_def group_cluster_def)
    qed
    then have "server_inv N n peer (entry_log g') {j. (q, j) \<in> set (gr_used g)} (gr_prop g q)" for q
      by (rule server_inv_more [OF servers]) simp
    ultimately show ?thesis by (simp add: group_inv_def deliver(1))
  next
    case (respond j q c m key r rsp P)
    have snt: "(c, m, key) \<in> set (ps_sent (gr_prop g q))" using respond(2,3) nth_mem by metis
    have key: "key = key_of m" using servers [of q] snt by (auto simp: server_inv_def)
    have "answer_ok m rsp" using inv respond(5) by (auto simp: group_inv_def)
    moreover have "peer c \<in> promisers (entry_log g (p_pinst (m_body m)) (p_pentry (m_body m))) (p_pid (m_body rsp))"
      if "m_type m = mt kMsgType_PREPARE_REQ \<and> p_status (m_body rsp) = st kPaxosState_PROMISED"
    proof -
      have "answer_promise (m\<lparr>m_reqid := r\<rparr>) rsp = Some (p_pid (m_body rsp))" using that by (simp add: answer_promise_def)
      then show ?thesis
        using respond(5) by (force simp: promisers_def entry_log_def group_cluster_def concerns_def)
    qed
    moreover have "peer c \<in> voters (entry_log g (p_pinst (m_body m)) (p_pentry (m_body m))) (p_pid (m_body m)) (p_value_id (m_body m))"
      if "m_type m = mt kMsgType_ACCEPT_REQ \<and> p_status (m_body rsp) = st kPaxosState_ACCEPTED"
    proof -
      have "answer_vote (m\<lparr>m_reqid := r\<rparr>) rsp = Some (p_pid (m_body m))" using that by (simp add: answer_vote_def)
      then show ?thesis
        using respond(5) by (force simp: voters_def entry_log_def group_cluster_def concerns_def)
    qed
    ultimately have fresh: "fresh_answer peer (entry_log g) {j. (q, j) \<in> set (gr_used g)} (ps_sent (gr_prop g q)) j m rsp"
      using respond(2-4) by (simp add: fresh_answer_def peer_of_def)
    obtain x where "Proposer_handleRpcResponse (answer_to (key_of m) rsp) (gr_prop g q) = Some (P, x)"
      using respond(6) key by auto
    note new = server_respond [OF servers fresh this]
    show ?thesis unfolding respond(1) by (rule group_inv_server [OF inv new]) auto
  qed
qed

lemma group_inv_reach: "group_start S N n peer g0 \<Longrightarrow> group_reach S peer g0 g \<Longrightarrow> group_inv S N n peer g"
  unfolding group_reach_def
  by (rotate_tac, induction rule: rtranclp_induct) (use group_inv_start group_inv_step in blast)+

section \<open>The group simulates the acceptors of one entry\<close>

lemma group_step_cluster:
  assumes inv: "group_inv S N n peer g" and step: "group_step S peer g g'" and i: "unat i < n"
  shows "cluster_reach S N i k (group_cluster i k g) (group_cluster i k g')"
  using step
proof (cases rule: group_step.cases)
  case (deliver c m key q msg r cb ac' out log')
  let ?c = "group_cluster i k g" and ?a = "peer c"
  have acs: "acceptors_ok S n g" and wf: "wf_PaxosMsg msg"
    and room: "em_room (p_pentry (m_body msg)) (ac_mng (gr_acc g ?a) (p_pinst (m_body msg)))"
    using inv deliver by (simp_all add: group_inv_def may_deliver_def)
  have rule: "may_accept N (cl_log ?c) (m_body msg)"
    if "m_type msg = mt kMsgType_ACCEPT_REQ" "concerns i k (gr_acc g ?a) msg"
  proof -
    have ok: "sent_ok N n (entry_log g) m" using inv deliver(2) by (auto simp: group_inv_def server_inv_def)
    have "unat (p_pinst (m_body m)) < n" using ok by (simp add: sent_ok_def)
    moreover have "length (pm_mngs (ac_pmn (gr_acc g ?a))) = n" using acs by (simp add: acceptors_ok_def)
    ultimately have "p_pinst (m_body m) = i" "p_pentry (m_body m) = k"
      using that(2) i deliver(3) by (simp_all add: concerns_def PlogMng_slot_def word_unat_eq_iff)
    then show ?thesis using ok that(1) deliver(3) by (simp add: sent_ok_def entry_log_def)
  qed
  have log: "cl_log (group_cluster i k g') = (case out of
      Some (_, rsp) \<Rightarrow> if concerns i k (cl_acc ?c ?a) msg then (?a, msg, rsp) # cl_log ?c else cl_log ?c | None \<Rightarrow> cl_log ?c)"
    using deliver_log [OF acs wf deliver(5), of log' i k]
    by (auto simp: deliver(1,6) entry_log_def group_cluster_def split: option.splits)
  have "cluster_step S N i k ?c (?c\<lparr>cl_acc := (cl_acc ?c)(?a := ac'), cl_log := cl_log (group_cluster i k g')\<rparr>)"
    by (rule cluster_step.deliver [OF wf _ _ _ log]) (use room rule deliver(5) in \<open>simp_all add: group_cluster_def\<close>)
  moreover have "group_cluster i k g' = ?c\<lparr>cl_acc := (cl_acc ?c)(?a := ac'), cl_log := cl_log (group_cluster i k g')\<rparr>"
    by (simp add: group_cluster_def deliver(1))
  ultimately show ?thesis unfolding cluster_reach_def by (metis r_into_rtranclp)
qed (simp_all add: group_cluster_def cluster_reach_def)

lemma group_reach_cluster:
  assumes "group_start S N n peer g0" and "unat i < n" and "group_reach S peer g0 g"
  shows "cluster_reach S N i k (group_cluster i k g0) (group_cluster i k g)"
  using assms(3) unfolding group_reach_def
proof (induction rule: rtranclp_induct)
  case (step g g')
  from group_inv_reach [OF assms(1), of g] step(1)
  have "group_inv S N n peer g" by (simp add: group_reach_def)
  from group_step_cluster [OF this step(2) assms(2)] step.IH show ?case
    unfolding cluster_reach_def by (rule rtranclp_trans [rotated])
qed (simp add: cluster_reach_def)

end
