(* ===== verification/Group_Chosen.thy ===== *)
theory Group_Chosen
  imports Group_Inv
begin

text \<open>
  What the acceptors of a group mark as chosen: only what a majority has voted for.
\<close>

section \<open>Entries marked chosen\<close>

text \<open>The id and value id of an entry that an acceptor has marked as chosen.\<close>

definition entry_chosen :: "Entry \<Rightarrow> (u64 \<times> u64) option" where
  "entry_chosen e = (case en_accepted e of
      None \<Rightarrow> None
    | Some q \<Rightarrow> if p_status q = st kPaxosState_CHOSEN then Some (p_pid q, p_value_id q) else None)"

lemma entry_chosen_step:
  assumes "entry_chosen (entry_step (saved, msg) e) = Some x"
  shows "entry_chosen e = Some x \<or> m_type msg = mt kMsgType_CHOSEN_REQ \<and> x = (p_pid (m_body msg), p_value_id (m_body msg))"
  using assms
  by (auto simp: entry_chosen_def prepare_entry_def accept_entry_def as_accepted_def chosen_entry_def with_status_def
      chosen_applies_def split: option.splits if_splits)

text \<open>Every acceptor has marked only what a majority has voted for.\<close>

definition chosen_ok :: "nat \<Rightarrow> u64 \<Rightarrow> u64 \<Rightarrow> ('db, 'conn) group \<Rightarrow> bool" where
  "chosen_ok N i k g \<longleftrightarrow> (\<forall>a e b v. EntryMng_at (ac_mng (gr_acc g a) i) k = Some e \<longrightarrow> entry_chosen e = Some (b, v) \<longrightarrow>
     majority N (voters (entry_log g i k) b v))"

definition none_chosen :: "u64 \<Rightarrow> u64 \<Rightarrow> ('db, 'conn) group \<Rightarrow> bool" where
  "none_chosen i k g \<longleftrightarrow> (\<forall>a e. EntryMng_at (ac_mng (gr_acc g a) i) k = Some e \<longrightarrow> entry_chosen e = None)"

lemma chosen_okD: "chosen_ok N i k g \<Longrightarrow> EntryMng_at (ac_mng (gr_acc g a) i) k = Some e \<Longrightarrow> entry_chosen e = Some (b, v) \<Longrightarrow>
    majority N (voters (entry_log g i k) b v)"
  unfolding chosen_ok_def by blast

lemma chosen_ok_step:
  assumes inv: "group_inv S N n peer g" and clu: "cluster_inv S N i k (group_cluster i k g)" and i: "unat i < n"
    and ok: "chosen_ok N i k g" and step: "group_step S peer g g'"
  shows "chosen_ok N i k g'"
  using step
proof (cases rule: group_step.cases)
  case (deliver c m key q msg r cb ac' out log')
  let ?a = "peer c" and ?ac = "gr_acc g (peer c)"
  have acs: "acceptors_ok S n g" and wf: "wf_PaxosMsg msg" and room: "em_room (p_pentry (m_body msg)) (ac_mng ?ac (p_pinst (m_body msg)))"
    using inv deliver by (simp_all add: group_inv_def may_deliver_def)
  have "acceptor_inv S i k (group_cluster i k g) ?a" using clu by (simp add: cluster_inv_def)
  then obtain e where e: "EntryMng_at (ac_mng ?ac i) k = Some e" by (auto simp: acceptor_inv_def group_cluster_def)
  have ac: "ac_inv S ?ac" using acs by (simp add: acceptors_ok_def)
  note entry = deliver_entry [OF ac e wf room deliver(5)]
  have sent: "sent_ok N n (entry_log g) m" using inv deliver(2) by (auto simp: group_inv_def server_inv_def)
  have sub: "set (entry_log g i k) \<subseteq> set (entry_log g' i k)"
  proof -
    have "set (gr_log g) \<subseteq> set log'" using deliver(6) by (auto split: option.splits)
    then show ?thesis unfolding deliver(1) deliver_log [OF acs wf deliver(5)] by (auto simp: entry_log_def group_cluster_def)
  qed
  have more: "majority N (voters (entry_log g' i k) b v)" if "majority N (voters (entry_log g i k) b v)" for b v
    by (rule majority_mono [OF that answers_mono [OF sub, THEN conjunct2]])
  show ?thesis
    unfolding chosen_ok_def
  proof (intro allI impI)
    fix a e' b v
    assume at: "EntryMng_at (ac_mng (gr_acc g' a) i) k = Some e'" and ch: "entry_chosen e' = Some (b, v)"
    consider "EntryMng_at (ac_mng (gr_acc g a) i) k = Some e'"
      | "concerns i k ?ac msg" "e' = entry_step (write_ok S ?ac msg, msg) e"
    proof (cases "a = ?a")
      case True
      then have at': "EntryMng_at (ac_mng ac' i) k = Some e'" using at by (simp add: deliver(1))
      show thesis
      proof (cases "concerns i k ?ac msg \<and> reaches_entry ?ac msg")
        case True
        then have "e' = entry_step (write_ok S ?ac msg, msg) e" using at' entry(3) by simp
        with True show thesis by (intro that(2)) simp_all
      next
        case False
        then have "EntryMng_at (ac_mng ac' i) k = Some e" using entry(2,3) by (cases "concerns i k ?ac msg") simp_all
        then show thesis using at' e \<open>a = ?a\<close> by (intro that(1)) simp
      qed
    next
      case False
      then show thesis using at by (intro that(1)) (simp add: deliver(1))
    qed
    then show "majority N (voters (entry_log g' i k) b v)"
    proof cases
      case 1
      from more [OF chosen_okD [OF ok this ch]] show ?thesis .
    next
      case 2
      show ?thesis
      proof (cases "entry_chosen e = Some (b, v)")
        case True
        from more [OF chosen_okD [OF ok e this]] show ?thesis .
      next
        case False
        from ch have "entry_chosen (entry_step (write_ok S ?ac msg, msg) e) = Some (b, v)" unfolding 2(2) .
        from entry_chosen_step [OF this] False
        have "m_type msg = mt kMsgType_CHOSEN_REQ" "(b, v) = (p_pid (m_body msg), p_value_id (m_body msg))" by blast+
        then have msg: "m_type m = mt kMsgType_CHOSEN_REQ" "b = p_pid (m_body m)" "v = p_value_id (m_body m)"
          by (simp_all add: deliver(3))
        have "length (pm_mngs (ac_pmn ?ac)) = n" using acs by (simp add: acceptors_ok_def)
        then have "p_pinst (m_body m) = i" "p_pentry (m_body m) = k"
          using 2(1) i deliver(3) sent by (simp_all add: concerns_def PlogMng_slot_def word_unat_eq_iff sent_ok_def)
        then have "majority N (voters (entry_log g i k) b v)" using sent msg by (simp add: sent_ok_def)
        then show ?thesis by (rule more)
      qed
    qed
  qed
qed (use ok in \<open>simp_all add: chosen_ok_def entry_log_def group_cluster_def\<close>)

lemma chosen_ok_reach:
  assumes "group_start S N n peer g0" and "cluster_start S i k (group_cluster i k g0)" and "unat i < n"
    and "none_chosen i k g0" and "group_reach S peer g0 g"
  shows "chosen_ok N i k g"
  using assms(5) unfolding group_reach_def
proof (induction rule: rtranclp_induct)
  case base
  show ?case using assms(4) by (simp add: chosen_ok_def none_chosen_def)
next
  case (step g g')
  have reach: "group_reach S peer g0 g" using step(1) by (simp add: group_reach_def)
  from cluster_inv_reach [OF assms(2) group_reach_cluster [OF assms(1,3) reach]]
  have "cluster_inv S N i k (group_cluster i k g)" .
  from chosen_ok_step [OF group_inv_reach [OF assms(1) reach] this assms(3) step.IH step(2)] show ?case .
qed

end
