(* ===== verification/Group_Properties.thy ===== *)
theory Group_Properties
  imports Group_Chosen Synod_Properties
begin

text \<open>
  Agreement of the whole group: proposers and acceptors as they are, and a network that may lose, delay,
  repeat and reorder. Runs of the group can be executed (\<open>group_exec\<close>).
\<close>

section \<open>Executable runs\<close>

text \<open>Requests are given by server and position among its messages, answers by their position in the log.\<close>

datatype group_event = GPropose nat u64 "u8 list" u64 | GLearn nat PaxosMsg bool | GExpire nat RpcResponseMsg
  | GDeliver nat nat | GRespond nat nat nat

fun group_exec1 ::
    "'db plog_env \<Rightarrow> ('conn \<Rightarrow> nat) \<Rightarrow> group_event \<Rightarrow> ('db, 'conn) group \<Rightarrow> ('db, 'conn) group option" where
  "group_exec1 S peer (GPropose q opaque val pinst) g =
     (if int (length val) < 2 ^ 32 \<and> may_propose opaque val pinst (gr_prop g q)
      then map_option (\<lambda>P. g\<lparr>gr_prop := (gr_prop g)(q := P)\<rparr>) (proposer_step (Propose opaque val pinst) (gr_prop g q))
      else None)"
| "group_exec1 S peer (GLearn q msg from_plog) g =
     map_option (\<lambda>P. g\<lparr>gr_prop := (gr_prop g)(q := P)\<rparr>) (proposer_step (Learn msg from_plog) (gr_prop g q))"
| "group_exec1 S peer (GExpire q m) g =
     (if rm_msg m = None
      then map_option (\<lambda>P. g\<lparr>gr_prop := (gr_prop g)(q := P)\<rparr>) (proposer_step (Respond m) (gr_prop g q))
      else None)"
| "group_exec1 S peer (GDeliver q j) g =
     (if j < length (ps_sent (gr_prop g q))
      then (case ps_sent (gr_prop g q) ! j of (c, msg, key) \<Rightarrow>
        if may_deliver S msg (gr_acc g (peer c))
        then map_option (\<lambda>(ac', out). g\<lparr>gr_acc := (gr_acc g)(peer c := ac'),
                gr_log := (case out of None \<Rightarrow> gr_log g | Some (_, rsp) \<Rightarrow> (peer c, msg, rsp) # gr_log g)\<rparr>)
               (Acceptor_doHandleMsg S \<lparr>rq_cb = None, rq_msg = msg\<rparr> (gr_acc g (peer c)))
        else None)
      else None)"
| "group_exec1 S peer (GRespond q j l) g =
     (if j < length (ps_sent (gr_prop g q)) \<and> (q, j) \<notin> set (gr_used g) \<and> l < length (gr_log g)
      then (case (ps_sent (gr_prop g q) ! j, gr_log g ! l) of ((c, m, key), (a, msg, rsp)) \<Rightarrow>
        if a = peer c \<and> msg = m
        then map_option (\<lambda>P. g\<lparr>gr_prop := (gr_prop g)(q := P), gr_used := (q, j) # gr_used g\<rparr>)
               (proposer_step (Respond (answer_to key rsp)) (gr_prop g q))
        else None)
      else None)"

fun group_exec ::
    "'db plog_env \<Rightarrow> ('conn \<Rightarrow> nat) \<Rightarrow> group_event list \<Rightarrow> ('db, 'conn) group \<Rightarrow> ('db, 'conn) group option" where
  "group_exec S peer [] g = Some g"
| "group_exec S peer (e # es) g = (case group_exec1 S peer e g of None \<Rightarrow> None | Some g' \<Rightarrow> group_exec S peer es g')"

lemma group_exec1_step: "group_exec1 S peer e g = Some g' \<Longrightarrow> group_step S peer g g'"
proof (cases e)
  case (GPropose q opaque val pinst)
  assume "group_exec1 S peer e g = Some g'"
  then show ?thesis using GPropose by (auto simp del: proposer_step.simps split: if_splits intro: group_step.propose)
next
  case (GLearn q msg from_plog)
  assume "group_exec1 S peer e g = Some g'"
  then show ?thesis using GLearn by (auto simp del: proposer_step.simps intro: group_step.learn)
next
  case (GExpire q m)
  assume "group_exec1 S peer e g = Some g'"
  then show ?thesis using GExpire by (auto simp del: proposer_step.simps split: if_splits intro: group_step.expire)
next
  case (GDeliver q j)
  assume a: "group_exec1 S peer e g = Some g'"
  obtain c msg key where snt: "ps_sent (gr_prop g q) ! j = (c, msg, key)" by (cases "ps_sent (gr_prop g q) ! j")
  with a GDeliver obtain ac' out where h: "j < length (ps_sent (gr_prop g q))" "may_deliver S msg (gr_acc g (peer c))"
    "Acceptor_doHandleMsg S \<lparr>rq_cb = None, rq_msg = msg\<rparr> (gr_acc g (peer c)) = Some (ac', out)"
    "g' = g\<lparr>gr_acc := (gr_acc g)(peer c := ac'),
       gr_log := (case out of None \<Rightarrow> gr_log g | Some (_, rsp) \<Rightarrow> (peer c, msg, rsp) # gr_log g)\<rparr>"
    by (auto split: if_splits)
  have mem: "(c, msg, key) \<in> set (ps_sent (gr_prop g q))" using snt h(1) nth_mem by metis
  have "msg = msg\<lparr>m_reqid := m_reqid msg\<rparr>" by simp
  show ?thesis unfolding h(4) by (rule group_step.deliver [where c = c and peer = peer and r = "m_reqid msg", OF mem _ h(2,3)]) simp_all
next
  case (GRespond q j l)
  assume a: "group_exec1 S peer e g = Some g'"
  obtain c m key where snt: "ps_sent (gr_prop g q) ! j = (c, m, key)" by (cases "ps_sent (gr_prop g q) ! j")
  obtain b msg rsp where ans: "gr_log g ! l = (b, msg, rsp)" by (cases "gr_log g ! l")
  from a GRespond snt ans obtain P where h: "j < length (ps_sent (gr_prop g q))" "(q, j) \<notin> set (gr_used g)"
    "l < length (gr_log g)" "b = peer c" "msg = m" "proposer_step (Respond (answer_to key rsp)) (gr_prop g q) = Some P"
    "g' = g\<lparr>gr_prop := (gr_prop g)(q := P), gr_used := (q, j) # gr_used g\<rparr>"
    by (auto simp del: proposer_step.simps split: if_splits)
  have "(peer c, m\<lparr>m_reqid := m_reqid m\<rparr>, rsp) \<in> set (gr_log g)" using ans h(3-5) nth_mem by fastforce
  from group_step.respond [where peer = peer and r = "m_reqid m", OF h(1) snt h(2) this h(6)] show ?thesis unfolding h(7) .
qed

lemma group_exec_reach: "group_exec S peer es g = Some g' \<Longrightarrow> group_reach S peer g g'"
proof (induction es arbitrary: g)
  case (Cons e es)
  then obtain g1 where "group_exec1 S peer e g = Some g1" "group_exec S peer es g1 = Some g'" by (auto split: option.splits)
  with Cons.IH group_exec1_step show ?case by (fastforce simp: group_reach_def intro: converse_rtranclp_into_rtranclp)
qed (simp add: group_reach_def)

section \<open>Three servers\<close>

definition server_config :: "nat \<Rightarrow> Configure" where
  "server_config q = example_config\<lparr>cf_local := (cf_local example_config)\<lparr>ai_id := (if q = 0 then 0 else if q = 1 then 1 else 2)\<rparr>\<rparr>"

text \<open>Every server's values have ids of their own, the first one of server \<open>q\<close> is \<open>q + 5\<close>.\<close>

definition example_server :: "nat \<Rightarrow> nat Proposer" where
  "example_server q = Proposer_SetConnMng \<lparr>cm_config = server_config q, cm_conn = [0, 1, 2]\<rparr>
     (the (Proposer_new 0 (of_nat q + 5) (server_config q)))"

definition example_servers :: "(unit, nat) group" where
  "example_servers = \<lparr>gr_prop = example_server, gr_acc = cl_acc example_group, gr_log = [], gr_used = []\<rparr>"

lemma example_server_ok:
  "server_ok 3 2 id (example_server q)" "ps_sent (example_server q) = []"
  "\<forall>s \<in> set (ps_states (example_server q)). is_req s = None"
proof -
  let ?c = "server_config q" and ?mng = "\<lparr>cm_config = server_config q, cm_conn = [0 :: nat, 1, 2]\<rparr>"
  have c: "2 \<le> unat (cf_timeout ?c)" "unat (cf_timeout ?c) \<le> 4001"
    "cf_total_proposer ?c = 3 \<or> cf_total_proposer ?c = 5" "0 < unat (cf_plog_inst_num ?c)"
    "unat (cf_plog_inst_num ?c) = 2" "unat (cf_total_acceptor ?c) = 3"
    by (simp_all add: server_config_def example_config_def Configure_default_def)
  from Proposer_new_inv [OF c(1-4), of 0 "of_nat q + 5" ?mng] c(5) obtain P where
    P: "Proposer_new 0 (of_nat q + 5) ?c = Some P" "ps_inv (Proposer_SetConnMng ?mng P)"
      "\<forall>s \<in> set (ps_states P). is_req s = None" "length (ps_states P) = 2" by auto
  then have eq: "example_server q = Proposer_SetConnMng ?mng P" by (simp add: example_server_def)
  have "ps_sent P = []" "ps_config P = ?c" using P(1) by (auto simp: Proposer_new_def Let_def split: Option.bind_splits)
  then show "server_ok 3 2 id (example_server q)" "ps_sent (example_server q) = []"
    "\<forall>s \<in> set (ps_states (example_server q)). is_req s = None"
    using P c(6) by (simp_all add: eq Proposer_SetConnMng_def server_ok_def wheel_ok_def ps_inv_def)
qed

lemma example_servers_start: "group_start null_store 3 2 id example_servers"
proof -
  have "ac_inv null_store (after_requests [example_msg kMsgType_PREPARE_REQ 0 0])"
    by (rule ac_inv_after) simp
  moreover have "length (pm_mngs (ac_pmn (after_requests [example_msg kMsgType_PREPARE_REQ 0 0]))) = 2" by code_simp
  ultimately show ?thesis
    using example_server_ok by (simp add: group_start_def acceptors_ok_def example_servers_def example_group_def)
qed

lemma example_servers_cluster: "cluster_start null_store 0 1 (group_cluster 0 1 example_servers)"
proof -
  have "group_cluster 0 1 example_servers = example_group"
    by (simp add: group_cluster_def example_servers_def example_group_def)
  then show ?thesis using example_group_start by simp
qed

text \<open>
  Servers 1 and 2 propose at the same time; acceptor 1 promises server 2's id first. Server 1 gets its majority from
  acceptors 0 and 2, which vote for its value and, by its chosen requests, mark it chosen.
\<close>

definition rival_run :: "group_event list" where
  "rival_run =
     [GPropose 1 7 [65] 0, GPropose 2 7 [66] 0, GDeliver 2 1, GDeliver 1 0, GDeliver 1 1, GDeliver 1 2,
      GRespond 1 0 2, GRespond 1 2 0, GDeliver 1 3, GDeliver 1 5, GRespond 1 3 1, GRespond 1 5 0,
      GDeliver 1 6, GDeliver 1 8]"

definition rival_group :: "(unit, nat) group" where
  "rival_group = the (group_exec null_store id rival_run example_servers)"

lemma rival_group_reach: "group_reach null_store id example_servers rival_group"
proof -
  have "map_option gr_used (group_exec null_store id rival_run example_servers) \<noteq> None" by code_simp
  then have "group_exec null_store id rival_run example_servers = Some rival_group" by (auto simp: rival_group_def)
  then show ?thesis by (rule group_exec_reach)
qed

section \<open>Properties\<close>

lemma group_sent_ok:
  assumes "group_start S N n peer g0" and "group_reach S peer g0 g" and "(c, m, key) \<in> set (ps_sent (gr_prop g q))"
  shows "sent_ok N n (entry_log g) m"
proof -
  have "server_inv N n peer (entry_log g) {j. (q, j) \<in> set (gr_used g)} (gr_prop g q)"
    using group_inv_reach [OF assms(1,2)] by (simp add: group_inv_def)
  with assms(3) show ?thesis by (auto simp: server_inv_def)
qed

text \<open>
  C1: The logs of the group agree. Whatever clients propose on whatever servers, and however the network loses, delays,
  repeats and reorders requests and answers, two acceptors that have both marked an entry as chosen hold the same proposal in it, with the same id and value
  id, as long as only the master skips the prepare phase.
\<close>

theorem chosen_entries_agree:
  assumes "group_start S N n peer g0" and "cluster_start S i k (group_cluster i k g0)" and "unat i < n"
    and "none_chosen i k g0" and "group_reach S peer g0 g"
    and "EntryMng_at (ac_mng (gr_acc g a1) i) k = Some e1" and "entry_chosen e1 = Some (b1, v1)"
    and "EntryMng_at (ac_mng (gr_acc g a2) i) k = Some e2" and "entry_chosen e2 = Some (b2, v2)"
  shows "b1 = b2 \<and> v1 = v2"
proof -
  note chosen = chosen_okD [OF chosen_ok_reach [OF assms(1-5)], unfolded entry_log_def]
  from cluster_inv_reach [OF assms(2) group_reach_cluster [OF assms(1,3,5)]]
  have "cluster_inv S N i k (group_cluster i k g)" .
  from cluster_inv_agreement [OF this chosen [OF assms(6,7)] chosen [OF assms(8,9)]] show ?thesis .
qed

lemma example_servers_none: "none_chosen 0 1 example_servers"
proof -
  have "map_option entry_chosen (EntryMng_at (ac_mng (after_requests [example_msg kMsgType_PREPARE_REQ 0 0]) 0) 1) = Some None"
    by code_simp
  then show ?thesis by (auto simp: none_chosen_def example_servers_def example_group_def)
qed

theorem chosen_entries_agree_witness:
  "map_option entry_chosen (EntryMng_at (ac_mng (gr_acc rival_group 0) 0) 1) = Some (Some (2, 6)) \<and>
   map_option entry_chosen (EntryMng_at (ac_mng (gr_acc rival_group 2) 0) 1) = Some (Some (2, 6)) \<and> (2 :: u64) = 2 \<and> (6 :: u64) = 6"
proof -
  have "map_option entry_chosen (EntryMng_at (ac_mng (gr_acc rival_group 0) 0) 1) = Some (Some (2, 6))"
    "map_option entry_chosen (EntryMng_at (ac_mng (gr_acc rival_group 2) 0) 1) = Some (Some (2, 6))" by code_simp+
  then obtain e1 e2 where e: "EntryMng_at (ac_mng (gr_acc rival_group 0) 0) 1 = Some e1" "entry_chosen e1 = Some (2, 6)"
    "EntryMng_at (ac_mng (gr_acc rival_group 2) 0) 1 = Some e2" "entry_chosen e2 = Some (2, 6)" by auto
  have "unat (0 :: u64) < 2" by simp
  from chosen_entries_agree [OF example_servers_start example_servers_cluster this example_servers_none rival_group_reach e] e
  show ?thesis by simp
qed

text \<open>
  C2: Agreement of the group. In every run, no two different values of an entry are each accepted by a majority
  of the acceptors; all majorities are even for the same proposal id. The proposers are the code's: which accept requests they send
  is not assumed.
\<close>

theorem group_agreement:
  assumes "group_start S N n peer g0" and "cluster_start S i k (group_cluster i k g0)" and "unat i < n"
    and "group_reach S peer g0 g"
    and "majority N (voters (entry_log g i k) b1 v1)" and "majority N (voters (entry_log g i k) b2 v2)"
  shows "b1 = b2 \<and> v1 = v2"
proof -
  from cluster_inv_reach [OF assms(2) group_reach_cluster [OF assms(1,3,4)]]
  have "cluster_inv S N i k (group_cluster i k g)" .
  from cluster_inv_agreement [OF this] assms(5,6) show ?thesis unfolding entry_log_def by blast
qed

theorem group_agreement_witness:
  "majority 3 (voters (entry_log rival_group 0 1) 2 6) \<and> (2 :: u64) = 2 \<and> (6 :: u64) = 6"
proof -
  have maj: "majority 3 (voters (entry_log rival_group 0 1) 2 6)" by code_simp
  have "unat (0 :: u64) < 2" by simp
  from group_agreement [OF example_servers_start example_servers_cluster this rival_group_reach maj maj] maj
  show ?thesis by simp
qed

text \<open>
  C4: A chosen request is sent only for a value that has been chosen: a majority of the acceptors has voted for its value
  under its id. The proposer counts callbacks; that they are votes of different acceptors for this very proposal, and not late answers to an earlier one,
  is what the proof is about.
\<close>

theorem chosen_requests_justified:
  assumes "group_start S N n peer g0" and "group_reach S peer g0 g"
    and "(c, m, key) \<in> set (ps_sent (gr_prop g q))" and "m_type m = mt kMsgType_CHOSEN_REQ"
  shows "majority N (voters (entry_log g (p_pinst (m_body m)) (p_pentry (m_body m))) (p_pid (m_body m)) (p_value_id (m_body m)))"
  using group_sent_ok [OF assms(1-3)] assms(4) by (simp add: sent_ok_def)

theorem chosen_requests_justified_witness:
  "(case ps_sent (gr_prop rival_group 1) ! 6 of (c, m, key) \<Rightarrow> m_type m = mt kMsgType_CHOSEN_REQ \<and>
      majority 3 (voters (entry_log rival_group 0 1) (p_pid (m_body m)) 6))"
proof -
  obtain c m key where eq: "ps_sent (gr_prop rival_group 1) ! 6 = (c, m, key)"
    by (cases "ps_sent (gr_prop rival_group 1) ! 6")
  have "6 < length (ps_sent (gr_prop rival_group 1))" by code_simp
  then have mem: "(c, m, key) \<in> set (ps_sent (gr_prop rival_group 1))" using eq nth_mem by metis
  have "(case ps_sent (gr_prop rival_group 1) ! 6 of (c, m, key) \<Rightarrow> m_type m = mt kMsgType_CHOSEN_REQ \<and>
    p_value_id (m_body m) = 6 \<and> p_pinst (m_body m) = 0 \<and> p_pentry (m_body m) = 1)" by code_simp
  then have m: "m_type m = mt kMsgType_CHOSEN_REQ" "p_value_id (m_body m) = 6" "p_pinst (m_body m) = 0" "p_pentry (m_body m) = 1"
    unfolding eq by simp_all
  from chosen_requests_justified [OF example_servers_start rival_group_reach mem m(1)] m show ?thesis unfolding eq by simp
qed

text \<open>
  C5: A proposer sends no accept request without the right to. For every accept request that any server has ever sent, the id is 1,
  the master's first, or a majority of the acceptors has promised the id for that entry. The proposer counts callbacks;
  that they are answers of different acceptors, to the current round, and for its own id is what the proof is about.
\<close>

theorem accept_requests_justified:
  assumes "group_start S N n peer g0" and "group_reach S peer g0 g"
    and "(c, m, key) \<in> set (ps_sent (gr_prop g q))" and "m_type m = mt kMsgType_ACCEPT_REQ"
  shows "may_accept N (entry_log g (p_pinst (m_body m)) (p_pentry (m_body m))) (m_body m)"
  using group_sent_ok [OF assms(1-3)] assms(4) by (simp add: sent_ok_def)

theorem accept_requests_justified_witness:
  "(let (c, m, key) = ps_sent (gr_prop rival_group 1) ! 3
    in m_type m = mt kMsgType_ACCEPT_REQ \<and> p_pid (m_body m) = 2 \<and> may_accept 3 (entry_log rival_group 0 1) (m_body m))"
proof -
  obtain c m key where eq: "ps_sent (gr_prop rival_group 1) ! 3 = (c, m, key)"
    by (cases "ps_sent (gr_prop rival_group 1) ! 3")
  have "3 < length (ps_sent (gr_prop rival_group 1))" by code_simp
  then have mem: "(c, m, key) \<in> set (ps_sent (gr_prop rival_group 1))" using eq nth_mem by metis
  have "(let (c, m, key) = ps_sent (gr_prop rival_group 1) ! 3
    in m_type m = mt kMsgType_ACCEPT_REQ \<and> p_pid (m_body m) = 2 \<and> p_pinst (m_body m) = 0 \<and> p_pentry (m_body m) = 1)" by code_simp
  with eq have m: "m_type m = mt kMsgType_ACCEPT_REQ" "p_pid (m_body m) = 2" "p_pinst (m_body m) = 0" "p_pentry (m_body m) = 1"
    by simp_all
  from accept_requests_justified [OF example_servers_start rival_group_reach mem m(1)] m show ?thesis unfolding eq by simp
qed

end
