(* ===== verification/Logger.thy ===== *)
theory Logger
  imports Quarrel_Prelude "HOL-Library.Signed_Division"
begin

text \<open>
  util/logger.h and util/logger.cpp: a statement builds a \<open>Logger\<close>, streams its text into it, and the
  destructor hands the finished line to the output function, and aborts the process if the level is
  \<open>FATAL\<close>. The date of a line is cached per thread (\<open>log_tls\<close>) and formatted only when the second changes.

  Of the C library, \<open>gmtime_r\<close> and \<open>strerror_r\<close> are arguments; \<open>snprintf\<close> is modelled for the formats used.
  \<open>None\<close> is a failing assertion or undefined behaviour. What the output function does with a line is its
  own business; the calls are collected.
\<close>

section \<open>Levels\<close>

datatype LogLevel = TRACE | DEBUG | INFO | WARN | ERROR | FATAL | NUM_LOG_LEVELS

fun level_no :: "LogLevel \<Rightarrow> nat" where
  "level_no TRACE = 0"
| "level_no DEBUG = 1"
| "level_no INFO = 2"
| "level_no WARN = 3"
| "level_no ERROR = 4"
| "level_no FATAL = 5"
| "level_no NUM_LOG_LEVELS = 6"

lemma level_no_inject: "level_no a = level_no b \<Longrightarrow> a = b"
  by (cases a; cases b) simp_all

instantiation LogLevel :: linorder
begin

definition less_eq_LogLevel :: "LogLevel \<Rightarrow> LogLevel \<Rightarrow> bool" where
  "a \<le> b \<longleftrightarrow> level_no a \<le> level_no b"

definition less_LogLevel :: "LogLevel \<Rightarrow> LogLevel \<Rightarrow> bool" where
  "a < b \<longleftrightarrow> level_no a < level_no b"

instance
  by standard (auto simp: less_eq_LogLevel_def less_LogLevel_def intro: level_no_inject)

end

text \<open>The table has \<open>NUM_LOG_LEVELS\<close> names of six characters.\<close>

definition LogLevelName :: "LogLevel \<Rightarrow> string option" where
  "LogLevelName l =
     (if NUM_LOG_LEVELS \<le> l then None
      else Some ([''TRACE '', ''DEBUG '', ''INFO  '', ''WARN  '', ''ERROR '', ''FATAL ''] ! level_no l))"

section \<open>The name of the source file\<close>

record SourceFile =
  sf_data :: string
  sf_size :: int

text \<open>A C string ends at its first null character. \<open>strrchr\<close> finds the last occurrence before it.\<close>

definition c_str :: "string \<Rightarrow> string" where
  "c_str s = takeWhile (\<lambda>c. c \<noteq> CHR 0x00) s"

definition strrchr :: "string \<Rightarrow> char \<Rightarrow> nat option" where
  "strrchr s c =
     (let t = c_str s; n = length (takeWhile (\<lambda>d. d \<noteq> c) (rev t))
      in if n = length t then None else Some (length t - Suc n))"

text \<open>
  From an array of characters, whose length is known (\<open>arr\<close> is without the final null character), and from a
  pointer.
\<close>

definition SourceFile_array :: "string \<Rightarrow> SourceFile" where
  "SourceFile_array arr =
     (case strrchr arr (CHR ''/'') of
        None \<Rightarrow> \<lparr>sf_data = arr, sf_size = int (length arr)\<rparr>
      | Some i \<Rightarrow> \<lparr>sf_data = drop (Suc i) arr, sf_size = int (length arr) - int (Suc i)\<rparr>)"

definition SourceFile_ptr :: "string \<Rightarrow> SourceFile" where
  "SourceFile_ptr filename =
     (let d = (case strrchr filename (CHR ''/'') of None \<Rightarrow> filename | Some i \<Rightarrow> drop (Suc i) filename)
      in \<lparr>sf_data = d, sf_size = int (length (c_str d))\<rparr>)"

section \<open>Formats\<close>

fun dec :: "nat \<Rightarrow> string" where
  "dec n = (if n < 10 then [char_of (48 + n)] else dec (n div 10) @ [char_of (48 + n mod 10)])"

declare dec.simps [simp del]

definition show_int :: "int \<Rightarrow> string" where
  "show_int i = (if i < 0 then CHR ''-'' # dec (nat (- i)) else dec (nat i))"

definition pad :: "char \<Rightarrow> nat \<Rightarrow> string \<Rightarrow> string" where
  "pad c w s = replicate (w - length s) c @ s"

text \<open>\<open>%4d\<close> pads with blanks, \<open>%02d\<close> and \<open>%06d\<close> with zeros after the sign.\<close>

definition fmt_d :: "nat \<Rightarrow> int \<Rightarrow> string" where
  "fmt_d w i = pad (CHR '' '') w (show_int i)"

definition fmt_0d :: "nat \<Rightarrow> int \<Rightarrow> string" where
  "fmt_0d w i = (if i < 0 then CHR ''-'' # pad (CHR ''0'') (w - 1) (dec (nat (- i))) else pad (CHR ''0'') w (dec (nat i)))"

section \<open>The time\<close>

record tm =
  tm_year :: int
  tm_mon :: int
  tm_mday :: int
  tm_hour :: int
  tm_min :: int
  tm_sec :: int

record log_tls =
  lt_time :: string
  lt_lastSecond :: int

definition log_tls_new :: log_tls where
  "log_tls_new = \<lparr>lt_time = '''', lt_lastSecond = 0\<rparr>"

definition date_text :: "tm \<Rightarrow> string" where
  "date_text t =
     fmt_d 4 (tm_year t + 1900) @ fmt_0d 2 (tm_mon t + 1) @ fmt_0d 2 (tm_mday t) @ '' '' @
     fmt_0d 2 (tm_hour t) @ '':'' @ fmt_0d 2 (tm_min t) @ '':'' @ fmt_0d 2 (tm_sec t)"

text \<open>\<open>T(str, len)\<close> asserts the length of a C string.\<close>

definition T_new :: "string \<Rightarrow> nat \<Rightarrow> string option" where
  "T_new str len = (if length (c_str str) = len then Some (take len str) else None)"

text \<open>
  \<open>formatTime\<close> at a time of day of \<open>sec\<close> seconds and \<open>usec\<close> microseconds: what it appends to the stream. The sum of both
  in microseconds has to fit into 64 bits; \<open>snprintf\<close> cuts what does not fit into its 64 bytes.
\<close>

definition Logger_formatTime :: "(int \<Rightarrow> tm) \<Rightarrow> int \<times> int \<Rightarrow> log_tls \<Rightarrow> (log_tls \<times> string) option" where
  "Logger_formatTime gm clock tls =
     (let us = 1000000 * fst clock + snd clock; seconds = us sdiv 1000000; microseconds = us smod 1000000
      in if us < - (2 ^ 63) \<or> 2 ^ 63 \<le> us then None
         else do {
           tls' \<leftarrow> (if seconds \<noteq> lt_lastSecond tls
                    then let d = date_text (gm seconds)
                         in if length d \<noteq> 17 then None else Some \<lparr>lt_time = take 63 d, lt_lastSecond = seconds\<rparr>
                    else Some tls);
           let ud = ''.'' @ fmt_0d 6 microseconds @ ''Z '';
           t1 \<leftarrow> T_new (lt_time tls') 17;
           t2 \<leftarrow> T_new (take 63 ud) (length ud);
           Some (tls', t1 @ t2)
         })"

section \<open>The class\<close>

record Logger =
  lg_line :: int
  lg_level :: LogLevel
  lg_stream :: string
  lg_basename :: SourceFile

definition errno_text :: "(int \<Rightarrow> string) \<Rightarrow> int \<Rightarrow> string" where
  "errno_text strerror savedErrno =
     (if savedErrno \<noteq> 0 then strerror savedErrno @ '' (errno='' @ show_int savedErrno @ '') '' else [])"

definition Impl_new ::
  "(int \<Rightarrow> tm) \<Rightarrow> (int \<Rightarrow> string) \<Rightarrow> LogLevel \<Rightarrow> int \<Rightarrow> SourceFile \<Rightarrow> int \<Rightarrow> int \<times> int \<Rightarrow> log_tls \<Rightarrow> (log_tls \<times> Logger) option" where
  "Impl_new gm strerror level savedErrno file line clock tls = do {
     (tls', t) \<leftarrow> Logger_formatTime gm clock tls;
     name \<leftarrow> LogLevelName level;
     n \<leftarrow> T_new name 6;
     Some (tls', \<lparr>lg_line = line, lg_level = level, lg_stream = t @ n @ errno_text strerror savedErrno, lg_basename = file\<rparr>)
   }"

definition Logger_new ::
  "(int \<Rightarrow> tm) \<Rightarrow> (int \<Rightarrow> string) \<Rightarrow> SourceFile \<Rightarrow> int \<Rightarrow> int \<times> int \<Rightarrow> log_tls \<Rightarrow> (log_tls \<times> Logger) option" where
  "Logger_new gm strerror file line clock tls = Impl_new gm strerror INFO 0 file line clock tls"

definition Logger_new_func ::
  "(int \<Rightarrow> tm) \<Rightarrow> (int \<Rightarrow> string) \<Rightarrow> SourceFile \<Rightarrow> int \<Rightarrow> LogLevel \<Rightarrow> string \<Rightarrow> int \<times> int \<Rightarrow> log_tls \<Rightarrow> (log_tls \<times> Logger) option" where
  "Logger_new_func gm strerror file line level func clock tls =
     map_option (\<lambda>(tls', l). (tls', l\<lparr>lg_stream := lg_stream l @ func @ '' ''\<rparr>)) (Impl_new gm strerror level 0 file line clock tls)"

definition Logger_new_level ::
  "(int \<Rightarrow> tm) \<Rightarrow> (int \<Rightarrow> string) \<Rightarrow> SourceFile \<Rightarrow> int \<Rightarrow> LogLevel \<Rightarrow> int \<times> int \<Rightarrow> log_tls \<Rightarrow> (log_tls \<times> Logger) option" where
  "Logger_new_level gm strerror file line level clock tls = Impl_new gm strerror level 0 file line clock tls"

definition Logger_new_abort ::
  "(int \<Rightarrow> tm) \<Rightarrow> (int \<Rightarrow> string) \<Rightarrow> SourceFile \<Rightarrow> int \<Rightarrow> bool \<Rightarrow> int \<Rightarrow> int \<times> int \<Rightarrow> log_tls \<Rightarrow> (log_tls \<times> Logger) option" where
  "Logger_new_abort gm strerror file line toAbort errno clock tls =
     Impl_new gm strerror (if toAbort then FATAL else ERROR) errno file line clock tls"

definition Logger_finish :: "Logger \<Rightarrow> Logger" where
  "Logger_finish l =
     l\<lparr>lg_stream := lg_stream l @ '' - '' @ take (nat (sf_size (lg_basename l))) (sf_data (lg_basename l)) @ '':'' @
       show_int (lg_line l) @ [CHR 0x0A]\<rparr>"

text \<open>
  The globals: the level, which nothing reads but \<open>logLevel()\<close>, and the two functions, \<open>None\<close> for the default ones. A
  call of the output function is logged with it, and so is a flush.
\<close>

record 'f log_globals =
  gl_logLevel :: LogLevel
  gl_output :: "'f option"
  gl_flush :: "'f option"

datatype 'f log_call = Out "'f option" string | Flush "'f option"

definition log_globals_init :: "'f log_globals" where
  "log_globals_init = \<lparr>gl_logLevel = INFO, gl_output = None, gl_flush = None\<rparr>"

definition Logger_setLogLevel :: "LogLevel \<Rightarrow> 'f log_globals \<Rightarrow> 'f log_globals" where
  "Logger_setLogLevel level g = g\<lparr>gl_logLevel := level\<rparr>"

definition Logger_setOutput :: "'f \<Rightarrow> 'f log_globals \<Rightarrow> 'f log_globals" where
  "Logger_setOutput out g = g\<lparr>gl_output := Some out\<rparr>"

definition Logger_setFlush :: "'f \<Rightarrow> 'f log_globals \<Rightarrow> 'f log_globals" where
  "Logger_setFlush flush g = g\<lparr>gl_flush := Some flush\<rparr>"

definition Logger_resetOutput :: "'f log_globals \<Rightarrow> 'f log_globals" where
  "Logger_resetOutput g = g\<lparr>gl_output := None\<rparr>"

definition Logger_resetFlush :: "'f log_globals \<Rightarrow> 'f log_globals" where
  "Logger_resetFlush g = g\<lparr>gl_flush := None\<rparr>"

text \<open>The destructor: its calls, and whether it aborts the process.\<close>

definition Logger_delete :: "'f log_globals \<Rightarrow> Logger \<Rightarrow> 'f log_call list \<times> bool" where
  "Logger_delete g l =
     (let str = lg_stream (Logger_finish l)
      in if lg_level l = FATAL then ([Out (gl_output g) str, Flush (gl_flush g)], True) else ([Out (gl_output g) str], False))"

section \<open>Lines\<close>

text \<open>A statement such as \<open>LOG_WARN << text\<close>: the level, the file, the line, the text and the time it runs.\<close>

record log_stmt =
  ls_level :: LogLevel
  ls_file :: string
  ls_line :: int
  ls_text :: string
  ls_clock :: "int \<times> int"

definition log_statement ::
  "(int \<Rightarrow> tm) \<Rightarrow> (int \<Rightarrow> string) \<Rightarrow> 'f log_globals \<Rightarrow> log_stmt \<Rightarrow> log_tls \<Rightarrow> (log_tls \<times> 'f log_call list \<times> bool) option" where
  "log_statement gm strerror g st tls =
     map_option (\<lambda>(tls', l). (tls', Logger_delete g (l\<lparr>lg_stream := lg_stream l @ ls_text st\<rparr>)))
       (Logger_new_level gm strerror (SourceFile_array (ls_file st)) (ls_line st) (ls_level st) (ls_clock st) tls)"

text \<open>The statements of one thread, up to one that aborts.\<close>

fun log_thread ::
  "(int \<Rightarrow> tm) \<Rightarrow> (int \<Rightarrow> string) \<Rightarrow> 'f log_globals \<Rightarrow> log_stmt list \<Rightarrow> log_tls \<Rightarrow> 'f log_call list option" where
  "log_thread gm strerror g [] tls = Some []"
| "log_thread gm strerror g (st # sts) tls =
     (case log_statement gm strerror g st tls of
        None \<Rightarrow> None
      | Some (tls', calls, abort) \<Rightarrow>
          if abort then Some calls else map_option (\<lambda>rest. calls @ rest) (log_thread gm strerror g sts tls'))"

text \<open>The line a statement is meant to write, formatted from scratch.\<close>

definition basename :: "string \<Rightarrow> string" where
  "basename s = rev (takeWhile (\<lambda>c. c \<noteq> CHR ''/'') (rev s))"

definition log_line :: "(int \<Rightarrow> tm) \<Rightarrow> log_stmt \<Rightarrow> string" where
  "log_line gm st =
     date_text (gm (fst (ls_clock st))) @ ''.'' @ fmt_0d 6 (snd (ls_clock st)) @ ''Z '' @ the (LogLevelName (ls_level st)) @ ls_text st @
     '' - '' @ basename (ls_file st) @ '':'' @ show_int (ls_line st) @ [CHR 0x0A]"

lemma SourceFile_basename:
  assumes "CHR 0x00 \<notin> set s"
  shows "take (nat (sf_size (SourceFile_array s))) (sf_data (SourceFile_array s)) = basename s"
    and "SourceFile_ptr s = SourceFile_array s"
proof -
  have c: "c_str t = t" if "CHR 0x00 \<notin> set t" for t using that by (auto simp: c_str_def takeWhile_eq_all_conv)
  let ?t = "takeWhile (\<lambda>d. d \<noteq> CHR ''/'') (rev s)"
  have le: "length ?t \<le> length s" using length_takeWhile_le [of _ "rev s"] by simp
  have t: "?t = take (length ?t) (rev s)" by (rule takeWhile_eq_take)
  then have b: "basename s = drop (length s - length ?t) s" unfolding basename_def by (metis length_rev rev_rev_ident rev_take)
  have sub: "c_str (drop n s) = drop n s" for n using assms by (intro c) (auto dest: in_set_dropD)
  show "take (nat (sf_size (SourceFile_array s))) (sf_data (SourceFile_array s)) = basename s"
  proof (cases "length ?t = length s")
    case True
    then show ?thesis by (simp add: SourceFile_array_def strrchr_def c [OF assms] b)
  next
    case False
    then show ?thesis using le by (simp add: SourceFile_array_def strrchr_def c [OF assms] b Let_def Suc_diff_Suc)
  qed
  show "SourceFile_ptr s = SourceFile_array s"
    using le by (auto simp: SourceFile_array_def SourceFile_ptr_def strrchr_def c [OF assms] sub Let_def)
qed

text \<open>
  What the lines rely on: the clock is past the first second of the epoch and in range, \<open>gmtime_r\<close> gives a date
  of 17 characters, the level is one that does not abort, the name of the file is a C string.
\<close>

definition log_stmt_ok :: "(int \<Rightarrow> tm) \<Rightarrow> log_stmt \<Rightarrow> bool" where
  "log_stmt_ok gm st \<longleftrightarrow>
     1 \<le> fst (ls_clock st) \<and> fst (ls_clock st) < 2 ^ 40 \<and> 0 \<le> snd (ls_clock st) \<and> snd (ls_clock st) < 1000000 \<and>
     length (date_text (gm (fst (ls_clock st)))) = 17 \<and> ls_level st < FATAL \<and> CHR 0x00 \<notin> set (ls_file st)"

text \<open>The cache of a thread is empty or holds the date of its second.\<close>

definition log_tls_wf :: "(int \<Rightarrow> tm) \<Rightarrow> log_tls \<Rightarrow> bool" where
  "log_tls_wf gm tls \<longleftrightarrow> lt_lastSecond tls = 0 \<or> lt_time tls = date_text (gm (lt_lastSecond tls))"

lemma log_tls_wf_new: "log_tls_wf gm log_tls_new"
  by (simp add: log_tls_wf_def log_tls_new_def)

lemma set_dec: "CHR 0x00 \<notin> set (dec n)"
proof (induction n rule: dec.induct)
  case (1 n)
  have "char_of (48 + d) \<noteq> CHR 0x00" if "d < 10" for d :: nat
  proof
    assume "char_of (48 + d) = CHR 0x00"
    then have "of_char (char_of (48 + d)) = (of_char (CHR 0x00) :: nat)" by simp
    with that show False by simp
  qed
  from this [of n] this [of "n mod 10"] 1 show ?case by (subst dec.simps) auto
qed

lemma set_fmt: "CHR 0x00 \<notin> set (fmt_d w i)" "CHR 0x00 \<notin> set (fmt_0d w i)"
  using set_dec by (auto simp: fmt_d_def fmt_0d_def pad_def show_int_def)

lemma c_str_id: "CHR 0x00 \<notin> set s \<Longrightarrow> c_str s = s"
  by (auto simp: c_str_def takeWhile_eq_all_conv)

lemma c_str_date: "c_str (date_text t) = date_text t"
  by (rule c_str_id) (simp add: date_text_def set_fmt)

lemma length_dec: "n < 10 ^ Suc w \<Longrightarrow> length (dec n) \<le> Suc w"
proof (induction w arbitrary: n)
  case 0
  then show ?case by (subst dec.simps) simp
next
  case (Suc w)
  from Suc.prems have "n div 10 < 10 ^ Suc w" by auto
  from Suc.IH [OF this] show ?case by (subst dec.simps) simp
qed

lemma length_usec: "0 \<le> u \<Longrightarrow> u < 1000000 \<Longrightarrow> length (fmt_0d 6 u) = 6"
  using length_dec [of "nat u" 5] by (simp add: fmt_0d_def pad_def)

text \<open>One statement writes its line, and keeps the cache right.\<close>

lemma formatTime_ok:
  assumes "log_tls_wf gm tls" "1 \<le> s" "s < 2 ^ 40" "0 \<le> u" "u < 1000000" "length (date_text (gm s)) = 17"
  shows "Logger_formatTime gm (s, u) tls =
    Some (\<lparr>lt_time = date_text (gm s), lt_lastSecond = s\<rparr>, date_text (gm s) @ ''.'' @ fmt_0d 6 u @ ''Z '')"
proof -
  have q: "(1000000 * s + u) sdiv 1000000 = s" "(1000000 * s + u) smod 1000000 = u"
    using assms by (auto simp: signed_divide_int_def signed_modulo_int_def sgn_if)
  have r: "\<not> 1000000 * s + u < - (2 ^ 63)" "\<not> 2 ^ 63 \<le> 1000000 * s + u" using assms by auto
  have ud: "T_new (''.'' @ fmt_0d 6 u @ ''Z '') 9 = Some (''.'' @ fmt_0d 6 u @ ''Z '')"
    using length_usec [of u] assms(4,5) by (simp add: T_new_def c_str_id set_fmt)
  have dt: "T_new (date_text (gm s)) 17 = Some (date_text (gm s))" using assms(6) by (simp add: T_new_def c_str_date)
  have tls: "tls = \<lparr>lt_time = date_text (gm s), lt_lastSecond = s\<rparr> \<and> lt_time tls = date_text (gm s)"
    if "s = lt_lastSecond tls"
    using that assms(1,2) by (cases tls) (auto simp: log_tls_wf_def)
  show ?thesis
    using q r ud dt tls assms(6) length_usec [of u] assms(4,5)
    by (cases "s = lt_lastSecond tls") (auto simp: Logger_formatTime_def Let_def)
qed

lemma LogLevelName_ok:
  assumes "l < FATAL"
  shows "\<exists>n. LogLevelName l = Some n \<and> T_new n 6 = Some n"
  using assms by (cases l) (auto simp: LogLevelName_def less_eq_LogLevel_def less_LogLevel_def T_new_def c_str_def)

lemma log_statement_ok:
  assumes "log_tls_wf gm tls" "log_stmt_ok gm st"
  obtains tls' where "log_tls_wf gm tls'"
    "log_statement gm strerror g st tls = Some (tls', [Out (gl_output g) (log_line gm st)], False)"
proof -
  let ?s = "fst (ls_clock st)"
  have ft: "Logger_formatTime gm (ls_clock st) tls =
    Some (\<lparr>lt_time = date_text (gm ?s), lt_lastSecond = ?s\<rparr>, date_text (gm ?s) @ ''.'' @ fmt_0d 6 (snd (ls_clock st)) @ ''Z '')"
    using formatTime_ok [OF assms(1), of ?s "snd (ls_clock st)"] assms(2) by (simp add: log_stmt_ok_def)
  obtain n where n: "LogLevelName (ls_level st) = Some n" "T_new n 6 = Some n"
    using LogLevelName_ok assms(2) by (auto simp: log_stmt_ok_def)
  have nf: "ls_level st \<noteq> FATAL" using assms(2) by (auto simp: log_stmt_ok_def)
  have b: "CHR 0x00 \<notin> set (ls_file st)" using assms(2) by (simp add: log_stmt_ok_def)
  have "log_statement gm strerror g st tls =
      Some (\<lparr>lt_time = date_text (gm ?s), lt_lastSecond = ?s\<rparr>, [Out (gl_output g) (log_line gm st)], False)"
    using ft n nf SourceFile_basename(1) [OF b]
    by (simp add: log_statement_def Logger_new_level_def Impl_new_def errno_text_def Logger_delete_def Logger_finish_def
        log_line_def Let_def)
  with that [of "\<lparr>lt_time = date_text (gm ?s), lt_lastSecond = ?s\<rparr>"] show thesis by (simp add: log_tls_wf_def)
qed

lemma log_thread_lines:
  "log_tls_wf gm tls \<Longrightarrow> list_all (log_stmt_ok gm) sts \<Longrightarrow>
   log_thread gm strerror g sts tls = Some (map (\<lambda>st. Out (gl_output g) (log_line gm st)) sts)"
proof (induction sts arbitrary: tls)
  case (Cons st sts)
  then have "log_stmt_ok gm st" by simp
  with Cons.prems(1) obtain tls' where "log_tls_wf gm tls'"
    "log_statement gm strerror g st tls = Some (tls', [Out (gl_output g) (log_line gm st)], False)"
    by (rule log_statement_ok)
  with Cons show ?case by simp
qed simp

section \<open>The property\<close>

text \<open>C39: Whatever a thread logged before, every statement below FATAL writes exactly the line that formatting its own time, level,
  text, file name and line number from scratch gives, in order and with one call of the output function: the cached date is never stale.
  The clock has to be past the first second of the epoch, where the cache starts.\<close>

theorem log_lines_as_specified:
  assumes "list_all (log_stmt_ok gm) sts"
  shows "log_thread gm strerror g sts log_tls_new = Some (map (\<lambda>st. Out (gl_output g) (log_line gm st)) sts)"
  using log_thread_lines [OF log_tls_wf_new assms] .

definition ex_gm :: "int \<Rightarrow> tm" where
  "ex_gm s = \<lparr>tm_year = 70, tm_mon = 0, tm_mday = 1, tm_hour = s div 3600, tm_min = s div 60 mod 60, tm_sec = s mod 60\<rparr>"

definition ex_stmts :: "log_stmt list" where
  "ex_stmts =
     [\<lparr>ls_level = WARN, ls_file = ''core/plog.cpp'', ls_line = 57, ls_text = ''short record'', ls_clock = (61, 7)\<rparr>,
      \<lparr>ls_level = INFO, ls_file = ''paxos.cpp'', ls_line = 9, ls_text = ''up'', ls_clock = (61, 999999)\<rparr>,
      \<lparr>ls_level = ERROR, ls_file = ''/a/b.h'', ls_line = 100, ls_text = [], ls_clock = (3600, 0)\<rparr>]"

lemma replicate_pred: "replicate (numeral k) x = x # replicate (pred_numeral k) x"
  by (simp add: numeral_eq_Suc)

lemma log_lines_as_specified_witness:
  "log_thread ex_gm (\<lambda>e. []) (log_globals_init :: unit log_globals) ex_stmts log_tls_new =
   Some [Out None (''19700101 00:01:01.000007Z WARN  short record - plog.cpp:57'' @ [CHR 0x0A]),
         Out None (''19700101 00:01:01.999999Z INFO  up - paxos.cpp:9'' @ [CHR 0x0A]),
         Out None (''19700101 01:00:00.000000Z ERROR  - b.h:100'' @ [CHR 0x0A])]"
proof -
  have ok: "list_all (log_stmt_ok ex_gm) ex_stmts"
    by (simp add: ex_stmts_def log_stmt_ok_def ex_gm_def date_text_def fmt_d_def fmt_0d_def pad_def show_int_def dec.simps
        less_LogLevel_def)
  have lines: "map (log_line ex_gm) ex_stmts =
      [''19700101 00:01:01.000007Z WARN  short record - plog.cpp:57'' @ [CHR 0x0A],
       ''19700101 00:01:01.999999Z INFO  up - paxos.cpp:9'' @ [CHR 0x0A],
       ''19700101 01:00:00.000000Z ERROR  - b.h:100'' @ [CHR 0x0A]]"
    by (simp add: ex_stmts_def log_line_def ex_gm_def date_text_def fmt_d_def fmt_0d_def pad_def show_int_def dec.simps
        char_of_def bit_0 replicate_pred LogLevelName_def less_eq_LogLevel_def basename_def)
  have "map (\<lambda>st. Out None (log_line ex_gm st)) ex_stmts = map (Out (None :: unit option)) (map (log_line ex_gm) ex_stmts)"
    by simp
  with lines log_lines_as_specified [OF ok, of "\<lambda>e. []" "log_globals_init :: unit log_globals"] show ?thesis
    by (simp add: log_globals_init_def)
qed

end
