(* ===== verification/Future_Wait.thy ===== *)
theory Future_Wait
  imports Quarrel_Prelude
begin

text \<open>
  util/future.hpp and util/time.hpp: waiting for any of several futures. What a poll sees and when it is over is
  outside the program: \<open>ready i\<close> tells which futures are ready in the \<open>i\<close>-th poll, \<open>clock i\<close> is the time of day read after
  it, and sleeping between two polls is nothing but that. The loop may not end; then the result is \<open>None\<close>.
\<close>

definition GetCurrTimeUS :: "int \<times> int \<Rightarrow> u64" where
  "GetCurrTimeUS tv = of_int (fst tv) * 1000000 + of_int (snd tv)"

text \<open>The end of the array if there is none.\<close>

fun future_find_first_ready :: "bool list \<Rightarrow> nat" where
  "future_find_first_ready [] = 0"
| "future_find_first_ready (r # rs) = (if r then 0 else Suc (future_find_first_ready rs))"

text \<open>The limit \<open>timeout_ms * 1000\<close> is computed with 32 bits.\<close>

partial_function (option) future_wait_loop ::
  "(nat \<Rightarrow> bool list) \<Rightarrow> (nat \<Rightarrow> int \<times> int) \<Rightarrow> u32 \<Rightarrow> u64 \<Rightarrow> nat \<Rightarrow> int option" where
  "future_wait_loop ready clock timeout_ms start_tm i =
     (let it = future_find_first_ready (ready i)
      in if it \<noteq> length (ready i) then Some (int it)
         else let elapsed = GetCurrTimeUS (clock i) - start_tm
              in if elapsed > ucast (timeout_ms * 1000) then Some (- 2)
                 else future_wait_loop ready clock timeout_ms start_tm (Suc i))"

definition future_wait_any ::
  "(nat \<Rightarrow> bool list) \<Rightarrow> (nat \<Rightarrow> int \<times> int) \<Rightarrow> int \<times> int \<Rightarrow> u32 \<Rightarrow> int option" where
  "future_wait_any ready clock now timeout_ms =
     (if ready 0 = [] then Some (- 1) else future_wait_loop ready clock timeout_ms (GetCurrTimeUS now) 0)"

lemma find_first_ready_less: "future_find_first_ready rs < length rs \<longleftrightarrow> True \<in> set rs"
  by (induction rs) auto

lemma find_first_ready_end: "future_find_first_ready rs = length rs \<longleftrightarrow> True \<notin> set rs"
  by (induction rs) auto

lemma find_first_ready_first:
  "True \<in> set rs \<Longrightarrow>
   rs ! future_find_first_ready rs \<and> (\<forall>j < future_find_first_ready rs. \<not> rs ! j)"
  by (induction rs) (auto simp: less_Suc_eq_0_disj nth_Cons split: nat.splits)

text \<open>The time limit is exceeded after poll \<open>i\<close>.\<close>

definition timed_out :: "(nat \<Rightarrow> int \<times> int) \<Rightarrow> int \<times> int \<Rightarrow> u32 \<Rightarrow> nat \<Rightarrow> bool" where
  "timed_out clock now timeout_ms i \<longleftrightarrow> GetCurrTimeUS (clock i) - GetCurrTimeUS now > ucast (timeout_ms * 1000)"

text \<open>
  The wait ends with the first poll that sees a ready future or is over too late, and a ready future counts even
  when the time is up.
\<close>

lemma future_wait_loop_ends:
  assumes "True \<in> set (ready k) \<or> timed_out clock now t k"
    and "\<And>j. i \<le> j \<Longrightarrow> j < k \<Longrightarrow> True \<notin> set (ready j) \<and> \<not> timed_out clock now t j" and "i \<le> k"
  shows "future_wait_loop ready clock t (GetCurrTimeUS now) i =
    Some (if True \<in> set (ready k) then int (future_find_first_ready (ready k)) else - 2)"
  using assms(3,2)
proof (induction i rule: inc_induct)
  case base
  show ?case
    using assms(1) by (subst future_wait_loop.simps) (auto simp: timed_out_def find_first_ready_end Let_def)
next
  case (step i)
  then have "True \<notin> set (ready i)" "\<not> timed_out clock now t i" by auto
  with step show ?case
    by (subst future_wait_loop.simps) (simp add: timed_out_def find_first_ready_end)
qed

theorem future_wait_any_ends:
  assumes "ready 0 \<noteq> []" "True \<in> set (ready k) \<or> timed_out clock now t k"
    and "\<And>j. j < k \<Longrightarrow> True \<notin> set (ready j) \<and> \<not> timed_out clock now t j"
  shows "future_wait_any ready clock now t =
    Some (if True \<in> set (ready k) then int (future_find_first_ready (ready k)) else - 2)"
  using future_wait_loop_ends [of ready k clock now t 0] assms by (simp add: future_wait_any_def)

text \<open>A limit of 4294968 ms, more than an hour, is one of 704 microseconds: the product wraps.\<close>

lemma future_timeout_wraps:
  "future_wait_any (\<lambda>_. [False]) (\<lambda>_. (10, 705)) (10, 0) 4294968 = Some (- 2)"
proof -
  have "timed_out (\<lambda>_. (10, 705)) (10, 0) 4294968 0" by (simp add: timed_out_def GetCurrTimeUS_def)
  from future_wait_any_ends [of "\<lambda>_. [False]" 0, OF _ disjI2 [OF this]] show ?thesis by simp
qed

end
