(* ===== verification/Spec2Isabelle.thy ===== *)
theory Spec2Isabelle
  imports Acceptor_Properties Synod_Properties Util_Properties Proposer_Properties Proposer_Clients
    Runtime_Properties Plog_Properties Node_Properties Proposer_Types Io_Properties
    Group_Properties
    Logger Future_Wait
begin

text \<open>
  A verification library for \<open>quarrel\<close>, a multi-instance Paxos log in C++.

  \<^bold>\<open>The program.\<close> A server holds several log instances. For every entry of an instance the servers agree on
  one value: the proposer of a server (src/core/proposer.cpp) sends a prepare, an accept and a chosen request over its
  connections (src/network/conn.h), the acceptors (src/core/acceptor.cpp) answer them on worker threads
  (src/util/worker_pool.hpp over the ring buffer src/util/queue.h and src/util/waitgroup.hpp) and keep promises and
  votes in a log (src/core/plog.cpp), which caches its entries in src/util/lrumap.hpp. Which server is
  which member of the group of an instance is a table (src/core/paxos_group.cpp), from which each proposer's id
  generator (src/util/idgen.hpp) starts; member 0, the master, may skip the prepare phase. Timeouts
  come from src/util/timing_wheel.hpp. The class in src/core/paxos.cpp makes a node of these parts. Beside them,
  unused by the protocol, are a pool of resources (src/util/fix_count_allocator.hpp) and a wrapper of Linux's io_uring
  (src/util/iouring.cc).

  \<^bold>\<open>Conventions\<close> (\<open>Quarrel_Prelude\<close>, \<open>Ptype\<close>, \<open>Config\<close>). A class is a record whose fields are named after its
  members; a method \<open>m\<close> of \<open>C\<close> is the function \<open>C_m\<close>, which takes the object last and returns it
  first. Machine integers are words of their width, so they wrap; a C++ \<open>int\<close> is an integer where it cannot overflow. An error code is a value. \<open>None\<close> is
  an outcome the code has no value for: a failing assertion, undefined behaviour, an exception, or not
  returning. Code outside the repository is an argument: the store behind the log (\<open>plog_env\<close>), the network, the
  callbacks, the kernel's ring (\<open>uring_api\<close>) and \<open>LockFreeQueueV2\<close> (\<open>queue_v2\<close>); what is assumed of it is
  a named predicate (\<open>env_ok\<close>, \<open>ring_laws\<close>, \<open>queue_laws\<close>) with an instance beside its use. Loops are structural recursion, a
  measure (\<open>pollLoop_fill\<close>) or \<open>partial_function\<close> where they may not end (\<open>EntryMng_recover_loop\<close>, \<open>drain\<close>,
  \<open>submit_retry\<close>, \<open>future_wait_loop\<close>), with the condition under which they end proved; there is no fuel.

  \<^bold>\<open>Components and their theories.\<close>
  \<^item> \<open>Lru_Map\<close>, \<open>Lock_Free_Queue\<close>, \<open>Wait_Group\<close>, \<open>Worker_Pool\<close>, \<open>Id_Gen\<close>, \<open>Paxos_Group\<close>, \<open>Timing_Wheel\<close>, \<open>Conn\<close>,
    \<open>Fix_Count_Allocator\<close>: one per file of src/util, the member tables and the connections. Invariants, and refinement
    of a list, a queue or a multiset. Interfaces stated as locales and interpreted there: \<open>kv_cache\<close>, \<open>bounded_fifo\<close>,
    \<open>member_mapper\<close>, \<open>bounded_pool\<close>. The thread of the wheel and \<open>Stop\<close> are the step relation \<open>wheel_step\<close>.
  \<^item> \<open>Plog_Entry\<close>, \<open>Plog\<close>: entries with their byte format, and the log managers. \<open>EntryMng_view\<close> is the entry a request
    sees; recovery equals one pass over the stored log.
  \<^item> \<open>Acceptor\<close>, \<open>Acceptor_Spec\<close>: the handlers, and the functions on a single entry that they implement.
  \<^item> \<open>Proposer\<close>, \<open>Proposer_Spec\<close>, \<open>Proposer_Inv\<close>, \<open>Proposer_Types\<close>: the state machine of an instance; the handlers as functions on one
    instance; the invariants (futures, counters, identities); the shape of what is sent.
  \<^item> \<open>Synod_Acceptor\<close>, \<open>Synod\<close>: one entry across a group. The locale \<open>voting_history\<close> is what Paxos needs of an acceptor, interpreted on
    the entries of \<open>Acceptor_Spec\<close>; \<open>Synod\<close> is the step relation of a group that handles arbitrary messages, with its invariant.
  \<^item> \<open>Response_Shape\<close>, \<open>Group\<close>, \<open>Group_Round\<close>, \<open>Group_Inv\<close>, \<open>Group_Chosen\<close>: proposers and acceptors of all servers under a network
    that loses, delays, repeats and reorders. \<open>group_step\<close> is its step relation, \<open>round_inv\<close> the invariant of a proposer's round (the
    promises and votes it counts are answers of different acceptors to the requests of the round), \<open>group_inv\<close> that of the
    group. The group simulates \<open>Synod\<close> for every entry.
  \<^item> \<open>Paxos_Round\<close>, \<open>Paxos_Node\<close>: the proposer and the acceptors together through a two-phase round; the class \<open>Paxos\<close>.
  \<^item> \<open>Io_Uring\<close>, \<open>Io_Uring_Inv\<close>: the poll loop over a heap of contexts; its invariant under the laws of ring and queue, in
    any interleaving with callers, whose enqueue and count are separate steps.
  \<^item> \<open>Logger\<close>: the log statements and their cached date, with the property that lines are what formatting them from scratch gives.
    \<open>Future_Wait\<close>: the poll for a ready future (src/util/future.hpp, time.hpp).
  \<^item> \<open>Example_Node\<close>, \<open>Example_Proposer\<close>: small concrete objects for the examples.

  \<^bold>\<open>What the theorems show.\<close> Each is preceded by a text with its number.
  \<^item> \<open>Synod_Properties\<close>, \<open>Acceptor_Properties\<close>, \<open>Proposer_Properties\<close>: agreement, under the rule that an accept request
    carries the master's first id or follows a majority of promises; what the acceptor keeps; that the proposer
    obeys the rule when it does not take the one-phase path. Where agreement fails: a slave in the one-phase path, and a cache that evicts a promise.
    The caches are otherwise taken large enough for the entries in use (\<open>em_room\<close>).
  \<^item> \<open>Group_Properties\<close>: agreement of the whole group, in which that rule is proved of the proposers: the entries that acceptors
    have marked chosen agree, and chosen and accept requests are justified. The runs (\<open>may_propose\<close>, \<open>may_deliver\<close>) are those in
    which only the member with id 0 skips the prepare phase, the term of an instance does not wrap around, a new proposal has a value id its server has not
    sent before, the callback of a request is called at most once, the cache has room and the
    entries found by a request are labelled with their own number and instance; no server restarts. Values are known by their ids.
  \<^item> \<open>Proposer_Clients\<close>, \<open>Node_Properties\<close>: what clients are told, that a round succeeds, and how timeouts and late
    answers behave.
  \<^item> \<open>Plog_Properties\<close>: round trip of the byte format, recovery, and what a restart loses.
  \<^item> \<open>Util_Properties\<close>, \<open>Runtime_Properties\<close>, \<open>Io_Properties\<close>: the containers, threads, timers, connections and asynchronous I/O.

  \<^bold>\<open>Atomicity.\<close> A method that runs under the lock of its instance, and a handler of an acceptor's worker, is
  one step. Calls of the lock-free queue are atomic steps, each succeeding at its first compare-and-swap.

  \<^bold>\<open>Not modelled.\<close> src/util/stl.hpp, whose two functions only manage memory; the default output of the logger, a write to stdout;
  the empty example; destructors that only free memory; failing memory allocation. \<open>Propose\<close> of the proposer is
  \<open>ProposeAsync\<close> followed by waiting, and the blocking calls of the io_uring wrapper pass theirs to
  \<open>doIoOpSync\<close>. \<open>AddChosenNotify\<close>, \<open>SubmitChosenProposal\<close> and \<open>ProposeBatch\<close> are declared and have no body. The workers of the
  io_uring wrapper are treated one at a time, each with a pool of its own shard.
\<close>

end
